(* ===== verification/Prelude.thy ===== *)
theory Prelude
  imports Main "HOL-Library.AList" "HOL-Library.Char_ord" "HOL-Library.List_Lexorder"
begin

text \<open>
  Shared vocabulary of the development: Python exceptions as values, insertion-ordered
  dictionaries as association lists, \<^verbatim>\<open>bisect.insort\<close> and \<^verbatim>\<open>sorted\<close> on keys,
  string helpers (\<^verbatim>\<open>str.split\<close>, \<^verbatim>\<open>str.join\<close>, decimal printing), and the generic
  lemmas on them that the component theories use through the simplifier.
\<close>

named_theorems dict_simps \<open>lookups after dictionary updates\<close>
named_theorems inv_intros \<open>preservation of component invariants\<close>

subsection \<open>Exceptions and results\<close>

text \<open>
  An exception object carries the name of its class and its message: the pipeline logs
  \<^verbatim>\<open>type(exc).__name__\<close> and \<^verbatim>\<open>str(exc)\<close>, so both are observable.
\<close>

datatype exn = Exn (exn_type: string) (exn_msg: string)

abbreviation ValueError :: "string \<Rightarrow> exn" where "ValueError m \<equiv> Exn ''ValueError'' m"
abbreviation TypeError :: "string \<Rightarrow> exn" where "TypeError m \<equiv> Exn ''TypeError'' m"
abbreviation KeyError :: "string \<Rightarrow> exn" where "KeyError m \<equiv> Exn ''KeyError'' m"
abbreviation AttributeError :: "string \<Rightarrow> exn" where "AttributeError m \<equiv> Exn ''AttributeError'' m"

type_synonym 'a res = "exn + 'a"

definition bind_res :: "'a res \<Rightarrow> ('a \<Rightarrow> 'b res) \<Rightarrow> 'b res" where
  "bind_res r f = (case r of Inl e \<Rightarrow> Inl e | Inr x \<Rightarrow> f x)"

lemma bind_res_simps [simp]:
  "bind_res (Inl e) f = Inl e"
  "bind_res (Inr x) f = f x"
  by (simp_all add: bind_res_def)

lemma bind_res_eq_Inr [simp]: "bind_res r f = Inr y \<longleftrightarrow> (\<exists>x. r = Inr x \<and> f x = Inr y)"
  by (cases r) auto

text \<open>\<^verbatim>\<open>[f(x) for x in xs]\<close> where \<open>f\<close> may raise: the first exception ends the comprehension.\<close>

fun map_res :: "('a \<Rightarrow> 'b res) \<Rightarrow> 'a list \<Rightarrow> 'b list res" where
  "map_res f [] = Inr []"
| "map_res f (x # xs) = bind_res (f x) (\<lambda>y. bind_res (map_res f xs) (\<lambda>ys. Inr (y # ys)))"

lemma map_res_Inr_conv: "map_res f xs = Inr ys \<longleftrightarrow> list_all2 (\<lambda>x y. f x = Inr y) xs ys"
  by (induction xs arbitrary: ys) (auto simp: list_all2_Cons1)

lemma map_res_total: "(\<And>x. x \<in> set xs \<Longrightarrow> f x = Inr (g x)) \<Longrightarrow> map_res f xs = Inr (map g xs)"
  by (induction xs) auto

subsection \<open>Insertion-ordered dictionaries\<close>

text \<open>
  A Python \<^verbatim>\<open>dict\<close> iterates in insertion order, and assigning to a present key keeps its
  place. \<open>AList.update\<close> does exactly that; \<open>AList.delete\<close> is \<^verbatim>\<open>del d[k]\<close> or
  \<^verbatim>\<open>d.pop(k, None)\<close>; \<open>map_of\<close> is \<^verbatim>\<open>d.get(k)\<close>.
\<close>

type_synonym ('k, 'v) dict = "('k \<times> 'v) list"

abbreviation dict_get :: "('k, 'v) dict \<Rightarrow> 'k \<Rightarrow> 'v option" where
  "dict_get \<equiv> map_of"
abbreviation dict_set :: "'k \<Rightarrow> 'v \<Rightarrow> ('k, 'v) dict \<Rightarrow> ('k, 'v) dict" where
  "dict_set \<equiv> AList.update"
abbreviation dict_del :: "'k \<Rightarrow> ('k, 'v) dict \<Rightarrow> ('k, 'v) dict" where
  "dict_del \<equiv> AList.delete"
abbreviation dict_keys :: "('k, 'v) dict \<Rightarrow> 'k list" where
  "dict_keys \<equiv> map fst"
abbreviation dict_ok :: "('k, 'v) dict \<Rightarrow> bool" where
  "dict_ok d \<equiv> distinct (map fst d)"

definition dict_get_default :: "('k, 'v) dict \<Rightarrow> 'k \<Rightarrow> 'v \<Rightarrow> 'v" where
  "dict_get_default d k v = (case dict_get d k of None \<Rightarrow> v | Some x \<Rightarrow> x)"

text \<open>\<^verbatim>\<open>d.setdefault(k, []).append(v)\<close>, the grouping idiom of the sources.\<close>

definition dict_append :: "'k \<Rightarrow> 'v \<Rightarrow> ('k, 'v list) dict \<Rightarrow> ('k, 'v list) dict" where
  "dict_append k v d = dict_set k (dict_get_default d k [] @ [v]) d"

lemma dict_get_set [simp, dict_simps]:
  "dict_get (dict_set k v d) k' = (if k' = k then Some v else dict_get d k')"
  by (simp add: update_conv')

lemma dict_get_del [simp, dict_simps]:
  "dict_get (dict_del k d) k' = (if k' = k then None else dict_get d k')"
  by (simp add: delete_conv')

lemma dict_ok_set [simp, intro]: "dict_ok d \<Longrightarrow> dict_ok (dict_set k v d)"
  by (rule distinct_update)

lemma dict_ok_del [simp, intro]: "dict_ok d \<Longrightarrow> dict_ok (dict_del k d)"
  by (rule distinct_delete)

lemma dict_keys_set: "set (dict_keys (dict_set k v d)) = insert k (set (dict_keys d))"
  by (induction d) auto

lemma fst_dict_set: "fst ` set (dict_set k v d) = insert k (fst ` set d)"
  using dict_keys_set [of k v d] by simp

lemma dict_keys_set_order:
  "dict_keys (dict_set k v d) = (if k \<in> set (dict_keys d) then dict_keys d else dict_keys d @ [k])"
  by (induction d) auto

lemma dict_keys_del: "set (dict_keys (dict_del k d)) = set (dict_keys d) - {k}"
  by (simp add: delete_keys)

lemma dict_get_None_iff: "dict_get d k = None \<longleftrightarrow> k \<notin> set (dict_keys d)"
  by (simp add: map_of_eq_None_iff)

lemma dict_get_Some_keys: "dict_get d k = Some v \<Longrightarrow> k \<in> set (dict_keys d)"
  by (metis dict_get_None_iff option.distinct(1))

lemma dict_get_in: "dict_get d k = Some v \<Longrightarrow> (k, v) \<in> set d"
  by (rule map_of_SomeD)

lemma dict_in_get: "dict_ok d \<Longrightarrow> (k, v) \<in> set d \<Longrightarrow> dict_get d k = Some v"
  by (rule map_of_is_SomeI)

lemma dict_set_same: "dict_get d k = Some v \<Longrightarrow> dict_set k v d = d"
  by (induction d) auto

lemma dict_del_absent: "dict_get d k = None \<Longrightarrow> dict_del k d = d"
  by (induction d) (auto split: if_splits)

lemma dict_get_append [dict_simps]:
  "dict_get (dict_append k v d) k' =
     (if k' = k then Some (dict_get_default d k [] @ [v]) else dict_get d k')"
  by (simp add: dict_append_def)

text \<open>Grouping a list with that idiom.\<close>

lemma dict_group_get:
  "dict_get_default (foldl (\<lambda>d x. dict_append (f x) x d) d0 xs) k [] = dict_get_default d0 k [] @ filter (\<lambda>x. f x = k) xs"
  by (induction xs arbitrary: d0) (auto simp: dict_append_def dict_get_default_def)

lemma dict_group_keys:
  "fst ` set (foldl (\<lambda>d x. dict_append (f x) x d) d0 xs) = fst ` set d0 \<union> f ` set xs"
  by (induction xs arbitrary: d0) (auto simp: dict_append_def fst_dict_set)

lemma dict_group_ok: "dict_ok d0 \<Longrightarrow> dict_ok (foldl (\<lambda>d x. dict_append (f x) x d) d0 xs)"
  by (induction xs arbitrary: d0) (auto simp: dict_append_def)

subsection \<open>Sorting\<close>

text \<open>
  \<^verbatim>\<open>bisect.insort(xs, x)\<close> inserts to the right of equal elements; on a linear order that
  is indistinguishable from \<open>List.insort\<close>. \<^verbatim>\<open>sorted(xs, key=f)\<close> is stable, as is
  \<open>sort_key\<close>.
\<close>

lemma distinct_insort_iff [simp]: "distinct (insort x xs) \<longleftrightarrow> x \<notin> set xs \<and> distinct xs"
  by (induction xs) (auto simp: set_insort_key)

lemma sorted_distinct_set_eq:
  "sorted xs \<Longrightarrow> distinct xs \<Longrightarrow> sorted ys \<Longrightarrow> distinct ys \<Longrightarrow> set xs = set ys \<Longrightarrow> xs = ys"
  by (rule sorted_distinct_set_unique)

subsection \<open>Integer division\<close>

lemma mult_le_iff_le_div: "0 < (D :: int) \<Longrightarrow> D * j \<le> t \<longleftrightarrow> j \<le> t div D"
proof
  assume D: "0 < D" and "D * j \<le> t"
  then have "(D * j) div D \<le> t div D" by (intro zdiv_mono1)
  then show "j \<le> t div D" using D by simp
next
  assume D: "0 < D" and "j \<le> t div D"
  then have "D * j \<le> D * (t div D)" by (intro mult_left_mono) auto
  also have "\<dots> \<le> t" using D by (metis mult_div_mod_eq add_increasing2 order_refl pos_mod_sign)
  finally show "D * j \<le> t" .
qed

lemma less_mult_iff_div_less: "0 < (D :: int) \<Longrightarrow> t < D * j \<longleftrightarrow> t div D < j"
  using mult_le_iff_le_div [of D j t] by auto

subsection \<open>Strings\<close>

fun show_nat_aux :: "nat \<Rightarrow> string \<Rightarrow> string" where
  "show_nat_aux n acc =
     (let c = char_of (48 + n mod 10) in
      if n < 10 then c # acc else show_nat_aux (n div 10) (c # acc))"

declare show_nat_aux.simps [simp del]

definition show_nat :: "nat \<Rightarrow> string" where "show_nat n = show_nat_aux n []"

definition show_int :: "int \<Rightarrow> string" where
  "show_int i = (if i < 0 then ''-'' @ show_nat (nat (- i)) else show_nat (nat i))"

text \<open>\<^verbatim>\<open>f"{n:0wd}"\<close> for a non-negative \<open>n\<close>.\<close>

definition show_pad :: "nat \<Rightarrow> nat \<Rightarrow> string" where
  "show_pad w n = (let s = show_nat n in replicate (w - length s) (CHR ''0'') @ s)"

text \<open>\<^verbatim>\<open>sep.join(parts)\<close> and \<^verbatim>\<open>s.split(c)\<close> with a one-character separator.\<close>

fun join_with :: "char \<Rightarrow> string list \<Rightarrow> string" where
  "join_with c [] = []"
| "join_with c [s] = s"
| "join_with c (s # t # ss) = s @ c # join_with c (t # ss)"

fun split_on :: "char \<Rightarrow> string \<Rightarrow> string list" where
  "split_on c [] = [[]]"
| "split_on c (x # xs) =
     (if x = c then [] # split_on c xs
      else (case split_on c xs of [] \<Rightarrow> [[x]] | s # ss \<Rightarrow> (x # s) # ss))"

lemma split_on_ne [simp]: "split_on c s \<noteq> []"
  by (cases s) (auto split: list.split)

lemma split_on_append_sep:
  "c \<notin> set s \<Longrightarrow> split_on c (s @ c # t) = s # split_on c t"
  by (induction s) auto

lemma split_on_no_sep: "c \<notin> set s \<Longrightarrow> split_on c s = [s]"
  by (induction s) auto

lemma split_join [simp]:
  "ss \<noteq> [] \<Longrightarrow> (\<forall>s \<in> set ss. c \<notin> set s) \<Longrightarrow> split_on c (join_with c ss) = ss"
  by (induction c ss rule: join_with.induct) (auto simp: split_on_append_sep split_on_no_sep)

lemma join_with_Cons: "ss \<noteq> [] \<Longrightarrow> join_with c (s # ss) = s @ c # join_with c ss"
  by (cases ss) auto

lemma join_with_Cons_Cons: "join_with c ((x # s) # ss) = x # join_with c (s # ss)"
  by (cases ss) auto

lemma join_split: "join_with c (split_on c s) = s"
  by (induction s) (auto simp: join_with_Cons join_with_Cons_Cons split: list.split)

lemma join_with_inj:
  assumes "join_with c xs = join_with c ys" and "xs \<noteq> []" and "ys \<noteq> []"
    and "\<forall>s \<in> set xs. c \<notin> set s" and "\<forall>s \<in> set ys. c \<notin> set s"
  shows "xs = ys"
proof -
  have "xs = split_on c (join_with c xs)" using assms(2,4) by simp
  also have "\<dots> = split_on c (join_with c ys)" by (rule arg_cong [OF assms(1)])
  also have "\<dots> = ys" using assms(3,5) by simp
  finally show ?thesis .
qed

definition is_digit :: "char \<Rightarrow> bool" where
  "is_digit c \<longleftrightarrow> CHR ''0'' \<le> c \<and> c \<le> CHR ''9''"

definition is_lower :: "char \<Rightarrow> bool" where
  "is_lower c \<longleftrightarrow> CHR ''a'' \<le> c \<and> c \<le> CHR ''z''"

definition is_upper :: "char \<Rightarrow> bool" where
  "is_upper c \<longleftrightarrow> CHR ''A'' \<le> c \<and> c \<le> CHR ''Z''"

definition starts_with :: "string \<Rightarrow> string \<Rightarrow> bool" where
  "starts_with p s \<longleftrightarrow> take (length p) s = p"

text \<open>\<^verbatim>\<open>int(s)\<close> on a string of ASCII digits.\<close>

definition nat_of_digits :: "string \<Rightarrow> nat" where
  "nat_of_digits s = foldl (\<lambda>n c. 10 * n + (of_char c - 48)) 0 s"

text \<open>Printed numbers: digit by digit, without a leading zero, and read back by \<open>nat_of_digits\<close>.\<close>

lemma show_nat_aux_acc: "show_nat_aux n (xs @ acc) = show_nat_aux n xs @ acc"
proof (induction n arbitrary: xs rule: less_induct)
  case (less n)
  show ?case
  proof (cases "n < 10")
    case True
    then show ?thesis by (simp add: show_nat_aux.simps Let_def)
  next
    case False
    then have "n div 10 < n" by simp
    from less.IH [OF this, of "char_of (48 + n mod 10) # xs"] False show ?thesis
      by (simp add: show_nat_aux.simps [of n] Let_def)
  qed
qed

lemma show_nat_rec:
  "show_nat n = (if n < 10 then [char_of (48 + n)] else show_nat (n div 10) @ [char_of (48 + n mod 10)])"
  using show_nat_aux_acc [of "n div 10" "[]" "[char_of (48 + n mod 10)]"]
  by (simp add: show_nat_def show_nat_aux.simps [of n] Let_def)

lemma is_digit_iff: "is_digit c \<longleftrightarrow> 48 \<le> (of_char c :: nat) \<and> of_char c \<le> (57 :: nat)"
  by (auto simp: is_digit_def less_eq_char_def)

lemma is_digit_char_of: "d < 10 \<Longrightarrow> is_digit (char_of (48 + d :: nat))"
  by (simp add: is_digit_iff)

lemma show_nat_digits: "\<forall>c \<in> set (show_nat n). is_digit c"
proof (induction n rule: less_induct)
  case (less n)
  show ?case
  proof (cases "n < 10")
    case False
    then have "n div 10 < n" by simp
    from less.IH [OF this] False show ?thesis by (simp add: show_nat_rec [of n] is_digit_char_of)
  qed (simp add: show_nat_rec [of n] is_digit_char_of)
qed

lemma show_nat_ne [simp]: "show_nat n \<noteq> []"
  by (subst show_nat_rec) simp

lemma show_nat_leading: "length (show_nat n) > 1 \<Longrightarrow> hd (show_nat n) \<noteq> CHR ''0''"
proof (induction n rule: less_induct)
  case (less n)
  have n: "\<not> n < 10" using less.prems by (auto simp: show_nat_rec [of n])
  show ?case
  proof (cases "length (show_nat (n div 10)) > 1")
    case True
    with n less.IH [of "n div 10"] show ?thesis by (simp add: show_nat_rec [of n] hd_append)
  next
    case False
    then have d: "n div 10 < 10" by (auto simp: show_nat_rec [of "n div 10"] split: if_splits)
    have "0 < n div 10" using n by (simp add: div_greater_zero_iff)
    moreover have "n div 10 = 0" if "char_of (48 + n div 10) = CHR ''0''"
    proof -
      have "of_char (char_of (48 + n div 10) :: char) = 48 + n div 10" using d by simp
      then show ?thesis using that by simp
    qed
    ultimately have "char_of (48 + n div 10) \<noteq> CHR ''0''" by auto
    then show ?thesis using n d by (simp add: show_nat_rec [of n] show_nat_rec [of "n div 10"])
  qed
qed

lemma nat_of_digits_snoc: "nat_of_digits (s @ [c]) = 10 * nat_of_digits s + (of_char c - 48)"
  by (simp add: nat_of_digits_def)

lemma nat_of_digits_zeros: "nat_of_digits (replicate k (CHR ''0'') @ s) = nat_of_digits s"
  by (induction k) (simp_all add: nat_of_digits_def)

lemma nat_of_digits_show: "nat_of_digits (show_nat n) = n"
proof (induction n rule: less_induct)
  case (less n)
  show ?case
  proof (cases "n < 10")
    case True
    then show ?thesis by (simp add: show_nat_rec [of n] nat_of_digits_def)
  next
    case False
    then have "n div 10 < n" by simp
    from less.IH [OF this] False show ?thesis
      by (simp add: show_nat_rec [of n] nat_of_digits_snoc)
  qed
qed

lemma show_nat_inj [simp]: "show_nat a = show_nat b \<longleftrightarrow> a = b"
  by (metis nat_of_digits_show)

lemma show_nat_of_digits:
  "s \<noteq> [] \<Longrightarrow> \<forall>c \<in> set s. is_digit c \<Longrightarrow> length s > 1 \<longrightarrow> hd s \<noteq> CHR ''0'' \<Longrightarrow> show_nat (nat_of_digits s) = s"
proof (induction s rule: rev_induct)
  case (snoc c s)
  have c: "48 \<le> (of_char c :: nat)" "of_char c \<le> (57 :: nat)" using snoc.prems(2) by (simp_all add: is_digit_iff)
  then have c': "char_of (48 + (of_char c - 48 :: nat)) = c" by simp
  show ?case
  proof (cases "s = []")
    case True
    then show ?thesis using c c' by (simp add: nat_of_digits_def show_nat_rec [of "of_char c - 48"])
  next
    case False
    have lead: "hd s \<noteq> CHR ''0''" using snoc.prems(3) False by (cases s) auto
    have s: "show_nat (nat_of_digits s) = s" using snoc False lead by simp
    have "nat_of_digits s \<noteq> 0"
    proof
      assume "nat_of_digits s = 0"
      moreover have "show_nat 0 = ''0''" by code_simp
      ultimately have "s = ''0''" using s by simp
      with lead show False by simp
    qed
    moreover obtain d :: nat where d: "d < 10" "of_char c - 48 = d" "c = char_of (48 + d)"
      using that [of "of_char c - 48"] c c' by simp
    ultimately show ?thesis
      using s by (simp add: nat_of_digits_snoc show_nat_rec [of "10 * nat_of_digits s + d"])
  qed
qed simp

end
