(* ===== verification/Floats.thy ===== *)
theory Floats
  imports Prelude Complex_Main "HOL-Library.Log_Nat"
begin

text \<open>
  Python floats. A finite \<^verbatim>\<open>float\<close> is the rational it denotes, and every operation
  returns the correctly rounded result: \<open>fl\<close> rounds a rational to 53 significant bits,
  ties to even, as IEEE 754 double precision does. The exponent range is not bounded, so
  overflow to infinity and subnormal results are outside the model. The lemmas are what
  the components need: \<open>fl\<close> is monotone, exact on integers up to \<open>2 ^ 53\<close>, and has
  relative error at most \<open>2 ^ -53\<close>.
\<close>

type_synonym pyfloat = rat

subsection \<open>Rounding\<close>

definition round_half_even :: "rat \<Rightarrow> int" where
  "round_half_even x =
     (let f = \<lfloor>x\<rfloor>; r = x - of_int f
      in if r < 1 / 2 then f else if r > 1 / 2 then f + 1 else if even f then f else f + 1)"

text \<open>The binade of a positive rational: \<open>2 powi e \<le> q < 2 powi (e + 1)\<close>.\<close>

definition binade :: "rat \<Rightarrow> int" where
  "binade q =
     (let (n, d) = quotient_of q; a = bitlen n - bitlen d
      in if 2 powi a \<le> q then a else a - 1)"

definition fl :: "rat \<Rightarrow> pyfloat" where
  "fl q =
     (if q = 0 then 0
      else let u = 2 powi (binade \<bar>q\<bar> - 52) in of_int (round_half_even (q / u)) * u)"

text \<open>\<^verbatim>\<open>n / d\<close> of two integers is the correctly rounded quotient.\<close>

definition true_div :: "int \<Rightarrow> int \<Rightarrow> pyfloat" where
  "true_div n d = fl (of_int n / of_int d)"

subsection \<open>Properties of the rounding\<close>

lemma round_half_even_of_int [simp]: "round_half_even (of_int n) = n"
  by (simp add: round_half_even_def)

lemma round_half_even_error: "\<bar>of_int (round_half_even x) - x\<bar> \<le> 1 / 2"
proof -
  have "of_int \<lfloor>x\<rfloor> \<le> x" and "x < of_int \<lfloor>x\<rfloor> + 1" by linarith+
  then show ?thesis
    by (cases "x - of_int \<lfloor>x\<rfloor>" "1 / 2 :: rat" rule: linorder_cases)
      (auto simp: round_half_even_def Let_def abs_le_iff)
qed

lemma round_half_even_mono: "x \<le> y \<Longrightarrow> round_half_even x \<le> round_half_even y"
proof -
  assume le: "x \<le> y"
  have fl: "\<lfloor>x\<rfloor> \<le> \<lfloor>y\<rfloor>" using le by (rule floor_mono)
  have lo: "\<lfloor>y\<rfloor> \<le> round_half_even y" and hi: "round_half_even x \<le> \<lfloor>x\<rfloor> + 1"
    by (simp_all add: round_half_even_def Let_def)
  show ?thesis
  proof (cases "\<lfloor>x\<rfloor> = \<lfloor>y\<rfloor>")
    case True
    with le show ?thesis by (auto simp: round_half_even_def Let_def)
  next
    case False
    with fl lo hi show ?thesis by linarith
  qed
qed

lemma powi_2_pos [simp]: "(0::rat) < 2 powi e"
  by (simp add: power_int_def)

lemma powi_2_le_iff [simp]: "(2::rat) powi a \<le> 2 powi b \<longleftrightarrow> a \<le> b"
  using power_int_strict_increasing [of a b "2::rat"] power_int_strict_increasing [of b a "2::rat"]
  by (cases a b rule: linorder_cases) auto

lemma powi_2_less_iff [simp]: "(2::rat) powi a < 2 powi b \<longleftrightarrow> a < b"
  using powi_2_le_iff [of b a] by (simp add: not_le [symmetric])

lemma powi_2_add: "(2::rat) powi (a + b) = 2 powi a * 2 powi b"
  by (rule power_int_add) simp

lemma binade_bounds:
  assumes "0 < q"
  shows "2 powi (binade q) \<le> q" and "q < 2 powi (binade q + 1)"
proof -
  obtain n d where nd: "quotient_of q = (n, d)" by (cases "quotient_of q")
  have q: "q = of_int n / of_int d" using quotient_of_div [OF nd] .
  have d: "d > 0" using quotient_of_denom_pos [OF nd] .
  have n: "n > 0" using assms q d by (simp add: zero_less_divide_iff)
  let ?bn = "bitlen n" and ?bd = "bitlen d"
  have bn: "2 powi (?bn - 1) \<le> (of_int n :: rat)" "(of_int n :: rat) < 2 powi ?bn"
    and bd: "2 powi (?bd - 1) \<le> (of_int d :: rat)" "(of_int d :: rat) < 2 powi ?bd"
  proof -
    have gen: "2 powi (bitlen m - 1) \<le> (of_int m :: rat) \<and> (of_int m :: rat) < 2 powi (bitlen m)"
      if m: "m > 0" for m :: int
    proof -
      have b: "2 ^ nat (bitlen m - 1) \<le> m" "m < 2 ^ nat (bitlen m)"
        using bitlen_bounds [OF m] by auto
      have "bitlen m \<ge> 1" using m by (simp add: bitlen_nonneg bitlen_eq_zero_iff int_one_le_iff_zero_less order_less_le)
      with b show ?thesis
        by (simp add: power_int_def)
    qed
    show "2 powi (?bn - 1) \<le> (of_int n :: rat)" "(of_int n :: rat) < 2 powi ?bn"
      "2 powi (?bd - 1) \<le> (of_int d :: rat)" "(of_int d :: rat) < 2 powi ?bd"
      using gen [OF n] gen [OF d] by auto
  qed
  let ?a = "?bn - ?bd"
  have dr: "(0::rat) < of_int d" using d by simp
  have lo: "2 powi (?a - 1) \<le> q"
  proof -
    have "2 powi (?a - 1) * of_int d \<le> (2::rat) powi (?a - 1) * 2 powi ?bd"
      using bd(2) by (intro mult_left_mono) (auto simp: order_less_imp_le)
    also have "\<dots> = 2 powi (?bn - 1)" by (simp flip: powi_2_add)
    also have "\<dots> \<le> of_int n" by (rule bn(1))
    finally show ?thesis using dr by (simp add: q pos_le_divide_eq)
  qed
  have hi: "q < 2 powi (?a + 1)"
  proof -
    have "of_int n < (2::rat) powi ?bn" by (rule bn(2))
    also have "\<dots> = 2 powi (?a + 1) * 2 powi (?bd - 1)" by (simp flip: powi_2_add)
    also have "\<dots> \<le> 2 powi (?a + 1) * of_int d"
      using bd(1) by (intro mult_left_mono) (auto simp: order_less_imp_le)
    finally show ?thesis using dr by (simp add: q pos_divide_less_eq)
  qed
  show "2 powi (binade q) \<le> q" "q < 2 powi (binade q + 1)"
    using lo hi by (auto simp: binade_def nd Let_def)
qed

lemma binade_unique:
  assumes "2 powi e \<le> q" and "q < 2 powi (e + 1)"
  shows "binade q = e"
proof -
  have q: "0 < q" using assms(1) powi_2_pos [of e] by linarith
  have "e < binade q + 1" using assms(1) binade_bounds(2) [OF q]
    by (metis le_less_trans powi_2_less_iff)
  moreover have "binade q < e + 1" using assms(2) binade_bounds(1) [OF q]
    by (metis le_less_trans powi_2_less_iff)
  ultimately show ?thesis by simp
qed

lemma binade_mono: "0 < p \<Longrightarrow> p \<le> q \<Longrightarrow> binade p \<le> binade q"
proof -
  assume p: "0 < p" and le: "p \<le> q"
  have "2 powi (binade p) < (2::rat) powi (binade q + 1)"
    using binade_bounds(1) [OF p] binade_bounds(2) [of q] p le by linarith
  then show ?thesis by simp
qed

lemma fl_0 [simp]: "fl 0 = 0"
  by (simp add: fl_def)

lemma fl_error: "\<bar>fl q - q\<bar> \<le> \<bar>q\<bar> / 2 ^ 53"
proof (cases "q = 0")
  case False
  define e where "e = binade \<bar>q\<bar> - 52"
  let ?u = "2 powi e :: rat"
  have "fl q - q = (of_int (round_half_even (q / ?u)) - q / ?u) * ?u"
    using False by (simp add: fl_def e_def Let_def algebra_simps)
  then have "\<bar>fl q - q\<bar> = \<bar>of_int (round_half_even (q / ?u)) - q / ?u\<bar> * ?u"
    by (simp add: abs_mult order_less_imp_le)
  also have "\<dots> \<le> 1 / 2 * ?u"
    using round_half_even_error by (intro mult_right_mono) (auto simp: order_less_imp_le)
  also have "\<dots> = 2 powi (binade \<bar>q\<bar>) / 2 ^ 53"
  proof -
    have "(2::rat) powi (binade \<bar>q\<bar>) = 2 powi (e + 52)" by (simp add: e_def)
    also have "\<dots> = ?u * 2 ^ 52" by (simp add: powi_2_add)
    finally show ?thesis by simp
  qed
  also have "\<dots> \<le> \<bar>q\<bar> / 2 ^ 53"
    using binade_bounds(1) [of "\<bar>q\<bar>"] False by (intro divide_right_mono) auto
  finally show ?thesis .
qed simp

lemma fl_pos_bounds:
  assumes "0 < q"
  shows "2 powi (binade q) \<le> fl q" and "fl q \<le> 2 powi (binade q + 1)"
proof -
  define e where "e = binade q - 52"
  let ?u = "2 powi e :: rat"
  have u: "(2::rat) powi (binade q) = 2 ^ 52 * ?u" "(2::rat) powi (binade q + 1) = 2 ^ 53 * ?u"
    using powi_2_add [of e 52] powi_2_add [of e 53] by (simp_all add: e_def mult.commute add.commute)
  have fl: "fl q = of_int (round_half_even (q / ?u)) * ?u"
    using assms by (simp add: fl_def e_def Let_def)
  have "of_int (2 ^ 52) \<le> q / ?u"
    using binade_bounds(1) [OF assms] by (simp add: pos_le_divide_eq u)
  then have "2 ^ 52 \<le> round_half_even (q / ?u)"
    using round_half_even_mono [of "of_int (2 ^ 52)"] by (simp only: round_half_even_of_int)
  then have "(2 ^ 52 :: rat) \<le> of_int (round_half_even (q / ?u))"
    by (metis of_int_le_iff of_int_numeral of_int_power)
  then show "2 powi (binade q) \<le> fl q"
    unfolding fl u by (intro mult_right_mono) (auto simp: order_less_imp_le)
  have "q / ?u \<le> of_int (2 ^ 53)"
    using binade_bounds(2) [OF assms] by (simp add: pos_divide_le_eq u)
  then have "round_half_even (q / ?u) \<le> 2 ^ 53"
    using round_half_even_mono [of _ "of_int (2 ^ 53)"] by (simp only: round_half_even_of_int)
  then have "of_int (round_half_even (q / ?u)) \<le> (2 ^ 53 :: rat)"
    by (metis of_int_le_iff of_int_numeral of_int_power)
  then show "fl q \<le> 2 powi (binade q + 1)"
    unfolding fl u by (intro mult_right_mono) (auto simp: order_less_imp_le)
qed

lemma round_half_even_minus [simp]: "round_half_even (- x) = - round_half_even x"
proof -
  let ?f = "\<lfloor>x\<rfloor>" and ?r = "x - of_int \<lfloor>x\<rfloor>"
  have b: "of_int ?f \<le> x" "x < of_int ?f + 1" by linarith+
  show ?thesis
  proof (cases "x = of_int ?f")
    case True
    then have "round_half_even (- x) = - ?f" and "round_half_even x = ?f"
      using round_half_even_of_int [of "- ?f"] round_half_even_of_int [of ?f] by simp_all
    then show ?thesis by simp
  next
    case False
    with b(1) have lt: "of_int ?f < x" by linarith
    then have "\<lfloor>- x\<rfloor> = - ?f - 1" using b(2) by (intro floor_unique) auto
    then show ?thesis
      by (cases ?r "1 / 2 :: rat" rule: linorder_cases) (auto simp: round_half_even_def Let_def)
  qed
qed

lemma fl_minus [simp]: "fl (- q) = - fl q"
  by (simp add: fl_def Let_def)

lemma fl_mono_pos: "0 < p \<Longrightarrow> p \<le> q \<Longrightarrow> fl p \<le> fl q"
proof -
  assume p: "0 < p" and le: "p \<le> q"
  then have q: "0 < q" by linarith
  show ?thesis
  proof (cases "binade p = binade q")
    case True
    let ?u = "2 powi (binade q - 52) :: rat"
    have "round_half_even (p / ?u) \<le> round_half_even (q / ?u)"
      using le by (intro round_half_even_mono divide_right_mono) (auto simp: order_less_imp_le)
    then show ?thesis using p q True by (simp add: fl_def Let_def mult_right_mono order_less_imp_le)
  next
    case False
    then have "binade p + 1 \<le> binade q" using binade_mono [OF p le] by simp
    then have "(2::rat) powi (binade p + 1) \<le> 2 powi (binade q)" by simp
    then show ?thesis using fl_pos_bounds(2) [OF p] fl_pos_bounds(1) [OF q] by linarith
  qed
qed

lemma fl_nonneg: "0 \<le> q \<Longrightarrow> 0 \<le> fl q"
  using fl_pos_bounds(1) [of q] powi_2_pos [of "binade q"]
  by (cases "q = 0") (simp, metis less_le_trans order_less_imp_le order_le_less)

lemma fl_mono: "p \<le> q \<Longrightarrow> fl p \<le> fl q"
proof -
  assume le: "p \<le> q"
  consider "0 < p" | "p \<le> 0" "0 \<le> q" | "q < 0" using le by linarith
  then show ?thesis
  proof cases
    case 1
    then show ?thesis using le by (rule fl_mono_pos)
  next
    case 2
    then show ?thesis using fl_nonneg [of "- p"] fl_nonneg [of q] by simp
  next
    case 3
    then show ?thesis using fl_mono_pos [of "- q" "- p"] le by simp
  qed
qed

lemma fl_of_int_pos: "0 < n \<Longrightarrow> n \<le> 2 ^ 53 \<Longrightarrow> fl (of_int n) = of_int n"
proof -
  assume n: "0 < n" "n \<le> 2 ^ 53"
  show ?thesis
  proof (cases "n = 2 ^ 53")
    case True
    have "binade (2 ^ 53 :: rat) = 53" by (rule binade_unique) (simp_all add: power_int_def)
    then have "fl (2 ^ 53 :: rat) = of_int (round_half_even (of_int (2 ^ 52))) * 2"
      by (simp add: fl_def)
    also have "\<dots> = 2 ^ 53" by (simp only: round_half_even_of_int) simp
    finally show ?thesis by (simp add: True)
  next
    case False
    let ?q = "of_int n :: rat"
    have "?q < 2 powi 53" using n False by (simp add: power_int_def)
    moreover have "2 powi (binade ?q) \<le> ?q" using n by (intro binade_bounds) simp
    ultimately have "2 powi (binade ?q) < (2::rat) powi 53" by (rule le_less_trans [rotated])
    then have b: "binade ?q \<le> 52" by (simp only: powi_2_less_iff)
    define k where "k = nat (52 - binade ?q)"
    have u: "2 powi (binade ?q - 52) = 1 / (2 ^ k :: rat)"
    proof -
      have "binade ?q - 52 = - int k" using b by (simp add: k_def)
      then show ?thesis by (simp only: power_int_minus power_int_of_nat) (simp add: inverse_eq_divide)
    qed
    have "?q / (1 / 2 ^ k) = of_int (n * 2 ^ k)" by simp
    then have r: "round_half_even (?q / (1 / 2 ^ k)) = n * 2 ^ k"
      by (simp only: round_half_even_of_int)
    have "\<bar>?q\<bar> = ?q" "?q \<noteq> 0" using n by simp_all
    then have "fl ?q = of_int (round_half_even (?q / (1 / 2 ^ k))) * (1 / 2 ^ k)"
      by (simp only: fl_def u Let_def if_False)
    also have "\<dots> = ?q" unfolding r by simp
    finally show ?thesis .
  qed
qed

lemma fl_of_int [simp]: "\<bar>n\<bar> \<le> 2 ^ 53 \<Longrightarrow> fl (of_int n) = of_int n"
  using fl_of_int_pos [of n] fl_of_int_pos [of "- n"]
  by (cases "n > 0"; cases "n = 0") (auto simp: abs_le_iff)

subsection \<open>Printing\<close>

text \<open>
  \<^verbatim>\<open>repr(x)\<close> of a float: the shortest decimal that rounds back to \<open>x\<close>, the nearest one of
  that length, in positional notation when the decimal point lies within sixteen digits.
  The fuel of \<open>dec_exp\<close> exceeds the decimal exponents of doubles.
\<close>

fun dec_exp :: "nat \<Rightarrow> rat \<Rightarrow> int" where
  "dec_exp 0 x = 0"
| "dec_exp (Suc n) x = (if x \<ge> 10 then 1 + dec_exp n (x / 10) else if x < 1 then dec_exp n (x * 10) - 1 else 0)"

definition ten_power :: "int \<Rightarrow> rat" where
  "ten_power e = (if e \<ge> 0 then 10 ^ nat e else 1 / 10 ^ nat (- e))"

definition short_digits :: "rat \<Rightarrow> int \<Rightarrow> nat \<Rightarrow> int" where
  "short_digits x e n = round_half_even (x / ten_power (e - int n + 1))"

text \<open>
  Digits and decimal exponent of the shortest representation, of length at most 17. Below a power
  of two the doubles lie closer than above it, so the nearest decimal of a length may miss \<open>x\<close>
  where its neighbour on the other side reads back as \<open>x\<close>.
\<close>

definition other_digits :: "rat \<Rightarrow> int \<Rightarrow> nat \<Rightarrow> int" where
  "other_digits x e n =
     (let d = short_digits x e n in if of_int d * ten_power (e - int n + 1) \<le> x then d + 1 else d - 1)"

fun shortest :: "rat \<Rightarrow> int \<Rightarrow> nat \<Rightarrow> nat \<Rightarrow> int \<times> int" where
  "shortest x e n 0 = (short_digits x e n, e - int n + 1)"
| "shortest x e n (Suc k) =
     (let r = e - int n + 1; d = short_digits x e n; d' = other_digits x e n in
      if fl (of_int d * ten_power r) = x then (d, r)
      else if fl (of_int d' * ten_power r) = x then (d', r)
      else shortest x e (n + 1) k)"

text \<open>One digit rounded up to ten is the digit one of the next decimal exponent.\<close>

definition carry :: "int \<times> int \<Rightarrow> int \<times> int" where
  "carry de = (if fst de = 10 then (1, snd de + 1) else de)"

definition show_float :: "pyfloat \<Rightarrow> string" where
  "show_float x =
     (if x = 0 then ''0.0''
      else
        let (d, e) = carry (shortest \<bar>x\<bar> (dec_exp 400 \<bar>x\<bar>) 1 16);
            ds = show_nat (nat d);
            len = int (length ds);
            decpt = e + len;
            body = (if - 4 < decpt \<and> decpt \<le> 16 then
                      (if decpt \<le> 0 then ''0.'' @ replicate (nat (- decpt)) (CHR ''0'') @ ds
                       else if decpt \<ge> len then ds @ replicate (nat (decpt - len)) (CHR ''0'') @ ''.0''
                       else take (nat decpt) ds @ ''.'' @ drop (nat decpt) ds)
                    else
                      let ex = decpt - 1 in
                      take 1 ds @ (if len > 1 then ''.'' @ drop 1 ds else []) @ ''e'' @
                      (if ex < 0 then ''-'' else ''+'') @ show_pad 2 (nat \<bar>ex\<bar>))
        in (if x < 0 then ''-'' else []) @ body)"

end
