(* ===== verification/PyTime.thy ===== *)
theory PyTime
  imports Prelude
begin

text \<open>
  Python's \<^verbatim>\<open>datetime\<close> and \<^verbatim>\<open>timedelta\<close>. A datetime is the wall-clock reading, in
  microseconds from 1970-01-01 00:00 of its own zone, with its UTC offset, or without one
  when it is naive. Aware datetimes are compared and subtracted as instants; adding a
  timedelta (a number of microseconds) moves the wall clock and keeps the zone. The year
  range 1..9999 and its \<^verbatim>\<open>OverflowError\<close> are not modelled. The calendar fields are
  those of the proleptic Gregorian calendar, as \<^verbatim>\<open>isoformat\<close> and \<^verbatim>\<open>str\<close> print them.
\<close>

datatype datetime = DateTime (wall: int) (utcoff: "int option")

type_synonym timedelta = int

abbreviation seconds :: "int \<Rightarrow> timedelta" where "seconds n \<equiv> n * 1000000"

definition aware :: "datetime \<Rightarrow> bool" where "aware d \<longleftrightarrow> utcoff d \<noteq> None"

definition instant :: "datetime \<Rightarrow> int" where
  "instant d = wall d - (case utcoff d of None \<Rightarrow> 0 | Some z \<Rightarrow> z)"

text \<open>A datetime in UTC is determined by its instant.\<close>

definition UTC :: "int \<Rightarrow> datetime" where "UTC t = DateTime t (Some 0)"

definition dt_add :: "datetime \<Rightarrow> timedelta \<Rightarrow> datetime" where
  "dt_add d t = DateTime (wall d + t) (utcoff d)"

lemma instant_UTC [simp]: "instant (UTC t) = t"
  by (simp add: instant_def UTC_def)

lemma aware_UTC [simp]: "aware (UTC t)"
  by (simp add: aware_def UTC_def)

lemma UTC_inject [simp]: "UTC a = UTC b \<longleftrightarrow> a = b"
  by (simp add: UTC_def)

lemma instant_dt_add [simp]: "instant (dt_add d t) = instant d + t"
  by (simp add: instant_def dt_add_def)

lemma aware_dt_add [simp]: "aware (dt_add d t) = aware d"
  by (simp add: aware_def dt_add_def)

lemma dt_add_UTC [simp]: "dt_add (UTC t) s = UTC (t + s)"
  by (simp add: dt_add_def UTC_def)

lemma dt_add_0 [simp]: "dt_add d 0 = d"
  by (cases d) (simp add: dt_add_def)

text \<open>\<^verbatim>\<open>datetime.min.replace(tzinfo=UTC)\<close>: 0001-01-01 00:00:00, 719162 days before the epoch.\<close>

definition datetime_min_utc :: datetime where
  "datetime_min_utc = UTC (- 719162 * 86400 * 1000000)"

text \<open>\<^verbatim>\<open>max(a, b)\<close> on aware datetimes keeps its first argument on a tie.\<close>

definition dt_max :: "datetime \<Rightarrow> datetime \<Rightarrow> datetime" where
  "dt_max a b = (if instant b > instant a then b else a)"

lemma instant_dt_max [simp]: "instant (dt_max a b) = max (instant a) (instant b)"
  by (auto simp: dt_max_def)

lemma aware_dt_max [simp]: "aware a \<Longrightarrow> aware b \<Longrightarrow> aware (dt_max a b)"
  by (simp add: dt_max_def)

subsection \<open>Calendar fields\<close>

definition civil_from_days :: "int \<Rightarrow> int \<times> int \<times> int" where
  "civil_from_days n =
     (let z = n + 719468; era = z div 146097; doe = z mod 146097;
          yoe = (doe - doe div 1460 + doe div 36524 - doe div 146096) div 365;
          doy = doe - (365 * yoe + yoe div 4 - yoe div 100);
          mp = (5 * doy + 2) div 153;
          d = doy - (153 * mp + 2) div 5 + 1;
          m = (if mp < 10 then mp + 3 else mp - 9);
          y = yoe + era * 400
      in (if m \<le> 2 then y + 1 else y, m, d))"

definition day_micros :: int where "day_micros = 86400 * 1000000"

definition year :: "datetime \<Rightarrow> int" where
  "year d = fst (civil_from_days (wall d div day_micros))"
definition month :: "datetime \<Rightarrow> int" where
  "month d = fst (snd (civil_from_days (wall d div day_micros)))"
definition day :: "datetime \<Rightarrow> int" where
  "day d = snd (snd (civil_from_days (wall d div day_micros)))"
definition hour :: "datetime \<Rightarrow> int" where
  "hour d = wall d mod day_micros div 3600000000"
definition minute :: "datetime \<Rightarrow> int" where
  "minute d = wall d mod 3600000000 div 60000000"
definition second :: "datetime \<Rightarrow> int" where
  "second d = wall d mod 60000000 div 1000000"
definition microsecond :: "datetime \<Rightarrow> int" where
  "microsecond d = wall d mod 1000000"

definition show2 :: "int \<Rightarrow> string" where "show2 n = show_pad 2 (nat n)"

definition show_offset :: "int \<Rightarrow> string" where
  "show_offset z =
     (let a = \<bar>z\<bar>; s = a mod 60000000 div 1000000; u = a mod 1000000 in
      (if z < 0 then ''-'' else ''+'') @ show2 (a div 3600000000) @ '':'' @
      show2 (a mod 3600000000 div 60000000) @
      (if s \<noteq> 0 \<or> u \<noteq> 0 then '':'' @ show2 s else []) @
      (if u \<noteq> 0 then ''.'' @ show_pad 6 (nat u) else []))"

definition isoformat_sep :: "string \<Rightarrow> datetime \<Rightarrow> string" where
  "isoformat_sep sep d =
     show_pad 4 (nat (year d)) @ ''-'' @ show2 (month d) @ ''-'' @ show2 (day d) @ sep @
     show2 (hour d) @ '':'' @ show2 (minute d) @ '':'' @ show2 (second d) @
     (if microsecond d \<noteq> 0 then ''.'' @ show_pad 6 (nat (microsecond d)) else []) @
     (case utcoff d of None \<Rightarrow> [] | Some z \<Rightarrow> show_offset z)"

definition isoformat :: "datetime \<Rightarrow> string" where "isoformat d = isoformat_sep ''T'' d"
definition str_datetime :: "datetime \<Rightarrow> string" where "str_datetime d = isoformat_sep '' '' d"

lemma hour_range: "0 \<le> hour d \<and> hour d < 24"
proof -
  let ?m = "wall d mod 86400000000"
  have "0 \<le> ?m" "?m < 86400000000" by simp_all
  then have "0 \<le> ?m div 3600000000" "?m div 3600000000 < 24" by linarith+
  then show ?thesis by (simp add: hour_def day_micros_def)
qed

end
