(* ===== verification/Identity.thy ===== *)
theory Identity
  imports PyTime "HOL-Library.Word"
begin

text \<open>
  UUIDs and the derivation of stable identities:
  \<^verbatim>\<open>event_schema_contracts/base/identity.py\<close> over the standard library's \<^verbatim>\<open>uuid\<close>
  module. A UUID is its 128-bit integer; \<open>uuid5\<close> is SHA-1 of the namespace's bytes and
  the name, truncated, with the version and variant bits set. \<^verbatim>\<open>str(UUID)\<close> and
  \<^verbatim>\<open>UUID(str)\<close> are the canonical hexadecimal form.
\<close>

unbundle bit_operations_syntax

subsection \<open>SHA-1\<close>

type_synonym uuid = "128 word"

definition str_bytes :: "string \<Rightarrow> int list" where "str_bytes s = map of_char s"

fun be_bytes :: "nat \<Rightarrow> int \<Rightarrow> int list" where
  "be_bytes 0 n = []"
| "be_bytes (Suc k) n = be_bytes k (n div 256) @ [n mod 256]"

definition of_be_bytes :: "int list \<Rightarrow> int" where
  "of_be_bytes bs = foldl (\<lambda>n b. 256 * n + b) 0 bs"

definition sha1_pad :: "int list \<Rightarrow> int list" where
  "sha1_pad bs =
     (let m = bs @ [128]
      in m @ replicate ((120 - length m mod 64) mod 64) 0 @ be_bytes 8 (8 * int (length bs)))"

fun chunks_of :: "nat \<Rightarrow> nat \<Rightarrow> 'a list \<Rightarrow> 'a list list" where
  "chunks_of 0 n xs = []"
| "chunks_of (Suc k) n xs = take n xs # chunks_of k n (drop n xs)"

text \<open>The message schedule, newest word first.\<close>

fun sha1_expand :: "nat \<Rightarrow> 32 word list \<Rightarrow> 32 word list" where
  "sha1_expand 0 ws = ws"
| "sha1_expand (Suc k) ws =
     sha1_expand k (word_rotl 1 (ws ! 2 XOR ws ! 7 XOR ws ! 13 XOR ws ! 15) # ws)"

type_synonym sha1_state = "32 word \<times> 32 word \<times> 32 word \<times> 32 word \<times> 32 word"

definition sha1_round :: "nat \<Rightarrow> 32 word \<Rightarrow> sha1_state \<Rightarrow> sha1_state" where
  "sha1_round t w st =
     (case st of (a, b, c, d, e) \<Rightarrow>
       let (f, k) =
         (if t < 20 then ((b AND c) OR (NOT b AND d), 0x5A827999)
          else if t < 40 then (b XOR c XOR d, 0x6ED9EBA1)
          else if t < 60 then ((b AND c) OR (b AND d) OR (c AND d), 0x8F1BBCDC)
          else (b XOR c XOR d, 0xCA62C1D6))
       in (word_rotl 5 a + f + e + k + w, a, word_rotl 30 b, c, d))"

fun sha1_rounds :: "nat \<Rightarrow> 32 word list \<Rightarrow> sha1_state \<Rightarrow> sha1_state" where
  "sha1_rounds t [] st = st"
| "sha1_rounds t (w # ws) st = sha1_rounds (Suc t) ws (sha1_round t w st)"

definition sha1_block :: "sha1_state \<Rightarrow> int list \<Rightarrow> sha1_state" where
  "sha1_block h bs =
     (let ws = map (\<lambda>c. of_int (of_be_bytes c)) (chunks_of 16 4 bs)
      in case (h, sha1_rounds 0 (rev (sha1_expand 64 (rev ws))) h) of
           ((a, b, c, d, e), (a', b', c', d', e')) \<Rightarrow> (a + a', b + b', c + c', d + d', e + e'))"

definition sha1 :: "int list \<Rightarrow> int list" where
  "sha1 bs =
     (let m = sha1_pad bs
      in case foldl sha1_block (0x67452301, 0xEFCDAB89, 0x98BADCFE, 0x10325476, 0xC3D2E1F0)
                (chunks_of (length m div 64) 64 m) of
           (a, b, c, d, e) \<Rightarrow> concat (map (\<lambda>x. be_bytes 4 (uint x)) [a, b, c, d, e]))"

subsection \<open>UUIDs\<close>

definition uuid5 :: "uuid \<Rightarrow> string \<Rightarrow> uuid" where
  "uuid5 ns name =
     (let raw = of_int (of_be_bytes (take 16 (sha1 (be_bytes 16 (uint ns) @ str_bytes name))));
          v = (raw AND NOT (push_bit 48 0xC000)) OR push_bit 48 0x8000
      in (v AND NOT (push_bit 64 0xF000)) OR push_bit 76 5)"

text \<open>\<^verbatim>\<open>UUID.version\<close>: defined for the RFC 4122 variant only.\<close>

definition uuid_version :: "uuid \<Rightarrow> nat option" where
  "uuid_version u = (if bit u 63 \<and> \<not> bit u 62 then Some (unat (drop_bit 76 u AND 15)) else None)"

definition hex_char :: "int \<Rightarrow> char" where
  "hex_char n = char_of (if n < 10 then 48 + n else 87 + n)"

definition hex_val :: "char \<Rightarrow> int option" where
  "hex_val c =
     (let n = of_char c in
      if 48 \<le> n \<and> n \<le> 57 then Some (n - 48)
      else if 97 \<le> n \<and> n \<le> 102 then Some (n - 87)
      else if 65 \<le> n \<and> n \<le> 70 then Some (n - 55) else None)"

fun hex_digits :: "nat \<Rightarrow> int \<Rightarrow> string" where
  "hex_digits 0 n = []"
| "hex_digits (Suc k) n = hex_digits k (n div 16) @ [hex_char (n mod 16)]"

fun hex_value :: "int \<Rightarrow> string \<Rightarrow> int option" where
  "hex_value acc [] = Some acc"
| "hex_value acc (c # cs) = (case hex_val c of None \<Rightarrow> None | Some v \<Rightarrow> hex_value (16 * acc + v) cs)"

definition str_uuid :: "uuid \<Rightarrow> string" where
  "str_uuid u =
     (let h = hex_digits 32 (uint u)
      in take 8 h @ ''-'' @ take 4 (drop 8 h) @ ''-'' @ take 4 (drop 12 h) @ ''-'' @
         take 4 (drop 16 h) @ ''-'' @ drop 20 h)"

text \<open>\<^verbatim>\<open>UUID(s)\<close> ignores the dashes; the brace and URN spellings are not modelled.\<close>

definition uuid_of_str :: "string \<Rightarrow> uuid res" where
  "uuid_of_str s =
     (let h = filter (\<lambda>c. c \<noteq> CHR ''-'') s in
      if length h \<noteq> 32 then Inl (ValueError ''badly formed hexadecimal UUID string'')
      else case hex_value 0 h of
        None \<Rightarrow> Inl (ValueError ''invalid literal for int() with base 16'')
      | Some n \<Rightarrow> Inr (of_int n))"

subsection \<open>Derivation\<close>

definition NAMESPACE_DNS :: uuid where "NAMESPACE_DNS = 0x6ba7b8109dad11d180b400c04fd430c8"

definition NAMESPACE :: uuid where "NAMESPACE = uuid5 NAMESPACE_DNS ''signalforge.analytics''"

definition SEP :: char where "SEP = CHR ''|''"

definition DEVICE_ROLE :: string where "DEVICE_ROLE = ''device''"

text \<open>
  The parts arrive already passed through \<^verbatim>\<open>str\<close>: \<open>str_uuid\<close> of a UUID,
  \<open>str_datetime\<close> of a datetime, a string as it is.
\<close>

definition derive_name :: "string \<Rightarrow> string list \<Rightarrow> string" where
  "derive_name role parts = join_with SEP (role # parts)"

definition derive :: "string \<Rightarrow> string list \<Rightarrow> uuid" where
  "derive role parts = uuid5 NAMESPACE (derive_name role parts)"

definition derive_device_id :: "string \<Rightarrow> string \<Rightarrow> uuid" where
  "derive_device_id store_id device_label = derive DEVICE_ROLE [store_id, device_label]"

subsection \<open>The version policy\<close>

text \<open>
  \<^verbatim>\<open>UUIDv4Model.validate_uuid_fields\<close> for a field that holds a UUID or \<^verbatim>\<open>None\<close>:
  \<open>policy\<close> is the tuple of allowed versions the field name selects.
\<close>

definition allowed_versions :: "string list \<Rightarrow> string list \<Rightarrow> string \<Rightarrow> nat list option" where
  "allowed_versions v4_fields v4_or_v5_fields name =
     (if name \<in> set v4_fields then Some [4]
      else if name \<in> set v4_or_v5_fields then Some [4, 5] else None)"

definition expected_versions :: "nat list \<Rightarrow> string" where
  "expected_versions vs = (if vs = [4] then ''UUIDv4'' else ''UUIDv4 or UUIDv5'')"

definition validate_uuid_field ::
  "string list \<Rightarrow> string list \<Rightarrow> string \<Rightarrow> uuid option \<Rightarrow> uuid option res" where
  "validate_uuid_field v4_fields v4_or_v5_fields name value =
     (case allowed_versions v4_fields v4_or_v5_fields name of
        None \<Rightarrow> Inr value
      | Some allowed \<Rightarrow>
          (case value of
             None \<Rightarrow> Inr None
           | Some u \<Rightarrow>
               (if uuid_version u \<notin> Some ` set allowed
                then Inl (ValueError (name @ '' must be '' @ expected_versions allowed))
                else Inr (Some u))))"

definition validate_uuid_seq_field ::
  "string list \<Rightarrow> string list \<Rightarrow> string \<Rightarrow> uuid list \<Rightarrow> uuid list res" where
  "validate_uuid_seq_field v4_fields v4_or_v5_fields name us =
     (case allowed_versions v4_fields v4_or_v5_fields name of
        None \<Rightarrow> Inr us
      | Some allowed \<Rightarrow>
          (if (\<exists>u \<in> set us. uuid_version u \<notin> Some ` set allowed)
           then Inl (ValueError (name @ '' must contain '' @ expected_versions allowed @ '' values only''))
           else Inr us))"

subsection \<open>Version bits\<close>

lemma mask4_128: "(15 :: 128 word) = mask 4"
  by (simp add: mask_eq_exp_minus_1)

lemma uuid5_version: "uuid_version (uuid5 ns n) = Some 5"
proof -
  obtain raw where r: "uuid5 ns n =
      ((raw AND NOT (push_bit 48 0xC000)) OR push_bit 48 0x8000) AND NOT (push_bit 64 0xF000)
        OR push_bit 76 5"
    by (metis uuid5_def)
  have b: "bit (uuid5 ns n) 63" "\<not> bit (uuid5 ns n) 62"
    unfolding r by (simp_all add: bit_simps)
  have "bit (drop_bit 76 (uuid5 ns n) AND 15) k = bit (5 :: 128 word) k" if "k < 128" for k
  proof (cases "k < 4")
    case True
    then consider "k = 0" | "k = 1" | "k = 2" | "k = 3" by linarith
    then show ?thesis unfolding r by cases (simp_all add: bit_simps)
  next
    case False
    have "5 = (mask 4 :: 128 word) AND 5" by (simp add: mask_eq_exp_minus_1)
    then have "bit (5 :: 128 word) k \<longleftrightarrow> bit ((mask 4 :: 128 word) AND 5) k" by simp
    then show ?thesis using False unfolding mask4_128 by (simp only: bit_and_iff bit_mask_iff) simp
  qed
  then have "drop_bit 76 (uuid5 ns n) AND 15 = 5"
    by (intro bit_word_eqI) simp
  then show ?thesis using b by (simp add: uuid_version_def)
qed

lemma derive_version [simp]: "uuid_version (derive role parts) = Some 5"
  by (simp add: derive_def uuid5_version)

text \<open>
  Every derived identity carries version 5, so the version policy accepts it on a
  field that allows derived ids and refuses it on a field that must be random.
\<close>

theorem derive_policy:
  "validate_uuid_field v4 v45 name (Some (derive role parts)) =
     (if name \<in> set v4 then Inl (ValueError (name @ '' must be UUIDv4''))
      else Inr (Some (derive role parts)))"
  by (simp add: validate_uuid_field_def allowed_versions_def expected_versions_def)

subsection \<open>The textual form\<close>

lemma hex_digits_length [simp]: "length (hex_digits k n) = k"
  by (induction k arbitrary: n) auto

lemma hex_val_char: "0 \<le> n \<Longrightarrow> n < 16 \<Longrightarrow> hex_val (hex_char n) = Some n"
  by (auto simp: hex_val_def hex_char_def Let_def of_char_of)

lemma hex_char_not_dash: "0 \<le> n \<Longrightarrow> n < 16 \<Longrightarrow> hex_char n \<noteq> CHR ''-''"
proof
  assume "0 \<le> n" "n < 16" "hex_char n = CHR ''-''"
  then have "hex_val (CHR ''-'') = Some n" using hex_val_char by metis
  then show False by (simp add: hex_val_def)
qed

lemma hex_digits_no_dash: "CHR ''-'' \<notin> set (hex_digits k n)"
  by (induction k arbitrary: n) (auto simp: hex_char_not_dash [THEN not_sym])

lemma hex_value_snoc:
  "hex_value acc (cs @ [c]) =
     (case hex_value acc cs of None \<Rightarrow> None
      | Some a \<Rightarrow> (case hex_val c of None \<Rightarrow> None | Some v \<Rightarrow> Some (16 * a + v)))"
  by (induction cs arbitrary: acc) (auto split: option.split)

lemma hex_value_digits: "0 \<le> n \<Longrightarrow> n < 16 ^ k \<Longrightarrow> hex_value 0 (hex_digits k n) = Some n"
proof (induction k arbitrary: n)
  case (Suc k)
  then have "n div 16 < 16 ^ k" by simp
  with Suc show ?case by (simp add: hex_value_snoc hex_val_char)
qed simp

lemma rejoin_groups:
  "take 8 h @ take 4 (drop 8 h) @ take 4 (drop 12 h) @ take 4 (drop 16 h) @ drop 20 h = h"
proof -
  have "take 4 (drop 16 h) @ drop 20 h = drop 16 h"
    using append_take_drop_id [of 4 "drop 16 h"] by simp
  moreover have "take 4 (drop 12 h) @ drop 16 h = drop 12 h"
    using append_take_drop_id [of 4 "drop 12 h"] by simp
  moreover have "take 4 (drop 8 h) @ drop 12 h = drop 8 h"
    using append_take_drop_id [of 4 "drop 8 h"] by simp
  ultimately show ?thesis by simp
qed

lemma filter_dashed:
  assumes "CHR ''-'' \<notin> set h"
  shows "filter (\<lambda>c. c \<noteq> CHR ''-'')
      (take 8 h @ ''-'' @ take 4 (drop 8 h) @ ''-'' @ take 4 (drop 12 h) @ ''-'' @
       take 4 (drop 16 h) @ ''-'' @ drop 20 h) = h"
proof -
  have nd: "filter (\<lambda>c. c \<noteq> CHR ''-'') xs = xs" if "set xs \<subseteq> set h" for xs
    using that assms by (intro filter_True) auto
  have sub: "set (take a (drop b h)) \<subseteq> set h" "set (take a h) \<subseteq> set h" "set (drop b h) \<subseteq> set h" for a b
    by (meson set_take_subset set_drop_subset order_trans)+
  show ?thesis by (simp add: nd sub rejoin_groups)
qed

lemma uuid_of_str_str: "uuid_of_str (str_uuid u) = Inr u"
proof -
  have b: "0 \<le> uint u" "uint u < 16 ^ 32"
    using uint_lt2p [of u] by simp_all
  have "filter (\<lambda>c. c \<noteq> CHR ''-'') (str_uuid u) = hex_digits 32 (uint u)"
    unfolding str_uuid_def Let_def by (rule filter_dashed [OF hex_digits_no_dash])
  moreover have "hex_value 0 (hex_digits 32 (uint u)) = Some (uint u)"
    by (rule hex_value_digits [OF b])
  moreover have "length (hex_digits 32 (uint u)) = 32" by (rule hex_digits_length)
  ultimately show ?thesis
    by (simp only: uuid_of_str_def Let_def) simp
qed

lemma str_uuid_inj: "str_uuid a = str_uuid b \<longleftrightarrow> a = b"
  by (metis uuid_of_str_str sum.inject(2))

text \<open>
  Parsing the canonical text of a UUID gives the UUID back, so the trace identifiers
  that windows carry as strings lose nothing.
\<close>

lemma uuid_roundtrip: "uuid_of_str (str_uuid u) = Inr u \<and> (str_uuid u = str_uuid v \<longleftrightarrow> u = v)"
  by (simp add: uuid_of_str_str str_uuid_inj)

subsection \<open>Names\<close>

text \<open>
  The name hashed into an identity determines its role and its parts, as long as
  no part contains the separator. Two records of different roles, or with different
  coordinates, are never given the same name.
\<close>

theorem derive_name_injective:
  assumes "\<forall>s \<in> set (r # ps). SEP \<notin> set s" and "\<forall>s \<in> set (r' # ps'). SEP \<notin> set s"
  shows "derive_name r ps = derive_name r' ps' \<longleftrightarrow> r = r' \<and> ps = ps'"
  using join_with_inj [of SEP "r # ps" "r' # ps'"] assms by (auto simp: derive_name_def)

theorem derive_name_injective_witness:
  "derive_name ''device'' [''store-1'', ''headset-12''] \<noteq> derive_name ''device'' [''store-11'', ''headset-2'']"
  using derive_name_injective [of "''device''" "[''store-1'', ''headset-12'']" "''device''"
      "[''store-11'', ''headset-2'']"]
  by (simp add: SEP_def)

end
