(* ===== verification/Values.thy ===== *)
theory Values
  imports Floats Identity
begin

text \<open>
  Dynamically typed Python values: payload attributes, window values, the open
  \<^verbatim>\<open>details\<close> maps of the event contracts. A payload object is its class name and its
  attributes.
\<close>

datatype pyval =
    PyNone
  | PyBool bool
  | PyInt int
  | PyFloat pyfloat
  | PyStr string
  | PyUUID uuid
  | PyDT datetime
  | PyList "pyval list"
  | PyDict "(string \<times> pyval) list"
  | PyObj string "(string \<times> pyval) list"

text \<open>\<^verbatim>\<open>type(v).__name__\<close>\<close>

fun type_name :: "pyval \<Rightarrow> string" where
  "type_name PyNone = ''NoneType''"
| "type_name (PyBool b) = ''bool''"
| "type_name (PyInt i) = ''int''"
| "type_name (PyFloat x) = ''float''"
| "type_name (PyStr s) = ''str''"
| "type_name (PyUUID u) = ''UUID''"
| "type_name (PyDT d) = ''datetime''"
| "type_name (PyList vs) = ''list''"
| "type_name (PyDict kvs) = ''dict''"
| "type_name (PyObj cls as) = cls"

text \<open>
  \<^verbatim>\<open>isinstance(v, (int, float))\<close> holds of booleans too, \<^verbatim>\<open>bool\<close> being a subclass of
  \<^verbatim>\<open>int\<close>; \<open>to_float\<close> is \<^verbatim>\<open>float(v)\<close> on such a value.
\<close>

fun to_float :: "pyval \<Rightarrow> pyfloat option" where
  "to_float (PyBool b) = Some (if b then 1 else 0)"
| "to_float (PyInt i) = Some (fl (of_int i))"
| "to_float (PyFloat x) = Some x"
| "to_float _ = None"

text \<open>\<^verbatim>\<open>getattr(v, name)\<close> where the object has the attribute.\<close>

fun get_attr :: "pyval \<Rightarrow> string \<Rightarrow> pyval option" where
  "get_attr (PyObj cls as) name = dict_get as name"
| "get_attr _ name = None"

end
