(* ===== verification/Versioning.thy ===== *)
theory Versioning
  imports Values
begin

text \<open>
  \<^verbatim>\<open>event_schema_contracts/versioning\<close>: schema versions, their order, forward
  compatibility, and the registry that resolves an event type and version to a schema
  class. The registry is its dictionary; a schema class is opaque here.
\<close>

subsection \<open>Versions\<close>

datatype schema_version = SchemaVersion (major: nat) (minor: nat) (patch: nat)

text \<open>The order a frozen, ordered dataclass derives: lexicographic in field order.\<close>

instantiation schema_version :: linorder
begin

definition less_eq_schema_version :: "schema_version \<Rightarrow> schema_version \<Rightarrow> bool" where
  "less_eq_schema_version a b \<longleftrightarrow>
     major a < major b \<or> major a = major b \<and>
       (minor a < minor b \<or> minor a = minor b \<and> patch a \<le> patch b)"

definition less_schema_version :: "schema_version \<Rightarrow> schema_version \<Rightarrow> bool" where
  "less_schema_version a b \<longleftrightarrow> a \<le> b \<and> \<not> b \<le> (a :: schema_version)"

instance
  by standard (auto simp: less_eq_schema_version_def less_schema_version_def intro: schema_version.expand)

end

definition check_component :: "string \<Rightarrow> string \<Rightarrow> unit res" where
  "check_component version p =
     (if p = [] \<or> \<not> list_all is_digit p then Inl (ValueError (''Invalid schema version: '' @ version))
      else if length p > 1 \<and> starts_with ''0'' p
        then Inl (ValueError (''Invalid schema version (leading zero): '' @ version))
      else Inr ())"

definition parse_version :: "string \<Rightarrow> schema_version res" where
  "parse_version version =
     (if \<not> starts_with ''v'' version then Inl (ValueError (''Invalid schema version: '' @ version))
      else let numeric = drop 1 version in
        if numeric = [] then Inl (ValueError (''Invalid schema version: '' @ version))
        else let parts = split_on (CHR ''.'') numeric in
          if [] \<in> set parts then Inl (ValueError (''Invalid schema version: '' @ version))
          else if length parts > 3 then Inl (ValueError (''Unsupported schema format: '' @ version))
          else bind_res (map_res (check_component version) parts) (\<lambda>_.
            case map nat_of_digits parts of
              [a] \<Rightarrow> Inr (SchemaVersion a 0 0)
            | [a, b] \<Rightarrow> Inr (SchemaVersion a b 0)
            | a # b # c # _ \<Rightarrow> Inr (SchemaVersion a b c)))"

definition ensure_compatibility :: "string \<Rightarrow> string \<Rightarrow> unit res" where
  "ensure_compatibility source_version target_version =
     bind_res (parse_version source_version) (\<lambda>source.
     bind_res (parse_version target_version) (\<lambda>target.
       if major source \<noteq> major target
         then Inl (ValueError (''Incompatible schema versions: '' @ source_version @ '' -> '' @ target_version))
       else if target < source
         then Inl (ValueError (''Backward upgrade not allowed: '' @ source_version @ '' -> '' @ target_version))
       else Inr ()))"

subsection \<open>Smallest and largest by key\<close>

text \<open>\<^verbatim>\<open>min\<close> and \<^verbatim>\<open>max\<close> with a key return the first of the extreme elements.\<close>

fun min_by :: "('a \<Rightarrow> 'k :: linorder) \<Rightarrow> 'a \<Rightarrow> 'a list \<Rightarrow> 'a" where
  "min_by f m [] = m"
| "min_by f m (x # xs) = min_by f (if f x < f m then x else m) xs"

fun max_by :: "('a \<Rightarrow> 'k :: linorder) \<Rightarrow> 'a \<Rightarrow> 'a list \<Rightarrow> 'a" where
  "max_by f m [] = m"
| "max_by f m (x # xs) = max_by f (if f m < f x then x else m) xs"

lemma min_by_in: "min_by f m xs \<in> set (m # xs)"
  by (induction f m xs rule: min_by.induct) (auto split: if_splits)

lemma min_by_le: "y \<in> set (m # xs) \<Longrightarrow> f (min_by f m xs) \<le> f y"
proof (induction xs arbitrary: m y)
  case (Cons x xs)
  let ?m = "if f x < f m then x else m"
  have "f (min_by f ?m xs) \<le> f ?m" using Cons.IH [of ?m ?m] by simp
  moreover have "f ?m \<le> f m" "f ?m \<le> f x" by auto
  ultimately show ?case using Cons.IH [of y ?m] Cons.prems by fastforce
qed simp

lemma max_by_in: "max_by f m xs \<in> set (m # xs)"
  by (induction f m xs rule: max_by.induct) (auto split: if_splits)

lemma max_by_ge: "y \<in> set (m # xs) \<Longrightarrow> f y \<le> f (max_by f m xs)"
proof (induction xs arbitrary: m y)
  case (Cons x xs)
  let ?m = "if f m < f x then x else m"
  have "f ?m \<le> f (max_by f ?m xs)" using Cons.IH [of ?m ?m] by simp
  moreover have "f m \<le> f ?m" "f x \<le> f ?m" by auto
  ultimately show ?case using Cons.IH [of y ?m] Cons.prems by fastforce
qed simp

subsection \<open>Registry\<close>

type_synonym schema_key = "string \<times> string"
type_synonym 'c schema_registry = "(schema_key, 'c) dict"

definition is_registered :: "'c schema_registry \<Rightarrow> string \<Rightarrow> string \<Rightarrow> bool" where
  "is_registered reg event_type schema_version \<longleftrightarrow> dict_get reg (event_type, schema_version) \<noteq> None"

definition schema_register ::
  "'c schema_registry \<Rightarrow> string \<Rightarrow> string \<Rightarrow> 'c \<Rightarrow> 'c schema_registry \<times> unit res" where
  "schema_register reg event_type schema_version schema =
     (if dict_get reg (event_type, schema_version) \<noteq> None
      then (reg, Inl (ValueError (''Schema already registered for '' @ event_type @ '' '' @ schema_version)))
      else (dict_set (event_type, schema_version) schema reg, Inr ()))"

text \<open>The loop over the registered keys that collects the compatible versions.\<close>

fun compatible_loop ::
  "string \<Rightarrow> string \<Rightarrow> schema_version \<Rightarrow> schema_key list \<Rightarrow> (schema_version \<times> string) list res" where
  "compatible_loop event_type wanted requested [] = Inr []"
| "compatible_loop event_type wanted requested ((etype, version) # ks) =
     (if etype \<noteq> event_type then compatible_loop event_type wanted requested ks
      else bind_res (parse_version version) (\<lambda>candidate.
        if major candidate \<noteq> major requested then compatible_loop event_type wanted requested ks
        else case ensure_compatibility wanted version of
            Inl e \<Rightarrow> if exn_type e = ''ValueError'' then compatible_loop event_type wanted requested ks else Inl e
          | Inr _ \<Rightarrow>
              if candidate \<ge> requested
              then bind_res (compatible_loop event_type wanted requested ks) (\<lambda>cs. Inr ((candidate, version) # cs))
              else compatible_loop event_type wanted requested ks))"

definition get_schema :: "'c schema_registry \<Rightarrow> string \<Rightarrow> string \<Rightarrow> 'c res" where
  "get_schema reg event_type schema_version =
     (case dict_get reg (event_type, schema_version) of
        Some schema \<Rightarrow> Inr schema
      | None \<Rightarrow>
          bind_res (parse_version schema_version) (\<lambda>requested.
          bind_res (compatible_loop event_type schema_version requested (dict_keys reg)) (\<lambda>compatible_versions.
            case compatible_versions of
              [] \<Rightarrow> Inl (KeyError (''No compatible schema registered for '' @ event_type @ '' '' @ schema_version))
            | c # cs \<Rightarrow>
                (case dict_get reg (event_type, snd (min_by fst c cs)) of
                   None \<Rightarrow> Inl (KeyError event_type)
                 | Some schema \<Rightarrow> Inr schema))))"

text \<open>
  Ingestion-time validation of a raw event. \<open>model_validate\<close> stands for the pydantic
  validation of a class; its failure is the exception class \<^verbatim>\<open>ValidationError\<close>. A
  value is falsy when it is empty, zero or none.
\<close>

fun truthy :: "pyval \<Rightarrow> bool" where
  "truthy PyNone = False"
| "truthy (PyBool b) = b"
| "truthy (PyInt i) = (i \<noteq> 0)"
| "truthy (PyFloat x) = (x \<noteq> 0)"
| "truthy (PyStr s) = (s \<noteq> [])"
| "truthy (PyList vs) = (vs \<noteq> [])"
| "truthy (PyDict kvs) = (kvs \<noteq> [])"
| "truthy _ = True"

definition dict_item :: "(string \<times> pyval) list \<Rightarrow> string \<Rightarrow> pyval" where
  "dict_item kvs k = dict_get_default kvs k PyNone"

text \<open>
  \<^verbatim>\<open>get_schema\<close> on truthy values that are not both strings: a list or a dictionary cannot
  be part of a key, a version that is not a string has no \<^verbatim>\<open>startswith\<close>, and an event
  type that is not a string matches no registered one. The last message is abbreviated.
\<close>

definition non_string_key :: "pyval \<Rightarrow> pyval \<Rightarrow> 'c res" where
  "non_string_key et sv =
     (if type_name et \<in> {''list'', ''dict''} then Inl (TypeError (''unhashable type: '' @ type_name et))
      else if type_name sv \<in> {''list'', ''dict''} then Inl (TypeError (''unhashable type: '' @ type_name sv))
      else case sv of
          PyStr version \<Rightarrow>
            bind_res (parse_version version) (\<lambda>_. Inl (KeyError (''No compatible schema registered for '' @ type_name et)))
        | _ \<Rightarrow> Inl (AttributeError (type_name sv @ '' object has no attribute startswith'')))"

definition schema_validate ::
  "('c \<Rightarrow> pyval \<Rightarrow> 'e res) \<Rightarrow> 'c schema_registry \<Rightarrow> pyval \<Rightarrow> 'e res" where
  "schema_validate model_validate reg event =
     (case event of
        PyDict kvs \<Rightarrow>
          (case dict_item kvs ''metadata'' of
             PyDict metadata \<Rightarrow>
               (let et = dict_item metadata ''event_type''; sv = dict_item metadata ''schema_version'' in
                if \<not> truthy et \<or> \<not> truthy sv
                then Inl (ValueError ''Event missing metadata.event_type or metadata.schema_version fields'')
                else case (et, sv) of
                    (PyStr event_type, PyStr schema_version) \<Rightarrow>
                      bind_res (get_schema reg event_type schema_version) (\<lambda>schema.
                        case model_validate schema event of
                          Inr ev \<Rightarrow> Inr ev
                        | Inl e \<Rightarrow>
                            if exn_type e = ''ValidationError''
                            then Inl (ValueError (''Schema validation failed for '' @ event_type @ '' '' @ schema_version))
                            else Inl e)
                  | _ \<Rightarrow> non_string_key et sv)
           | _ \<Rightarrow> Inl (ValueError ''Event metadata must be a dictionary''))
      | _ \<Rightarrow> Inl (ValueError ''Event must be a dictionary''))"

definition list_versions :: "'c schema_registry \<Rightarrow> string \<Rightarrow> string list" where
  "list_versions reg event_type = sort [version. (etype, version) \<leftarrow> dict_keys reg, etype = event_type]"

definition list_registered :: "'c schema_registry \<Rightarrow> 'c schema_registry" where
  "list_registered reg = reg"

subsection \<open>Version strings\<close>

lemma starts_with_char: "starts_with [c] s \<longleftrightarrow> s \<noteq> [] \<and> hd s = c"
  by (cases s) (auto simp: starts_with_def)

definition component_ok :: "string \<Rightarrow> bool" where
  "component_ok p \<longleftrightarrow> p \<noteq> [] \<and> list_all is_digit p \<and> (length p > 1 \<longrightarrow> hd p \<noteq> CHR ''0'')"

lemma check_component_ok: "check_component v p = Inr u \<longleftrightarrow> component_ok p"
  by (auto simp: check_component_def component_ok_def starts_with_char)

lemma check_components_ok: "(\<exists>us. map_res (check_component v) ps = Inr us) \<longleftrightarrow> list_all component_ok ps"
proof (induction ps)
  case (Cons p ps)
  show ?case
  proof (cases "component_ok p")
    case True
    then have "check_component v p = Inr ()" by (simp add: check_component_ok)
    then show ?thesis using True Cons.IH by auto
  next
    case False
    then have "check_component v p \<noteq> Inr u" for u by (simp add: check_component_ok)
    then show ?thesis using False by auto
  qed
qed simp

lemma component_show [simp]: "component_ok (show_nat n)"
  using show_nat_digits [of n] show_nat_leading [of n] by (simp add: component_ok_def list_all_iff)

lemma component_ok_iff: "component_ok p \<longleftrightarrow> p = show_nat (nat_of_digits p)"
proof
  assume "component_ok p"
  then show "p = show_nat (nat_of_digits p)"
    using show_nat_of_digits [of p] by (simp add: component_ok_def list_all_iff)
qed (metis component_show)

lemma dot_not_digit: "is_digit c \<Longrightarrow> c \<noteq> CHR ''.''"
  by (auto simp: is_digit_def less_eq_char_def)

fun version_of :: "nat list \<Rightarrow> schema_version" where
  "version_of [] = SchemaVersion 0 0 0"
| "version_of [a] = SchemaVersion a 0 0"
| "version_of [a, b] = SchemaVersion a b 0"
| "version_of (a # b # c # _) = SchemaVersion a b c"

lemma parse_version_split:
  "parse_version (CHR ''v'' # s) = Inr v \<longleftrightarrow>
     (let ps = split_on (CHR ''.'') s in
      length ps \<le> 3 \<and> list_all component_ok ps \<and> v = version_of (map nat_of_digits ps))"
proof (cases "s = []")
  case True
  then show ?thesis by (simp add: parse_version_def starts_with_char component_ok_def)
next
  case False
  let ?ps = "split_on (CHR ''.'') s"
  have ne: "list_all component_ok ?ps \<Longrightarrow> [] \<notin> set ?ps" by (auto simp: list_all_iff component_ok_def)
  have tail: "(case map nat_of_digits ?ps of [a] \<Rightarrow> Inr (SchemaVersion a 0 0) | [a, b] \<Rightarrow> Inr (SchemaVersion a b 0)
      | a # b # c # _ \<Rightarrow> Inr (SchemaVersion a b c)) = (Inr (version_of (map nat_of_digits ?ps)) :: schema_version res)"
    by (cases "map nat_of_digits ?ps" rule: version_of.cases) auto
  show ?thesis
    using False ne check_components_ok [of "CHR ''v'' # s" ?ps]
    by (auto simp: parse_version_def starts_with_char Let_def tail)
qed

definition show_version :: "nat list \<Rightarrow> string" where
  "show_version ns = CHR ''v'' # join_with (CHR ''.'') (map show_nat ns)"

lemma split_show_version: "ns \<noteq> [] \<Longrightarrow> split_on (CHR ''.'') (join_with (CHR ''.'') (map show_nat ns)) = map show_nat ns"
  using show_nat_digits dot_not_digit by (intro split_join) auto

lemma parse_version_exact_iff:
  "parse_version s = Inr v \<longleftrightarrow>
     (\<exists>ns. ns \<noteq> [] \<and> length ns \<le> 3 \<and> s = show_version ns \<and> v = version_of ns)"
proof
  assume p: "parse_version s = Inr v"
  then obtain t where t: "s = CHR ''v'' # t"
    by (cases s) (auto simp: parse_version_def starts_with_char split: if_splits)
  let ?ps = "split_on (CHR ''.'') t"
  have ps: "length ?ps \<le> 3" "list_all component_ok ?ps" "v = version_of (map nat_of_digits ?ps)"
    using p unfolding t parse_version_split Let_def by simp_all
  have "map show_nat (map nat_of_digits ?ps) = ?ps"
    using ps(2) component_ok_iff by (auto simp: list_all_iff intro!: map_idI)
  then have "s = show_version (map nat_of_digits ?ps)"
    using join_split [of "CHR ''.''" t] by (simp add: t show_version_def del: map_map)
  then show "\<exists>ns. ns \<noteq> [] \<and> length ns \<le> 3 \<and> s = show_version ns \<and> v = version_of ns"
    using ps by (intro exI [of _ "map nat_of_digits ?ps"]) simp
next
  assume "\<exists>ns. ns \<noteq> [] \<and> length ns \<le> 3 \<and> s = show_version ns \<and> v = version_of ns"
  then obtain ns where ns: "ns \<noteq> []" "length ns \<le> 3" "s = show_version ns" "v = version_of ns" by blast
  then show "parse_version s = Inr v"
    by (simp add: show_version_def parse_version_split split_show_version comp_def nat_of_digits_show list_all_iff)
qed

text \<open>
  The accepted version strings are exactly the canonical ones: a \<^verbatim>\<open>v\<close> followed by one
  to three decimal numbers without leading zeros, separated by dots; the missing
  components of the result are zero. No other string parses, and a string parses to at
  most one version.
\<close>

theorem parse_version_exact:
  "parse_version s = Inr v \<longleftrightarrow>
     (\<exists>ns. ns \<noteq> [] \<and> length ns \<le> 3 \<and> s = show_version ns \<and> v = version_of ns)"
  by (rule parse_version_exact_iff)

lemma ensure_compatibility_iff:
  "ensure_compatibility a b = Inr u \<longleftrightarrow>
     (\<exists>x y. parse_version a = Inr x \<and> parse_version b = Inr y \<and> major x = major y \<and> x \<le> y)"
  by (auto simp: ensure_compatibility_def not_less)

text \<open>
  Compatibility is a partial order on the versions of one major: it holds of a version
  with itself, composes, and does not hold both ways between different versions.
\<close>

theorem compatibility_order:
  "(parse_version a = Inr x \<longrightarrow> ensure_compatibility a a = Inr ()) \<and>
   (ensure_compatibility a b = Inr () \<and> ensure_compatibility b c = Inr () \<longrightarrow> ensure_compatibility a c = Inr ()) \<and>
   (ensure_compatibility a b = Inr () \<and> ensure_compatibility b a = Inr () \<longrightarrow> parse_version a = parse_version b)"
  by (auto simp: ensure_compatibility_iff)

theorem compatibility_order_witness:
  "ensure_compatibility ''v1'' ''v1'' = Inr () \<and> ensure_compatibility ''v1'' ''v1.10'' = Inr ()"
proof -
  have "parse_version ''v1'' = Inr (SchemaVersion 1 0 0)" "ensure_compatibility ''v1'' ''v1.2'' = Inr ()"
      "ensure_compatibility ''v1.2'' ''v1.10'' = Inr ()" by code_simp+
  then show ?thesis using compatibility_order [of "''v1''" "SchemaVersion 1 0 0" "''v1.2''" "''v1.10''"] by blast
qed

subsection \<open>Resolution\<close>

definition registered_parse :: "'c schema_registry \<Rightarrow> string \<Rightarrow> bool" where
  "registered_parse reg et \<longleftrightarrow> (\<forall>v. (et, v) \<in> set (dict_keys reg) \<longrightarrow> (\<exists>x. parse_version v = Inr x))"

definition compatible :: "schema_version \<Rightarrow> schema_version \<Rightarrow> bool" where
  "compatible req cand \<longleftrightarrow> major cand = major req \<and> req \<le> cand"

lemma compatible_loop_spec:
  assumes "parse_version w = Inr req" and "\<forall>v. (et, v) \<in> set ks \<longrightarrow> (\<exists>x. parse_version v = Inr x)"
  shows "\<exists>cs. compatible_loop et w req ks = Inr cs \<and>
     (\<forall>x v. (x, v) \<in> set cs \<longleftrightarrow> (et, v) \<in> set ks \<and> parse_version v = Inr x \<and> compatible req x)"
  using assms(2)
proof (induction ks)
  case (Cons k ks)
  obtain e v where k: "k = (e, v)" by (cases k)
  obtain cs where cs: "compatible_loop et w req ks = Inr cs"
      "\<forall>x v. (x, v) \<in> set cs \<longleftrightarrow> (et, v) \<in> set ks \<and> parse_version v = Inr x \<and> compatible req x"
    using Cons by auto
  show ?case
  proof (cases "e = et")
    case True
    then obtain x where x: "parse_version v = Inr x" using Cons.prems k by auto
    have "ensure_compatibility w v = Inr () \<longleftrightarrow> compatible req x"
      by (auto simp: ensure_compatibility_iff assms(1) x compatible_def)
    moreover have "\<exists>m. ensure_compatibility w v = Inl (ValueError m)" if "\<not> compatible req x"
      using that by (auto simp: ensure_compatibility_def assms(1) x compatible_def)
    ultimately show ?thesis
      using cs x True by (cases "compatible req x") (auto simp: k compatible_def)
  qed (use cs in \<open>auto simp: k\<close>)
qed simp

text \<open>
  C31: the registry resolves to the tightest forward-compatible schema: the exact version
  when it is registered; otherwise the schema of the lowest registered version of the same
  event type and major that is not older than the requested one; and a \<^verbatim>\<open>KeyError\<close>
  exactly when there is none.
\<close>

theorem get_schema_lowest_compatible:
  assumes reg: "dict_ok reg" "registered_parse reg et" and w: "parse_version w = Inr req"
  shows "case get_schema reg et w of
       Inr c \<Rightarrow> (\<exists>v x. dict_get reg (et, v) = Some c \<and> parse_version v = Inr x \<and> compatible req x \<and>
                  (is_registered reg et w \<longrightarrow> v = w) \<and>
                  (\<forall>v' x'. is_registered reg et v' \<and> parse_version v' = Inr x' \<and> compatible req x' \<longrightarrow> x \<le> x'))
     | Inl e \<Rightarrow> exn_type e = ''KeyError'' \<and>
                (\<forall>v x. is_registered reg et v \<and> parse_version v = Inr x \<longrightarrow> \<not> compatible req x)"
proof (cases "dict_get reg (et, w)")
  case (Some c)
  then show ?thesis
    using w by (auto simp: get_schema_def is_registered_def compatible_def intro!: exI [of _ w])
next
  case None
  obtain cs where cs: "compatible_loop et w req (dict_keys reg) = Inr cs"
      "\<And>x v. (x, v) \<in> set cs \<longleftrightarrow> (et, v) \<in> set (dict_keys reg) \<and> parse_version v = Inr x \<and> compatible req x"
    using compatible_loop_spec [OF w] reg(2) unfolding registered_parse_def by blast
  have key: "is_registered reg et v \<longleftrightarrow> (et, v) \<in> set (dict_keys reg)" for v
    unfolding is_registered_def by (metis dict_get_None_iff)
  show ?thesis
  proof (cases cs)
    case Nil
    then show ?thesis using None w cs by (auto simp: get_schema_def key)
  next
    case (Cons d ds)
    obtain x v where xv: "min_by fst d ds = (x, v)" by fastforce
    have "(x, v) \<in> set cs" using min_by_in [of fst d ds] xv Cons by simp
    then have r: "(et, v) \<in> set (dict_keys reg)" "parse_version v = Inr x" "compatible req x"
      by (simp_all add: cs(2))
    obtain c where c: "dict_get reg (et, v) = Some c"
      using r(1) by (metis dict_get_None_iff not_None_eq)
    have "x \<le> x'" if "is_registered reg et v'" "parse_version v' = Inr x'" "compatible req x'" for v' x'
      using min_by_le [of "(x', v')" d ds fst] that Cons cs(2) xv key by simp
    moreover have "get_schema reg et w = Inr c" using None w cs(1) Cons xv c by (simp add: get_schema_def)
    moreover have "\<not> is_registered reg et w" using None by (simp add: is_registered_def)
    ultimately show ?thesis using c r by auto
  qed
qed

theorem get_schema_lowest_compatible_witness:
  "get_schema [((''a.b'', ''v1.2''), 12 :: nat), ((''a.b'', ''v1.10''), 110), ((''a.b'', ''v2''), 20)] ''a.b'' ''v1.1'' = Inr 12 \<and>
   (\<nexists>v' x'. is_registered [((''a.b'', ''v1.2''), 12 :: nat), ((''a.b'', ''v1.10''), 110), ((''a.b'', ''v2''), 20)] ''a.b'' v' \<and>
      parse_version v' = Inr x' \<and> compatible (SchemaVersion 1 1 0) x' \<and> x' < SchemaVersion 1 2 0)"
proof -
  let ?r = "[((''a.b'', ''v1.2''), 12 :: nat), ((''a.b'', ''v1.10''), 110), ((''a.b'', ''v2''), 20)]"
  have pv: "parse_version ''v1.2'' = Inr (SchemaVersion 1 2 0)" "parse_version ''v1.10'' = Inr (SchemaVersion 1 10 0)"
     "parse_version ''v2'' = Inr (SchemaVersion 2 0 0)" by code_simp+
  then have ok: "registered_parse ?r ''a.b''" by (auto simp: registered_parse_def)
  have g: "get_schema ?r ''a.b'' ''v1.1'' = Inr 12" by code_simp
  have "parse_version ''v1.1'' = Inr (SchemaVersion 1 1 0)" by code_simp
  from get_schema_lowest_compatible [OF _ ok this] g pv show ?thesis by (force split: if_splits)
qed

end
