(* ===== verification/Contracts.thy ===== *)
theory Contracts
  imports Versioning
begin

text \<open>
  \<^verbatim>\<open>event_schema_contracts\<close>: the event envelope, its metadata and trace context, the
  payload contracts and the checks that construct them. The constructors take values of
  the declared Python types (a UUID, a datetime, an enumeration member) and return the
  frozen object or the \<^verbatim>\<open>ValidationError\<close>; its message is abbreviated to the first field
  that fails. Values drawn by a default factory (\<^verbatim>\<open>uuid4\<close>, the clock) are arguments.
\<close>

subsection \<open>Patterns\<close>

definition word_ok :: "string \<Rightarrow> bool" where
  "word_ok p \<longleftrightarrow> p \<noteq> [] \<and> list_all (\<lambda>c. is_lower c \<or> is_digit c) p"

definition digits_ok :: "string \<Rightarrow> bool" where
  "digits_ok p \<longleftrightarrow> p \<noteq> [] \<and> list_all is_digit p"

text \<open>
  \<^verbatim>\<open>re.match\<close> with a pattern that ends in \<^verbatim>\<open>$\<close> also accepts a newline after the match;
  the patterns pydantic checks itself do not.
\<close>

definition chop_newline :: "string \<Rightarrow> string" where
  "chop_newline s = (if s \<noteq> [] \<and> last s = CHR 0x0A then butlast s else s)"

definition v_dotted :: "string \<Rightarrow> bool" where
  "v_dotted s \<longleftrightarrow> starts_with ''v'' s \<and> list_all digits_ok (split_on (CHR ''.'') (drop 1 s))"

definition dotted_words :: "string \<Rightarrow> bool" where
  "dotted_words s \<longleftrightarrow> (let ps = split_on (CHR ''.'') s in length ps \<ge> 2 \<and> list_all word_ok ps)"

definition sep_words :: "string \<Rightarrow> bool" where
  "sep_words s \<longleftrightarrow>
     list_all word_ok (split_on (CHR ''.'') (map (\<lambda>c. if c = CHR ''-'' \<or> c = CHR ''_'' then CHR ''.'' else c) s))"

definition SEMVER_PATTERN :: "string \<Rightarrow> bool" where "SEMVER_PATTERN s = v_dotted (chop_newline s)"
definition EVENT_TYPE_PATTERN :: "string \<Rightarrow> bool" where "EVENT_TYPE_PATTERN s = dotted_words (chop_newline s)"
definition SOURCE_PATTERN :: "string \<Rightarrow> bool" where "SOURCE_PATTERN s = sep_words (chop_newline s)"

text \<open>The strict semantic-version pattern of \<^verbatim>\<open>SemVerModel\<close>.\<close>

definition ident_ok :: "string \<Rightarrow> bool" where
  "ident_ok p \<longleftrightarrow> p \<noteq> [] \<and> list_all (\<lambda>c. is_digit c \<or> is_lower c \<or> is_upper c \<or> c = CHR ''-'') p"

definition before_char :: "char \<Rightarrow> string \<Rightarrow> string" where "before_char c s = takeWhile (\<lambda>x. x \<noteq> c) s"
definition after_char :: "char \<Rightarrow> string \<Rightarrow> string option" where
  "after_char c s = (case dropWhile (\<lambda>x. x \<noteq> c) s of [] \<Rightarrow> None | _ # t \<Rightarrow> Some t)"

definition opt_idents :: "string option \<Rightarrow> bool" where
  "opt_idents t = (case t of None \<Rightarrow> True | Some s \<Rightarrow> list_all ident_ok (split_on (CHR ''.'') s))"

definition strict_semver :: "string \<Rightarrow> bool" where
  "strict_semver s0 =
     (let s = chop_newline s0; body = before_char (CHR ''+'') s; core = before_char (CHR ''-'') body;
          nums = split_on (CHR ''.'') core
      in length nums = 3 \<and> list_all (\<lambda>p. digits_ok p \<and> (length p > 1 \<longrightarrow> hd p \<noteq> CHR ''0'')) nums \<and>
         opt_idents (after_char (CHR ''-'') body) \<and> opt_idents (after_char (CHR ''+'') s))"

definition client_version_ok :: "string \<Rightarrow> bool" where
  "client_version_ok s =
     (let core = takeWhile (\<lambda>c. c \<noteq> CHR ''-'' \<and> c \<noteq> CHR ''+'') s; rest = drop (length core) s;
          nums = split_on (CHR ''.'') core
      in length nums = 3 \<and> list_all digits_ok nums \<and>
         (rest \<noteq> [] \<longrightarrow> length rest > 1 \<and>
            list_all (\<lambda>c. is_digit c \<or> is_lower c \<or> is_upper c \<or> c = CHR ''.'') (tl rest)))"

subsection \<open>Field checks\<close>

abbreviation ValidationError :: "string \<Rightarrow> exn" where "ValidationError m \<equiv> Exn ''ValidationError'' m"

fun check_all :: "(bool \<times> string) list \<Rightarrow> unit res" where
  "check_all [] = Inr ()"
| "check_all ((ok, msg) # cs) = (if ok then check_all cs else Inl (ValidationError msg))"

lemma check_all_Inr [simp]: "check_all cs = Inr u \<longleftrightarrow> list_all fst cs"
  by (induction cs rule: check_all.induct) auto

lemma check_all_Inl: "check_all cs = Inl e \<Longrightarrow> \<exists>m. e = ValidationError m"
  by (induction cs rule: check_all.induct) (auto split: if_splits)

text \<open>\<^verbatim>\<open>UTCTimestampModel.validate_utc_fields\<close> on a nominated field.\<close>

definition utc_ok :: "datetime \<Rightarrow> bool" where "utc_ok d \<longleftrightarrow> utcoff d = Some 0"

definition utc_checks :: "string \<Rightarrow> datetime \<Rightarrow> (bool \<times> string) list" where
  "utc_checks name d =
     [(aware d, name @ '' must be timezone-aware''), (utc_ok d, name @ '' must be UTC'')]"

text \<open>\<^verbatim>\<open>UUIDv4Model.validate_uuid_fields\<close> on one field of a payload class.\<close>

definition uuid_check :: "string list \<Rightarrow> string list \<Rightarrow> string \<Rightarrow> uuid \<Rightarrow> bool \<times> string" where
  "uuid_check v4 v4or5 name u =
     (case validate_uuid_field v4 v4or5 name (Some u) of Inr _ \<Rightarrow> (True, []) | Inl e \<Rightarrow> (False, exn_msg e))"

lemma utc_ok_aware: "utc_ok d \<Longrightarrow> aware d"
  by (simp add: utc_ok_def aware_def)

lemma utc_ok_UTC [simp]: "utc_ok (UTC t)"
  by (simp add: utc_ok_def UTC_def)

subsection \<open>Metadata and trace\<close>

record event_metadata =
  md_schema_version :: string
  md_event_type :: string
  md_source :: string

definition event_metadata_init :: "string \<Rightarrow> string \<Rightarrow> string \<Rightarrow> event_metadata res" where
  "event_metadata_init schema_version event_type source =
     bind_res (check_all
       [(SEMVER_PATTERN schema_version, ''schema_version must match pattern v<major>[.<minor>...]''),
        (EVENT_TYPE_PATTERN event_type, ''event_type must match pattern <domain>.<action>[.<subaction>...]''),
        (SOURCE_PATTERN source, ''source must match pattern [a-z0-9]+'')])
     (\<lambda>_. Inr \<lparr>md_schema_version = schema_version, md_event_type = event_type, md_source = source\<rparr>)"

datatype pipeline_stage = INGESTION | VALIDATION | ENRICHMENT | FEATURE_BUILDING | EXPORT | INFERENCE

fun stage_value :: "pipeline_stage \<Rightarrow> string" where
  "stage_value INGESTION = ''ingestion''"
| "stage_value VALIDATION = ''validation''"
| "stage_value ENRICHMENT = ''enrichment''"
| "stage_value FEATURE_BUILDING = ''feature_building''"
| "stage_value EXPORT = ''export''"
| "stage_value INFERENCE = ''inference''"

record trace_context =
  tc_trace_id :: uuid
  tc_root_trace_id :: "uuid option"
  tc_pipeline_stage :: pipeline_stage

text \<open>\<open>fresh\<close> is the value of \<^verbatim>\<open>uuid4()\<close>, drawn when no trace id is supplied.\<close>

definition trace_context_init ::
  "uuid \<Rightarrow> uuid option \<Rightarrow> uuid option \<Rightarrow> pipeline_stage \<Rightarrow> trace_context" where
  "trace_context_init fresh trace_id root_trace_id stage =
     \<lparr>tc_trace_id = (case trace_id of None \<Rightarrow> fresh | Some t \<Rightarrow> t),
      tc_root_trace_id = (case root_trace_id of None \<Rightarrow> trace_id | Some r \<Rightarrow> Some r),
      tc_pipeline_stage = stage\<rparr>"

subsection \<open>The envelope\<close>

record 'p base_event =
  ev_event_id :: uuid
  ev_metadata :: event_metadata
  ev_trace :: trace_context
  ev_event_timestamp :: datetime
  ev_ingest_timestamp :: datetime
  ev_payload :: 'p

definition MAX_CLOCK_SKEW :: timedelta where "MAX_CLOCK_SKEW = seconds (5 * 60)"

text \<open>The class attributes of a concrete schema.\<close>

record schema_class =
  sc_event_type :: string
  sc_schema_version :: string

definition inject_metadata :: "schema_class \<Rightarrow> event_metadata option \<Rightarrow> event_metadata res" where
  "inject_metadata cls metadata =
     (case metadata of
        Some m \<Rightarrow> Inr m
      | None \<Rightarrow> event_metadata_init (sc_schema_version cls) (sc_event_type cls) ''unknown'')"

definition base_event_init ::
  "schema_class \<Rightarrow> uuid \<Rightarrow> event_metadata option \<Rightarrow> trace_context \<Rightarrow> datetime \<Rightarrow> datetime \<Rightarrow> 'p \<Rightarrow>
     'p base_event res" where
  "base_event_init cls event_id metadata trace event_timestamp ingest_timestamp payload =
     bind_res (inject_metadata cls metadata) (\<lambda>md.
     bind_res (check_all
       [(aware event_timestamp, ''event_timestamp must be timezone aware''),
        (aware ingest_timestamp, ''ingest_timestamp must be timezone aware''),
        (instant event_timestamp \<le> instant ingest_timestamp + MAX_CLOCK_SKEW,
         ''event_timestamp is too far in the future relative to ingest_timestamp''),
        (md_event_type md = sc_event_type cls, ''metadata.event_type mismatch''),
        (md_schema_version md = sc_schema_version cls, ''metadata.schema_version mismatch'')])
     (\<lambda>_. Inr \<lparr>ev_event_id = event_id, ev_metadata = md, ev_trace = trace, ev_event_timestamp = event_timestamp,
               ev_ingest_timestamp = ingest_timestamp, ev_payload = payload\<rparr>))"

text \<open>
  \<^verbatim>\<open>BaseEvent.__init_subclass__\<close>: what defining a subclass does to the global registry.
  An identity the class body does not declare is \<open>None\<close>.
\<close>

definition init_subclass ::
  "'c schema_registry \<Rightarrow> string \<Rightarrow> string option \<Rightarrow> string option \<Rightarrow> bool \<Rightarrow> 'c \<Rightarrow>
     'c schema_registry \<times> unit res" where
  "init_subclass reg name event_type schema_version has_payload cls =
     (if name = ''BaseEvent'' \<or> starts_with ''BaseEvent['' name then (reg, Inr ())
      else case event_type of
          None \<Rightarrow> (reg, Inl (TypeError (name @ '' missing __event_type__'')))
        | Some et \<Rightarrow>
            (case schema_version of
               None \<Rightarrow> (reg, Inl (TypeError (name @ '' missing __schema_version__'')))
             | Some sv \<Rightarrow>
                 (if \<not> has_payload
                  then (reg, Inl (TypeError (name @ '' must specify payload type BaseEvent[Payload]'')))
                  else case schema_register reg et sv cls of
                      (reg', Inr _) \<Rightarrow> (reg', Inr ())
                    | (reg', Inl e) \<Rightarrow>
                        (reg', Inl (TypeError (name @ '' duplicates schema identity '' @ et @ '' '' @ sv))))))"

subsection \<open>Detections\<close>

datatype detection_severity = INFO | WARNING | CRITICAL

fun severity_value :: "detection_severity \<Rightarrow> string" where
  "severity_value INFO = ''INFO''"
| "severity_value WARNING = ''WARNING''"
| "severity_value CRITICAL = ''CRITICAL''"

record detection_payload =
  dp_detection_id :: uuid
  dp_detection_type :: string
  dp_severity :: detection_severity
  dp_detected_at :: datetime
  dp_store_id :: string
  dp_device_id :: "uuid option"
  dp_source_event_id :: uuid
  dp_threshold_breached :: string
  dp_details :: "(string \<times> pyval) list"

definition detection_v4or5_fields :: "string list" where
  "detection_v4or5_fields = [''detection_id'', ''source_event_id'']"

definition detection_payload_init :: "detection_payload \<Rightarrow> detection_payload res" where
  "detection_payload_init p =
     bind_res (check_all
       ([uuid_check [] detection_v4or5_fields ''detection_id'' (dp_detection_id p),
         (dp_detection_type p \<noteq> [], ''detection_type min_length''),
         (dotted_words (dp_detection_type p), ''detection_type pattern'')] @
        utc_checks ''detected_at'' (dp_detected_at p) @
        [(dp_store_id p \<noteq> [], ''store_id min_length''),
         uuid_check [] detection_v4or5_fields ''source_event_id'' (dp_source_event_id p),
         (dp_threshold_breached p \<noteq> [], ''threshold_breached min_length'')]))
     (\<lambda>_. Inr p)"

definition DetectionEvent :: schema_class where
  "DetectionEvent = \<lparr>sc_event_type = ''detection.event'', sc_schema_version = ''v1''\<rparr>"

type_synonym detection_event = "detection_payload base_event"

subsection \<open>Alerts\<close>

record alert_payload =
  al_alert_id :: uuid
  al_detection_id :: uuid
  al_detection_type :: string
  al_severity :: detection_severity
  al_routed_at :: datetime
  al_store_id :: string
  al_device_id :: "uuid option"
  al_summary :: string
  al_details :: "(string \<times> pyval) list"

definition alert_v4or5_fields :: "string list" where
  "alert_v4or5_fields = [''alert_id'', ''detection_id'']"

definition alert_payload_init :: "alert_payload \<Rightarrow> alert_payload res" where
  "alert_payload_init p =
     bind_res (check_all
       ([uuid_check [] alert_v4or5_fields ''alert_id'' (al_alert_id p),
         uuid_check [] alert_v4or5_fields ''detection_id'' (al_detection_id p),
         (al_detection_type p \<noteq> [], ''detection_type min_length''),
         (dotted_words (al_detection_type p), ''detection_type pattern'')] @
        utc_checks ''routed_at'' (al_routed_at p) @
        [(al_store_id p \<noteq> [], ''store_id min_length''),
         (al_summary p \<noteq> [], ''summary min_length'')]))
     (\<lambda>_. Inr p)"

definition AlertEvent :: schema_class where
  "AlertEvent = \<lparr>sc_event_type = ''alert.event'', sc_schema_version = ''v1''\<rparr>"

type_synonym alert_event = "alert_payload base_event"

record ack_payload =
  ak_acknowledgement_id :: uuid
  ak_alert_id :: uuid
  ak_acknowledged_at :: datetime
  ak_acknowledged_by :: string
  ak_note :: "string option"

definition ack_payload_init :: "ack_payload \<Rightarrow> ack_payload res" where
  "ack_payload_init p =
     bind_res (check_all
       ([uuid_check [''acknowledgement_id''] [''alert_id''] ''acknowledgement_id'' (ak_acknowledgement_id p),
         uuid_check [''acknowledgement_id''] [''alert_id''] ''alert_id'' (ak_alert_id p)] @
        utc_checks ''acknowledged_at'' (ak_acknowledged_at p) @
        [(ak_acknowledged_by p \<noteq> [], ''acknowledged_by min_length'')]))
     (\<lambda>_. Inr p)"

definition AlertAcknowledgementEvent :: schema_class where
  "AlertAcknowledgementEvent = \<lparr>sc_event_type = ''alert.acknowledgement'', sc_schema_version = ''v1''\<rparr>"

subsection \<open>Features\<close>

text \<open>A feature value is a number, a boolean or a string.\<close>

fun feature_value_ok :: "pyval \<Rightarrow> bool" where
  "feature_value_ok (PyInt i) = True"
| "feature_value_ok (PyFloat x) = True"
| "feature_value_ok (PyBool b) = True"
| "feature_value_ok (PyStr s) = True"
| "feature_value_ok _ = False"

record windowed_feature_payload =
  wf_partition_key :: string
  wf_window_start :: datetime
  wf_window_end :: datetime
  wf_feature_values :: "(string \<times> pyval) list"
  wf_feature_version :: string

definition windowed_feature_payload_init :: "windowed_feature_payload \<Rightarrow> windowed_feature_payload res" where
  "windowed_feature_payload_init p =
     bind_res (check_all
       ([(wf_partition_key p \<noteq> [], ''partition_key min_length''),
         (sep_words (wf_partition_key p), ''partition_key pattern'')] @
        utc_checks ''window_start'' (wf_window_start p) @
        utc_checks ''window_end'' (wf_window_end p) @
        [(list_all (feature_value_ok \<circ> snd) (wf_feature_values p), ''feature_values''),
         (v_dotted (wf_feature_version p), ''feature_version pattern'')]))
     (\<lambda>_. Inr p)"

definition WindowedFeatureVectorEvent :: schema_class where
  "WindowedFeatureVectorEvent = \<lparr>sc_event_type = ''feature.vector.windowed'', sc_schema_version = ''v1''\<rparr>"

type_synonym feature_event = "windowed_feature_payload base_event"

record feature_vector_payload =
  fv_entity_id :: uuid
  fv_feature_timestamp :: datetime
  fv_feature_values :: "(string \<times> pyval) list"
  fv_feature_version :: string
  fv_source_event_id :: uuid

definition feature_vector_payload_init :: "feature_vector_payload \<Rightarrow> feature_vector_payload res" where
  "feature_vector_payload_init p =
     bind_res (check_all
       ([uuid_check [''entity_id'', ''source_event_id''] [] ''entity_id'' (fv_entity_id p)] @
        utc_checks ''feature_timestamp'' (fv_feature_timestamp p) @
        [(list_all (feature_value_ok \<circ> snd) (fv_feature_values p), ''feature_values''),
         (v_dotted (fv_feature_version p), ''feature_version pattern''),
         uuid_check [''entity_id'', ''source_event_id''] [] ''source_event_id'' (fv_source_event_id p)]))
     (\<lambda>_. Inr p)"

definition FeatureVectorEvent :: schema_class where
  "FeatureVectorEvent = \<lparr>sc_event_type = ''feature.vector'', sc_schema_version = ''v1''\<rparr>"

subsection \<open>Telemetry payloads\<close>

text \<open>Internet addresses are opaque strings: the standard library has parsed them.\<close>

datatype registration_status = REGISTERED

datatype transport_protocol = TCP | UDP | TLS

record sip_registration_payload =
  sr_device_id :: uuid
  sr_device_label :: string
  sr_store_id :: string
  sr_registration_status :: registration_status
  sr_observed_at :: datetime
  sr_transport_protocol :: "transport_protocol option"
  sr_source_ip :: "string option"
  sr_registration_call_id :: "string option"

definition sip_registration_payload_init :: "sip_registration_payload \<Rightarrow> sip_registration_payload res" where
  "sip_registration_payload_init p =
     bind_res (check_all
       ([uuid_check [] [''device_id''] ''device_id'' (sr_device_id p),
         (1 \<le> length (sr_device_label p), ''device_label min_length''),
         (length (sr_device_label p) \<le> 128, ''device_label max_length''),
         (sr_store_id p \<noteq> [] \<and> sep_words (sr_store_id p), ''store_id pattern'')] @
        utc_checks ''observed_at'' (sr_observed_at p) @
        [(case sr_registration_call_id p of None \<Rightarrow> True | Some c \<Rightarrow> length c \<le> 256, ''registration_call_id max_length'')]))
     (\<lambda>_. Inr p)"

definition SipRegistrationEvent :: schema_class where
  "SipRegistrationEvent = \<lparr>sc_event_type = ''sip.registration'', sc_schema_version = ''v1''\<rparr>"

datatype connection_direction = INBOUND | OUTBOUND

record network_connection_payload =
  nc_connection_id :: uuid
  nc_source_ip :: string
  nc_source_port :: "int option"
  nc_destination_ip :: string
  nc_destination_port :: "int option"
  nc_protocol :: transport_protocol
  nc_connected_at :: datetime
  nc_latency_ms :: "int option"
  nc_direction :: connection_direction

definition opt_range :: "int \<Rightarrow> int \<Rightarrow> int option \<Rightarrow> bool" where
  "opt_range lo hi v = (case v of None \<Rightarrow> True | Some i \<Rightarrow> lo \<le> i \<and> i \<le> hi)"

definition network_connection_payload_init :: "network_connection_payload \<Rightarrow> network_connection_payload res" where
  "network_connection_payload_init p =
     bind_res (check_all
       ([uuid_check [''connection_id''] [] ''connection_id'' (nc_connection_id p),
         (opt_range 0 65535 (nc_source_port p), ''source_port''),
         (opt_range 0 65535 (nc_destination_port p), ''destination_port'')] @
        utc_checks ''connected_at'' (nc_connected_at p) @
        [(opt_range 0 60000 (nc_latency_ms p), ''latency_ms'')]))
     (\<lambda>_. Inr p)"

definition NetworkConnectionEvent :: schema_class where
  "NetworkConnectionEvent = \<lparr>sc_event_type = ''network.connection'', sc_schema_version = ''v1''\<rparr>"

record session_start_payload =
  se_session_id :: uuid
  se_actor_id :: uuid
  se_started_at :: datetime
  se_client_version :: "string option"
  se_platform :: "string option"
  se_entrypoint :: "string option"
  se_region :: "string option"
  se_network_type :: "string option"
  se_experiment_id :: "string option"

definition opt_in :: "string list \<Rightarrow> string option \<Rightarrow> bool" where
  "opt_in xs v = (case v of None \<Rightarrow> True | Some s \<Rightarrow> s \<in> set xs)"

definition session_start_payload_init :: "session_start_payload \<Rightarrow> session_start_payload res" where
  "session_start_payload_init p =
     bind_res (check_all
       ([uuid_check [''session_id'', ''actor_id''] [] ''session_id'' (se_session_id p),
         uuid_check [''session_id'', ''actor_id''] [] ''actor_id'' (se_actor_id p)] @
        utc_checks ''started_at'' (se_started_at p) @
        [(case se_client_version p of None \<Rightarrow> True | Some v \<Rightarrow> client_version_ok v, ''client_version pattern''),
         (opt_in [''ios'', ''android'', ''web'', ''backend'', ''cli''] (se_platform p), ''platform''),
         (opt_in [''wifi'', ''cellular'', ''ethernet'', ''unknown''] (se_network_type p), ''network_type'')]))
     (\<lambda>_. Inr p)"

definition SessionStartEvent :: schema_class where
  "SessionStartEvent = \<lparr>sc_event_type = ''session.start'', sc_schema_version = ''v1''\<rparr>"

datatype device_type = SENSOR | GATEWAY | EDGE_NODE

record device_registration_payload =
  dr_device_id :: uuid
  dr_store_id :: string
  dr_device_type :: device_type
  dr_firmware_version :: "string option"
  dr_registered_at :: datetime

definition device_registration_payload_init :: "device_registration_payload \<Rightarrow> device_registration_payload res" where
  "device_registration_payload_init p =
     bind_res (check_all
       ([uuid_check [''device_id''] [] ''device_id'' (dr_device_id p),
         (dr_store_id p \<noteq> [] \<and> sep_words (dr_store_id p), ''store_id pattern''),
         (case dr_firmware_version p of None \<Rightarrow> True | Some v \<Rightarrow> strict_semver v,
          ''firmware_version must follow semantic versioning (MAJOR.MINOR.PATCH)'')] @
        utc_checks ''registered_at'' (dr_registered_at p)))
     (\<lambda>_. Inr p)"

definition DeviceRegistrationEvent :: schema_class where
  "DeviceRegistrationEvent = \<lparr>sc_event_type = ''device.registration'', sc_schema_version = ''v1''\<rparr>"

subsection \<open>Envelope pre-validation\<close>

definition REQUIRED_ENVELOPE_FIELDS :: "string list" where
  "REQUIRED_ENVELOPE_FIELDS = [''event_timestamp'', ''payload'', ''trace'']"

definition REQUIRED_METADATA_FIELDS :: "string list" where
  "REQUIRED_METADATA_FIELDS = [''event_type'', ''schema_version'', ''source'']"

definition validate_envelope_fields :: "pyval \<Rightarrow> string list res" where
  "validate_envelope_fields event =
     (case event of
        PyDict kvs \<Rightarrow> Inr (sort (filter (\<lambda>f. f \<notin> set (dict_keys kvs)) REQUIRED_ENVELOPE_FIELDS))
      | v \<Rightarrow> Inl (TypeError (''Expected dict, got '' @ type_name v)))"

definition validate_metadata_fields :: "pyval \<Rightarrow> string list res" where
  "validate_metadata_fields event =
     (case event of
        PyDict kvs \<Rightarrow>
          (case dict_item kvs ''metadata'' of
             PyDict metadata \<Rightarrow>
               Inr (map (\<lambda>f. ''metadata.'' @ f)
                 (filter (\<lambda>f. \<not> truthy (dict_item metadata f)) (sort REQUIRED_METADATA_FIELDS)))
           | _ \<Rightarrow> Inr [''metadata''])
      | v \<Rightarrow> Inl (TypeError (''Expected dict, got '' @ type_name v)))"

text \<open>\<^verbatim>\<open>repr\<close> of a list of field names.\<close>

definition repr_names :: "string list \<Rightarrow> string" where
  "repr_names xs = ''['' @ concat (case map (\<lambda>x. CHR 0x27 # x @ [CHR 0x27]) xs of
       [] \<Rightarrow> [] | y # ys \<Rightarrow> y # map (\<lambda>z. '', '' @ z) ys) @ '']''"

definition assert_valid_envelope :: "pyval \<Rightarrow> unit res" where
  "assert_valid_envelope event =
     bind_res (validate_envelope_fields event) (\<lambda>missing.
       if missing \<noteq> [] then Inl (ValueError (''Event envelope missing required fields: '' @ repr_names missing))
       else bind_res (validate_metadata_fields event) (\<lambda>missing.
         if missing \<noteq> [] then Inl (ValueError (''Event metadata missing required fields: '' @ repr_names missing))
         else Inr ()))"

subsection \<open>What the contracts guarantee\<close>

lemma uuid_check_iff:
  "fst (uuid_check v4 v45 name u) \<longleftrightarrow>
     (case allowed_versions v4 v45 name of None \<Rightarrow> True | Some vs \<Rightarrow> uuid_version u \<in> Some ` set vs)"
  by (auto simp: uuid_check_def validate_uuid_field_def split: option.split)

lemma base_event_init_Inr:
  "base_event_init cls i md tr t g p = Inr ev \<longleftrightarrow>
     (\<exists>m. inject_metadata cls md = Inr m \<and> aware t \<and> aware g \<and> instant t \<le> instant g + MAX_CLOCK_SKEW \<and>
       md_event_type m = sc_event_type cls \<and> md_schema_version m = sc_schema_version cls \<and>
       ev = \<lparr>ev_event_id = i, ev_metadata = m, ev_trace = tr, ev_event_timestamp = t,
              ev_ingest_timestamp = g, ev_payload = p\<rparr>)"
  by (auto simp: base_event_init_def)

lemma event_metadata_init_Inr:
  "event_metadata_init sv et src = Inr m \<longleftrightarrow>
     SEMVER_PATTERN sv \<and> EVENT_TYPE_PATTERN et \<and> SOURCE_PATTERN src \<and>
     m = \<lparr>md_schema_version = sv, md_event_type = et, md_source = src\<rparr>"
  by (auto simp: event_metadata_init_def)

lemma detection_payload_init_Inr:
  "detection_payload_init p = Inr q \<longleftrightarrow> q = p \<and> uuid_version (dp_detection_id p) \<in> {Some 4, Some 5} \<and>
     dotted_words (dp_detection_type p) \<and> utc_ok (dp_detected_at p) \<and> dp_store_id p \<noteq> [] \<and>
     uuid_version (dp_source_event_id p) \<in> {Some 4, Some 5} \<and> dp_threshold_breached p \<noteq> []"
  by (auto simp: detection_payload_init_def uuid_check_iff allowed_versions_def detection_v4or5_fields_def
      utc_checks_def utc_ok_aware dotted_words_def Let_def)

lemma alert_payload_init_Inr:
  "alert_payload_init p = Inr q \<longleftrightarrow> q = p \<and> uuid_version (al_alert_id p) \<in> {Some 4, Some 5} \<and>
     uuid_version (al_detection_id p) \<in> {Some 4, Some 5} \<and>
     dotted_words (al_detection_type p) \<and> utc_ok (al_routed_at p) \<and> al_store_id p \<noteq> [] \<and> al_summary p \<noteq> []"
  by (auto simp: alert_payload_init_def uuid_check_iff allowed_versions_def alert_v4or5_fields_def
      utc_checks_def utc_ok_aware dotted_words_def Let_def)

lemma sep_words_ne: "sep_words s \<Longrightarrow> s \<noteq> []"
  by (auto simp: sep_words_def word_ok_def)

lemma windowed_feature_payload_init_Inr:
  "windowed_feature_payload_init p = Inr q \<longleftrightarrow> q = p \<and> sep_words (wf_partition_key p) \<and>
     utc_ok (wf_window_start p) \<and> utc_ok (wf_window_end p) \<and>
     list_all (feature_value_ok \<circ> snd) (wf_feature_values p) \<and> v_dotted (wf_feature_version p)"
  by (auto simp: windowed_feature_payload_init_def utc_checks_def utc_ok_aware dest: sep_words_ne)

text \<open>
  An envelope that was constructed without metadata carries exactly the identity of its
  schema class and the source \<^verbatim>\<open>unknown\<close>, has timezone-aware timestamps, and is not dated
  more than five minutes after its ingestion; a class whose declared identity breaks the
  metadata grammar cannot construct one at all.
\<close>

theorem injected_envelope_contract:
  "(base_event_init cls i None tr t g p = Inr ev \<longrightarrow>
      md_event_type (ev_metadata ev) = sc_event_type cls \<and>
      md_schema_version (ev_metadata ev) = sc_schema_version cls \<and> md_source (ev_metadata ev) = ''unknown'' \<and>
      aware (ev_event_timestamp ev) \<and> aware (ev_ingest_timestamp ev) \<and>
      instant (ev_event_timestamp ev) - instant (ev_ingest_timestamp ev) \<le> seconds 300) \<and>
   (\<not> SEMVER_PATTERN (sc_schema_version cls) \<or> \<not> EVENT_TYPE_PATTERN (sc_event_type cls) \<longrightarrow>
      isl (base_event_init cls i None tr t g p))"
proof -
  have "isl (base_event_init cls i None tr t g p)"
    if "\<not> SEMVER_PATTERN (sc_schema_version cls) \<or> \<not> EVENT_TYPE_PATTERN (sc_event_type cls)"
    using that by (cases "base_event_init cls i None tr t g p")
      (auto simp: base_event_init_Inr inject_metadata_def event_metadata_init_Inr)
  then show ?thesis
    by (auto simp: base_event_init_Inr inject_metadata_def event_metadata_init_Inr MAX_CLOCK_SKEW_def)
qed

theorem injected_envelope_contract_witness:
  "isl (base_event_init \<lparr>sc_event_type = ''alert'', sc_schema_version = ''v1''\<rparr> 1 None
      (trace_context_init 7 None None INGESTION) (UTC 0) (UTC 0) PyNone)"
proof -
  have "\<not> EVENT_TYPE_PATTERN ''alert''" by code_simp
  then show ?thesis
    using injected_envelope_contract [where cls = "\<lparr>sc_event_type = ''alert'', sc_schema_version = ''v1''\<rparr>"
        and p = PyNone] by simp
qed

text \<open>
  C35: defining an event class registers it once and for all: a successful definition makes
  its identity resolve to that class and leaves every other identity alone; a second class
  that claims a registered identity is refused with a \<^verbatim>\<open>TypeError\<close> and changes nothing.
\<close>

theorem class_definition_registers:
  assumes "name \<noteq> ''BaseEvent''" and "\<not> starts_with ''BaseEvent['' name"
  shows "(is_registered reg et sv \<longrightarrow>
       fst (init_subclass reg name (Some et) (Some sv) True cls) = reg \<and>
       (\<exists>m. snd (init_subclass reg name (Some et) (Some sv) True cls) = Inl (TypeError m))) \<and>
     (\<not> is_registered reg et sv \<longrightarrow>
       snd (init_subclass reg name (Some et) (Some sv) True cls) = Inr () \<and>
       get_schema (fst (init_subclass reg name (Some et) (Some sv) True cls)) et sv = Inr cls \<and>
       (\<forall>k. k \<noteq> (et, sv) \<longrightarrow>
          dict_get (fst (init_subclass reg name (Some et) (Some sv) True cls)) k = dict_get reg k))"
  using assms by (auto simp: init_subclass_def schema_register_def is_registered_def get_schema_def)

theorem class_definition_registers_witness:
  "get_schema (fst (init_subclass [] ''DetectionEvent'' (Some ''detection.event'') (Some ''v1'') True DetectionEvent))
     ''detection.event'' ''v1'' = Inr DetectionEvent"
  using class_definition_registers [of "''DetectionEvent''" "[]" "''detection.event''" "''v1''" DetectionEvent]
  by (simp add: starts_with_def is_registered_def)

lemma component_digits: "component_ok p \<Longrightarrow> digits_ok p"
  by (simp add: component_ok_def digits_ok_def)

lemma digit_not_newline: "is_digit c \<Longrightarrow> c \<noteq> CHR 0x0A"
  by (auto simp: is_digit_def less_eq_char_def)

lemma show_version_last: "ns \<noteq> [] \<Longrightarrow> is_digit (last (show_version ns))"
proof -
  assume ns: "ns \<noteq> []"
  have "ss \<noteq> [] \<Longrightarrow> \<forall>s \<in> set ss. s \<noteq> [] \<Longrightarrow> last (join_with c ss) = last (last ss) \<and> join_with c ss \<noteq> []"
    for c ss by (induction c ss rule: join_with.induct) auto
  from this [of "map show_nat ns" "CHR ''.''"] ns show ?thesis
    using show_nat_digits [of "last ns"] by (simp add: show_version_def last_map)
qed

text \<open>
  The registry and the router understand fewer versions than the envelope admits. Every
  version string they parse satisfies the metadata grammar, but the grammar also admits
  strings on which parsing raises, such as a fourth component or a leading zero.
\<close>

theorem metadata_version_grammar:
  "(parse_version s = Inr v \<longrightarrow> SEMVER_PATTERN s) \<and>
   SEMVER_PATTERN ''v1.2.3.4'' \<and> isl (parse_version ''v1.2.3.4'') \<and>
   SEMVER_PATTERN ''v01'' \<and> isl (parse_version ''v01'')"
proof -
  have "SEMVER_PATTERN s" if p: "parse_version s = Inr v"
  proof -
    obtain ns where ns: "ns \<noteq> []" "length ns \<le> 3" "s = show_version ns" "v = version_of ns"
      using p unfolding parse_version_exact_iff by blast
    have "chop_newline s = s"
      using show_version_last [OF ns(1)] digit_not_newline by (auto simp: chop_newline_def ns(3))
    moreover have "list_all digits_ok (map show_nat ns)"
      by (auto simp: list_all_iff intro: component_digits)
    ultimately show ?thesis
      using ns by (simp add: SEMVER_PATTERN_def v_dotted_def starts_with_def show_version_def split_show_version)
  qed
  moreover have "SEMVER_PATTERN ''v1.2.3.4''" "isl (parse_version ''v1.2.3.4'')"
     "SEMVER_PATTERN ''v01''" "isl (parse_version ''v01'')" by code_simp+
  ultimately show ?thesis by blast
qed

theorem metadata_version_grammar_witness: "SEMVER_PATTERN ''v1.10''"
proof -
  have "parse_version ''v1.10'' = Inr (SchemaVersion 1 10 0)" by code_simp
  then show ?thesis using metadata_version_grammar by blast
qed

text \<open>
  A raw event that passes the structural pre-check is never rejected by the registry as
  malformed: with textual identity fields, validation is exactly the resolution of its
  schema followed by that schema's own validation.
\<close>

theorem valid_envelope_resolves:
  assumes pre: "assert_valid_envelope (PyDict kvs) = Inr ()"
    and md: "dict_item kvs ''metadata'' = PyDict md"
    and id: "dict_item md ''event_type'' = PyStr et" "dict_item md ''schema_version'' = PyStr sv"
  shows "schema_validate model_validate reg (PyDict kvs) =
     bind_res (get_schema reg et sv) (\<lambda>c. case model_validate c (PyDict kvs) of Inr ev \<Rightarrow> Inr ev
       | Inl e \<Rightarrow> if exn_type e = ''ValidationError''
           then Inl (ValueError (''Schema validation failed for '' @ et @ '' '' @ sv)) else Inl e)"
proof -
  have "truthy (PyStr et)" "truthy (PyStr sv)"
    using pre unfolding id [symmetric]
    by (auto simp: assert_valid_envelope_def validate_envelope_fields_def validate_metadata_fields_def md
        REQUIRED_METADATA_FIELDS_def filter_empty_conv split: if_splits)
  then show ?thesis by (simp add: schema_validate_def md id Let_def)
qed

theorem valid_envelope_resolves_witness:
  "schema_validate (\<lambda>c e. Inr c) [((''a.b'', ''v1''), 5 :: nat)]
     (PyDict [(''event_timestamp'', PyNone), (''payload'', PyNone), (''trace'', PyNone),
       (''metadata'', PyDict [(''event_type'', PyStr ''a.b''), (''schema_version'', PyStr ''v1''), (''source'', PyStr ''s'')])]) = Inr 5"
proof -
  let ?md = "[(''event_type'', PyStr ''a.b''), (''schema_version'', PyStr ''v1''), (''source'', PyStr ''s'')]"
  let ?kvs = "[(''event_timestamp'', PyNone), (''payload'', PyNone), (''trace'', PyNone), (''metadata'', PyDict ?md)]"
  have "assert_valid_envelope (PyDict ?kvs) = Inr ()" by code_simp
  from valid_envelope_resolves [OF this, of ?md "''a.b''" "''v1''" "\<lambda>c e. Inr c" "[((''a.b'', ''v1''), 5 :: nat)]"]
  show ?thesis by (simp add: dict_item_def dict_get_default_def get_schema_def)
qed

end
