(* ===== verification/EventRouter.thy ===== *)
theory EventRouter
  imports Contracts
begin

text \<open>
  \<^verbatim>\<open>stream_pipeline/streaming/event_router.py\<close>: schema-aware dispatch to handlers. A
  handler is a closure over objects the router does not own; it is a function on the
  world \<open>'w\<close> those objects live in, which may raise. Log lines are values.
\<close>

subsection \<open>Events, logs and handlers\<close>

type_synonym event = "pyval base_event"

record log_line =
  lg_level :: string
  lg_message :: string
  lg_event_type :: string
  lg_trace_id :: "string option"
  lg_metadata :: "(string \<times> pyval) list"

definition log :: "string \<Rightarrow> string \<Rightarrow> string \<Rightarrow> string \<Rightarrow> (string \<times> pyval) list \<Rightarrow> log_line" where
  "log level message event_type trace_id metadata =
     \<lparr>lg_level = level, lg_message = message, lg_event_type = event_type, lg_trace_id = Some trace_id,
      lg_metadata = metadata\<rparr>"

definition trace_id_of :: "'p base_event \<Rightarrow> string" where
  "trace_id_of ev = str_uuid (tc_trace_id (ev_trace ev))"

record 'w handler =
  h_qualname :: string
  h_call :: "'w \<Rightarrow> event \<Rightarrow> 'w \<times> unit res"

datatype route_key = RouteKey (rk_event_type: string) (rk_schema_version: string)

record dispatch_result =
  matched_key :: "route_key option"
  handlers_invoked :: nat
  handler_failures :: nat
  fell_back :: bool

record 'w event_router =
  er_handlers :: "(route_key, 'w handler list) dict"
  er_strict :: bool

definition event_router_init :: "bool \<Rightarrow> 'w event_router" where
  "event_router_init strict = \<lparr>er_handlers = [], er_strict = strict\<rparr>"

subsection \<open>Resolution\<close>

definition candidate_of :: "route_key \<Rightarrow> schema_version \<Rightarrow> route_key \<Rightarrow> (schema_version \<times> route_key) option" where
  "candidate_of requested requested_version key =
     (if rk_event_type key \<noteq> rk_event_type requested then None
      else case parse_version (rk_schema_version key) of
          Inl _ \<Rightarrow> None
        | Inr candidate_version \<Rightarrow>
            (if major candidate_version \<noteq> major requested_version then None
             else if candidate_version \<le> requested_version then Some (candidate_version, key) else None))"

definition resolve_compatible_key :: "route_key \<Rightarrow> route_key list \<Rightarrow> route_key option res" where
  "resolve_compatible_key requested registered_keys =
     bind_res (parse_version (rk_schema_version requested)) (\<lambda>requested_version.
       case List.map_filter (candidate_of requested requested_version) registered_keys of
         [] \<Rightarrow> Inr None
       | c # cs \<Rightarrow> Inr (Some (snd (max_by fst c cs))))"

definition major_prefix :: "string \<Rightarrow> string" where
  "major_prefix version = hd (split_on (CHR ''.'') version)"

definition resolve_compatible_key_fallback :: "route_key \<Rightarrow> route_key list \<Rightarrow> route_key option" where
  "resolve_compatible_key_fallback requested registered_keys =
     (case filter (\<lambda>key. rk_event_type key = rk_event_type requested \<and>
              major_prefix (rk_schema_version key) = major_prefix (rk_schema_version requested) \<and>
              rk_schema_version key \<le> rk_schema_version requested) registered_keys of
        [] \<Rightarrow> None
      | c # cs \<Rightarrow> Some (max_by rk_schema_version c cs))"

subsection \<open>Registration and dispatch\<close>

text \<open>\<open>callable\<close> tells whether the argument can be called at all.\<close>

definition router_register ::
  "'w event_router \<Rightarrow> string \<Rightarrow> string \<Rightarrow> bool \<Rightarrow> 'w handler \<Rightarrow> 'w event_router \<times> unit res" where
  "router_register r event_type schema_version callable handler =
     (if event_type = [] then (r, Inl (ValueError ''event_type must be non-empty''))
      else if schema_version = [] then (r, Inl (ValueError ''schema_version must be non-empty''))
      else if \<not> callable then (r, Inl (TypeError ''handler must be callable''))
      else (r\<lparr>er_handlers := dict_append (RouteKey event_type schema_version) handler (er_handlers r)\<rparr>, Inr ()))"

text \<open>Sorting by a pair is a stable sort by its second component, then by its first.\<close>

definition registered_keys :: "'w event_router \<Rightarrow> route_key list" where
  "registered_keys r = sort_key rk_event_type (sort_key rk_schema_version (dict_keys (er_handlers r)))"

text \<open>The loop over the handlers of the matched key.\<close>

fun run_handlers ::
  "bool \<Rightarrow> route_key \<Rightarrow> event \<Rightarrow> 'w handler list \<Rightarrow> 'w \<Rightarrow> log_line list \<Rightarrow> nat \<Rightarrow> nat \<Rightarrow>
     ('w \<times> log_line list) \<times> (nat \<times> nat) res" where
  "run_handlers strict requested ev [] w logs invoked failures = ((w, logs), Inr (invoked, failures))"
| "run_handlers strict requested ev (h # hs) w logs invoked failures =
     (case h_call h w ev of
        (w', Inr _) \<Rightarrow> run_handlers strict requested ev hs w' logs (invoked + 1) failures
      | (w', Inl exc) \<Rightarrow>
          (let logs' = logs @ [log ''ERROR'' ''Handler raised during dispatch'' ''router.handler_error''
                 (trace_id_of ev)
                 [(''telemetry_event_type'', PyStr (rk_event_type requested)),
                  (''telemetry_schema_version'', PyStr (rk_schema_version requested)),
                  (''handler'', PyStr (h_qualname h)),
                  (''exception_type'', PyStr (exn_type exc)),
                  (''exception_message'', PyStr (exn_msg exc))]]
           in if strict then ((w', logs'), Inl exc)
              else run_handlers strict requested ev hs w' logs' invoked (failures + 1)))"

definition requested_key :: "event \<Rightarrow> route_key" where
  "requested_key ev = RouteKey (md_event_type (ev_metadata ev)) (md_schema_version (ev_metadata ev))"

text \<open>Exact match first, then the compatible fallback, which is logged.\<close>

definition find_handlers ::
  "'w event_router \<Rightarrow> event \<Rightarrow> ('w handler list \<times> route_key \<times> bool \<times> log_line list) res" where
  "find_handlers r ev =
     (let requested = requested_key ev in
      case dict_get (er_handlers r) requested of
        Some hs \<Rightarrow> Inr (hs, requested, False, [])
      | None \<Rightarrow>
          bind_res (resolve_compatible_key requested (dict_keys (er_handlers r))) (\<lambda>compatible.
            case compatible of
              None \<Rightarrow> Inr ([], requested, False, [])
            | Some key \<Rightarrow>
                Inr (dict_get_default (er_handlers r) key [], key, True,
                  [log ''INFO'' ''Routing event to compatible handler'' ''router.compatible_fallback''
                    (trace_id_of ev)
                    [(''requested_event_type'', PyStr (rk_event_type requested)),
                     (''requested_schema_version'', PyStr (rk_schema_version requested)),
                     (''matched_schema_version'', PyStr (rk_schema_version key))]])))"

definition dispatch ::
  "'w event_router \<Rightarrow> 'w \<Rightarrow> event \<Rightarrow> ('w \<times> log_line list) \<times> dispatch_result res" where
  "dispatch r w ev =
     (let requested = requested_key ev; trace_id = trace_id_of ev in
      case find_handlers r ev of
        Inl e \<Rightarrow> ((w, []), Inl e)
      | Inr (handlers, matched, fb, logs) \<Rightarrow>
          (if handlers = []
           then ((w, logs @ [log ''WARNING'' ''No handler registered for event'' ''router.no_handler'' trace_id
                    [(''telemetry_event_type'', PyStr (rk_event_type requested)),
                     (''telemetry_schema_version'', PyStr (rk_schema_version requested))]]),
                 Inr \<lparr>matched_key = None, handlers_invoked = 0, handler_failures = 0, fell_back = False\<rparr>)
           else case run_handlers (er_strict r) requested ev handlers w logs 0 0 of
               ((w', logs'), Inl e) \<Rightarrow> ((w', logs'), Inl e)
             | ((w', logs'), Inr (invoked, failures)) \<Rightarrow>
                 ((w', logs' @ [log ''INFO'' ''Dispatched event to handlers'' ''router.dispatch'' trace_id
                    [(''telemetry_event_type'', PyStr (rk_event_type requested)),
                     (''telemetry_schema_version'', PyStr (rk_schema_version requested)),
                     (''matched_schema_version'', PyStr (rk_schema_version matched)),
                     (''handlers_invoked'', PyInt (int invoked)),
                     (''handler_failures'', PyInt (int failures)),
                     (''fell_back'', PyBool fb)]]),
                  Inr \<lparr>matched_key = Some matched, handlers_invoked = invoked, handler_failures = failures,
                       fell_back = fb\<rparr>)))"

subsection \<open>Resolution picks the tightest match\<close>

definition routable :: "route_key \<Rightarrow> schema_version \<Rightarrow> route_key \<Rightarrow> schema_version \<Rightarrow> bool" where
  "routable requested rv key v \<longleftrightarrow> rk_event_type key = rk_event_type requested \<and>
     parse_version (rk_schema_version key) = Inr v \<and> major v = major rv \<and> v \<le> rv"

lemma candidate_of_Some: "candidate_of requested rv key = Some (v, key') \<longleftrightarrow> key' = key \<and> routable requested rv key v"
  by (auto simp: candidate_of_def routable_def split: sum.split)

lemma set_candidates:
  "(v, key) \<in> set (List.map_filter (candidate_of requested rv) ks) \<longleftrightarrow> key \<in> set ks \<and> routable requested rv key v"
proof (induction ks)
  case (Cons k ks)
  show ?case
  proof (cases "candidate_of requested rv k")
    case None
    then have "\<not> routable requested rv k u" for u by (metis candidate_of_Some option.distinct(1))
    then show ?thesis using Cons None by (auto simp: List.map_filter_simps)
  next
    case (Some c)
    then obtain u where "c = (u, k)" "routable requested rv k u" by (cases c) (simp add: candidate_of_Some)
    moreover have "routable requested rv k v \<Longrightarrow> v = u" using calculation(2) by (simp add: routable_def)
    ultimately show ?thesis using Cons Some by (auto simp: List.map_filter_simps)
  qed
qed (simp add: List.map_filter_simps)

lemma resolve_cases:
  assumes rv: "parse_version (rk_schema_version requested) = Inr rv"
  obtains (none) "resolve_compatible_key requested ks = Inr None" "\<forall>k \<in> set ks. \<forall>v. \<not> routable requested rv k v"
  | (found) key v where "resolve_compatible_key requested ks = Inr (Some key)" "key \<in> set ks"
      "routable requested rv key v" "\<forall>k \<in> set ks. \<forall>u. routable requested rv k u \<longrightarrow> u \<le> v"
proof (cases "List.map_filter (candidate_of requested rv) ks")
  case Nil
  then show ?thesis using that(1) rv set_candidates [of _ _ requested rv ks]
    by (simp add: resolve_compatible_key_def)
next
  case (Cons c cs)
  obtain v key where vk: "max_by fst c cs = (v, key)" by fastforce
  have "(v, key) \<in> set (List.map_filter (candidate_of requested rv) ks)"
    using max_by_in [of fst c cs] vk Cons by simp
  moreover have "u \<le> v" if "k \<in> set ks" "routable requested rv k u" for k u
    using max_by_ge [of "(u, k)" c cs fst] vk Cons that set_candidates [of u k requested rv ks] by simp
  moreover have "resolve_compatible_key requested ks = Inr (Some key)"
    using rv Cons vk by (simp add: resolve_compatible_key_def)
  ultimately show ?thesis using that(2) [of key v] unfolding set_candidates by blast
qed

text \<open>
  C29: routing falls back to the highest handler version of the same event type and major
  that does not exceed the version of the event, to nothing exactly when there is none,
  and raises exactly when the version of the event does not parse; handlers registered
  under an unparsable version are never chosen.
\<close>

theorem router_resolves_highest:
  "(isl (resolve_compatible_key requested ks) \<longleftrightarrow> isl (parse_version (rk_schema_version requested))) \<and>
   (\<forall>rv. parse_version (rk_schema_version requested) = Inr rv \<longrightarrow>
      (case projr (resolve_compatible_key requested ks) of
         None \<Rightarrow> (\<forall>k \<in> set ks. \<forall>v. \<not> routable requested rv k v)
       | Some key \<Rightarrow> key \<in> set ks \<and> (\<exists>v. routable requested rv key v \<and>
           (\<forall>k \<in> set ks. \<forall>u. routable requested rv k u \<longrightarrow> u \<le> v))))"
proof (cases "parse_version (rk_schema_version requested)")
  case (Inl e)
  then show ?thesis by (simp add: resolve_compatible_key_def)
next
  case (Inr rv)
  show ?thesis using Inr by (rule resolve_cases [where ks = ks]) (use Inr in auto)
qed

theorem router_resolves_highest_witness:
  "\<exists>v. routable (RouteKey ''a.b'' ''v1.3'') (SchemaVersion 1 3 0) (RouteKey ''a.b'' ''v1.2'') v \<and>
     (\<forall>k \<in> set [RouteKey ''a.b'' ''v1'', RouteKey ''a.b'' ''v1.2'', RouteKey ''a.b'' ''v1.10''].
        \<forall>u. routable (RouteKey ''a.b'' ''v1.3'') (SchemaVersion 1 3 0) k u \<longrightarrow> u \<le> v)"
proof -
  let ?ks = "[RouteKey ''a.b'' ''v1'', RouteKey ''a.b'' ''v1.2'', RouteKey ''a.b'' ''v1.10'']"
  have "resolve_compatible_key (RouteKey ''a.b'' ''v1.3'') ?ks = Inr (Some (RouteKey ''a.b'' ''v1.2''))" by code_simp
  moreover have "parse_version (rk_schema_version (RouteKey ''a.b'' ''v1.3'')) = Inr (SchemaVersion 1 3 0)" by code_simp
  ultimately show ?thesis using router_resolves_highest [of "RouteKey ''a.b'' ''v1.3''" ?ks] by simp
qed

text \<open>
  The fallback used without the contracts package is not equivalent to the real
  resolution, even when every component has one digit: a handler for \<^verbatim>\<open>v1.0\<close> serves a
  \<^verbatim>\<open>v1\<close> event in the one and not in the other. What it returns is always a registered key
  of the requested type whose version string is the greatest not above the requested one.
\<close>

theorem fallback_resolution:
  "resolve_compatible_key (RouteKey ''a.b'' ''v1'') [RouteKey ''a.b'' ''v1.0''] = Inr (Some (RouteKey ''a.b'' ''v1.0'')) \<and>
   resolve_compatible_key_fallback (RouteKey ''a.b'' ''v1'') [RouteKey ''a.b'' ''v1.0''] = None \<and>
   (resolve_compatible_key_fallback requested ks = Some key \<longrightarrow>
      key \<in> set ks \<and> rk_event_type key = rk_event_type requested \<and>
      rk_schema_version key \<le> rk_schema_version requested \<and>
      (\<forall>k \<in> set ks. rk_event_type k = rk_event_type requested \<and>
         major_prefix (rk_schema_version k) = major_prefix (rk_schema_version requested) \<and>
         rk_schema_version k \<le> rk_schema_version requested \<longrightarrow> rk_schema_version k \<le> rk_schema_version key))"
proof -
  let ?P = "\<lambda>k. rk_event_type k = rk_event_type requested \<and>
         major_prefix (rk_schema_version k) = major_prefix (rk_schema_version requested) \<and>
         rk_schema_version k \<le> rk_schema_version requested"
  have "key \<in> set (filter ?P ks) \<and> (\<forall>k \<in> set (filter ?P ks). rk_schema_version k \<le> rk_schema_version key)"
    if "resolve_compatible_key_fallback requested ks = Some key"
  proof (cases "filter ?P ks")
    case Nil
    then show ?thesis using that by (simp add: resolve_compatible_key_fallback_def)
  next
    case (Cons c cs)
    then have "key = max_by rk_schema_version c cs" using that by (simp add: resolve_compatible_key_fallback_def)
    then show ?thesis
      unfolding Cons using max_by_in [of rk_schema_version c cs] max_by_ge [of _ c cs rk_schema_version] by blast
  qed
  moreover have "resolve_compatible_key (RouteKey ''a.b'' ''v1'') [RouteKey ''a.b'' ''v1.0''] = Inr (Some (RouteKey ''a.b'' ''v1.0''))"
    "resolve_compatible_key_fallback (RouteKey ''a.b'' ''v1'') [RouteKey ''a.b'' ''v1.0''] = None" by code_simp+
  ultimately show ?thesis by auto
qed

theorem fallback_resolution_witness:
  "resolve_compatible_key_fallback (RouteKey ''a.b'' ''v1.3'') [RouteKey ''a.b'' ''v1'', RouteKey ''a.b'' ''v1.2''] =
     Some (RouteKey ''a.b'' ''v1.2'') \<and> ''v1.2'' \<le> ''v1.3'' \<and> ''v1'' \<le> ''v1.2''"
proof -
  have "resolve_compatible_key_fallback (RouteKey ''a.b'' ''v1.3'') [RouteKey ''a.b'' ''v1'', RouteKey ''a.b'' ''v1.2''] =
      Some (RouteKey ''a.b'' ''v1.2'')" "''v1'' \<le> ''v1.3''" "major_prefix ''v1'' = major_prefix ''v1.3''" by code_simp+
  then show ?thesis
    using fallback_resolution [of "RouteKey ''a.b'' ''v1.3''" "[RouteKey ''a.b'' ''v1'', RouteKey ''a.b'' ''v1.2'']"
        "RouteKey ''a.b'' ''v1.2''"] by simp
qed

subsection \<open>Failure isolation\<close>

text \<open>The world after a list of handlers has run, and how many of them raised.\<close>

fun world_after :: "event \<Rightarrow> 'w handler list \<Rightarrow> 'w \<Rightarrow> 'w" where
  "world_after ev [] w = w"
| "world_after ev (h # hs) w = world_after ev hs (fst (h_call h w ev))"

fun failures_in :: "event \<Rightarrow> 'w handler list \<Rightarrow> 'w \<Rightarrow> nat" where
  "failures_in ev [] w = 0"
| "failures_in ev (h # hs) w = (if isl (snd (h_call h w ev)) then 1 else 0) + failures_in ev hs (fst (h_call h w ev))"

lemma run_handlers_lenient:
  "\<exists>logs'. run_handlers False key ev hs w logs i f =
     ((world_after ev hs w, logs'), Inr (i + (length hs - failures_in ev hs w), f + failures_in ev hs w)) \<and>
     failures_in ev hs w \<le> length hs"
proof (induction hs arbitrary: w logs i f)
  case (Cons h hs)
  show ?case
  proof (cases "h_call h w ev")
    case (Pair w' r)
    show ?thesis
    proof (cases r)
      case (Inl e)
      then show ?thesis using Cons.IH [of w' "_ :: log_line list" i "f + 1"] Pair by (fastforce simp: Let_def)
    next
      case (Inr u)
      obtain l where "run_handlers False key ev hs w' logs (i + 1) f =
          ((world_after ev hs w', l), Inr (i + 1 + (length hs - failures_in ev hs w'), f + failures_in ev hs w'))"
          "failures_in ev hs w' \<le> length hs" using Cons.IH by blast
      then show ?thesis using Pair Inr by (auto simp: Suc_diff_le)
    qed
  qed
qed simp

lemma run_handlers_no_failure:
  "failures_in ev hs w = 0 \<Longrightarrow>
   run_handlers s key ev hs w logs i f = ((world_after ev hs w, logs), Inr (i + length hs, f))"
proof (induction hs arbitrary: w i)
  case (Cons h hs)
  then show ?case by (cases "h_call h w ev"; cases "snd (h_call h w ev)") auto
qed simp

text \<open>
  C30: outside strict mode one bad handler cannot starve another: every handler of the
  matched key runs exactly once, in registration order, on the world its predecessors
  left, whatever they raised; the counts of successes and failures add up to their number.
\<close>

theorem dispatch_isolates_handlers:
  assumes "\<not> er_strict r" and "find_handlers r ev = Inr (hs, key, fb, l)" and "hs \<noteq> []"
  shows "\<exists>logs d. dispatch r w ev = ((world_after ev hs w, logs), Inr d) \<and> matched_key d = Some key \<and>
     fell_back d = fb \<and> handler_failures d = failures_in ev hs w \<and>
     handlers_invoked d + handler_failures d = length hs"
proof -
  obtain l' where "run_handlers False (requested_key ev) ev hs w l 0 0 =
      ((world_after ev hs w, l'), Inr (0 + (length hs - failures_in ev hs w), 0 + failures_in ev hs w))"
      "failures_in ev hs w \<le> length hs"
    using run_handlers_lenient [of "requested_key ev" ev hs w l 0 0] by blast
  then show ?thesis using assms by (simp add: dispatch_def Let_def)
qed

definition demo_handler :: "bool \<Rightarrow> nat \<Rightarrow> nat list handler" where
  "demo_handler fails n = \<lparr>h_qualname = ''h'',
     h_call = (\<lambda>w e. (w @ [n], if fails then Inl (ValueError ''boom'') else Inr ()))\<rparr>"

definition demo_pipeline_event :: event where
  "demo_pipeline_event = \<lparr>ev_event_id = 1, ev_metadata = \<lparr>md_schema_version = ''v1.1'', md_event_type = ''a.b'', md_source = ''s''\<rparr>,
     ev_trace = trace_context_init 7 None None INGESTION, ev_event_timestamp = UTC 0, ev_ingest_timestamp = UTC 0,
     ev_payload = PyNone\<rparr>"

theorem dispatch_isolates_handlers_witness:
  "\<exists>logs d. dispatch \<lparr>er_handlers = [(RouteKey ''a.b'' ''v1'', [demo_handler True 1, demo_handler False 2])],
        er_strict = False\<rparr> [] demo_pipeline_event = (([1, 2], logs), Inr d) \<and> handler_failures d = 1"
proof -
  let ?r = "\<lparr>er_handlers = [(RouteKey ''a.b'' ''v1'', [demo_handler True 1, demo_handler False 2])], er_strict = False\<rparr>"
  let ?hs = "[demo_handler True 1, demo_handler False 2]"
  have "resolve_compatible_key (RouteKey ''a.b'' ''v1.1'') [RouteKey ''a.b'' ''v1''] = Inr (Some (RouteKey ''a.b'' ''v1''))"
    by code_simp
  then obtain l where "find_handlers ?r demo_pipeline_event = Inr (?hs, RouteKey ''a.b'' ''v1'', True, l)"
    by (simp add: find_handlers_def requested_key_def demo_pipeline_event_def dict_get_default_def Let_def)
  from dispatch_isolates_handlers [OF _ this, of "[]"] show ?thesis
    by (auto simp: demo_handler_def)
qed

end
