(* ===== verification/DeviceRegistry.thy ===== *)
theory DeviceRegistry
  imports EventRouter
begin

text \<open>
  \<^verbatim>\<open>stream_pipeline/detection/device_registry.py\<close>: the projection of registration events
  into two dictionaries, device to store and store to devices. The invariant says that
  the second is the inverse image of the first.
\<close>

record device_registry =
  dr_device_to_store :: "(uuid, string) dict"
  dr_store_to_devices :: "(string, uuid set) dict"

definition device_registry_init :: device_registry where
  "device_registry_init = \<lparr>dr_device_to_store = [], dr_store_to_devices = []\<rparr>"

text \<open>Attribute access on a payload of the contract's types; a missing attribute raises.\<close>

definition attr_uuid :: "pyval \<Rightarrow> string \<Rightarrow> uuid res" where
  "attr_uuid p name = (case get_attr p name of Some (PyUUID u) \<Rightarrow> Inr u
     | _ \<Rightarrow> Inl (AttributeError (type_name p @ '' object has no attribute '' @ name)))"

definition attr_str :: "pyval \<Rightarrow> string \<Rightarrow> string res" where
  "attr_str p name = (case get_attr p name of Some (PyStr s) \<Rightarrow> Inr s
     | _ \<Rightarrow> Inl (AttributeError (type_name p @ '' object has no attribute '' @ name)))"

text \<open>Removing the device from the store it was bound to before, with the store when it is left empty.\<close>

definition unbind :: "uuid \<Rightarrow> string \<Rightarrow> (string, uuid set) dict \<Rightarrow> (string, uuid set) dict res" where
  "unbind device_id previous_store s2d =
     (case dict_get s2d previous_store of
        None \<Rightarrow> Inl (KeyError previous_store)
      | Some ds \<Rightarrow> Inr (if ds - {device_id} = {} then dict_del previous_store s2d
                       else dict_set previous_store (ds - {device_id}) s2d))"

definition bind_device :: "device_registry \<Rightarrow> uuid \<Rightarrow> string \<Rightarrow> device_registry \<times> unit res" where
  "bind_device r device_id store_id =
     (if dict_get (dr_device_to_store r) device_id = Some store_id then (r, Inr ())
      else case (case dict_get (dr_device_to_store r) device_id of
                   None \<Rightarrow> Inr (dr_store_to_devices r)
                 | Some previous_store \<Rightarrow> unbind device_id previous_store (dr_store_to_devices r)) of
          Inl e \<Rightarrow> (r, Inl e)
        | Inr s2d \<Rightarrow>
            (\<lparr>dr_device_to_store = dict_set device_id store_id (dr_device_to_store r),
              dr_store_to_devices = dict_set store_id
                (insert device_id (dict_get_default s2d store_id {})) s2d\<rparr>, Inr ()))"

definition observe_registration :: "device_registry \<Rightarrow> event \<Rightarrow> device_registry \<times> unit res" where
  "observe_registration r ev =
     (case attr_uuid (ev_payload ev) ''device_id'' of
        Inl e \<Rightarrow> (r, Inl e)
      | Inr device_id \<Rightarrow>
          (case attr_str (ev_payload ev) ''store_id'' of
             Inl e \<Rightarrow> (r, Inl e)
           | Inr store_id \<Rightarrow> bind_device r device_id store_id))"

definition store_for :: "device_registry \<Rightarrow> uuid \<Rightarrow> string option" where
  "store_for r device_id = dict_get (dr_device_to_store r) device_id"

definition device_count :: "device_registry \<Rightarrow> string \<Rightarrow> int" where
  "device_count r store_id =
     (case dict_get (dr_store_to_devices r) store_id of Some ds \<Rightarrow> int (card ds) | None \<Rightarrow> 0)"

definition registered_device_count :: "device_registry \<Rightarrow> nat" where
  "registered_device_count r = length (dr_device_to_store r)"

definition known_stores :: "device_registry \<Rightarrow> string set" where
  "known_stores r = set (dict_keys (dr_store_to_devices r))"

subsection \<open>Consistency of the two directions\<close>

definition devices_of :: "device_registry \<Rightarrow> string \<Rightarrow> uuid set" where
  "devices_of r s = {d. store_for r d = Some s}"

definition registry_inv :: "device_registry \<Rightarrow> bool" where
  "registry_inv r \<longleftrightarrow> dict_ok (dr_device_to_store r) \<and> dict_ok (dr_store_to_devices r) \<and>
     (\<forall>s. dict_get (dr_store_to_devices r) s = (if devices_of r s = {} then None else Some (devices_of r s)))"

lemma registry_inv_init: "registry_inv device_registry_init"
  by (simp add: registry_inv_def device_registry_init_def devices_of_def store_for_def)

lemma bind_device_spec:
  assumes inv: "registry_inv r"
  shows "registry_inv (fst (bind_device r d s)) \<and> snd (bind_device r d s) = Inr () \<and>
     store_for (fst (bind_device r d s)) = (store_for r)(d \<mapsto> s)"
proof (cases "store_for r d = Some s")
  case True
  then show ?thesis using inv by (auto simp: bind_device_def store_for_def fun_eq_iff)
next
  case False
  let ?s2d = "dr_store_to_devices r"
  have I: "dict_get ?s2d s' = (if devices_of r s' = {} then None else Some (devices_of r s'))" for s'
    using inv by (simp add: registry_inv_def)
  obtain m where m: "(case store_for r d of None \<Rightarrow> Inr ?s2d | Some p \<Rightarrow> unbind d p ?s2d) = Inr m"
      "\<And>s'. dict_get m s' = (if devices_of r s' - {d} = {} then None else Some (devices_of r s' - {d}))" "dict_ok m"
  proof (cases "store_for r d")
    case None
    then have "devices_of r s' - {d} = devices_of r s'" for s' by (auto simp: devices_of_def)
    then show ?thesis using that [of ?s2d] None I inv by (simp add: registry_inv_def)
  next
    case (Some p)
    then have d: "d \<in> devices_of r p" by (simp add: devices_of_def)
    have o: "devices_of r s' - {d} = devices_of r s'" if "s' \<noteq> p" for s'
      using that Some by (auto simp: devices_of_def)
    have ok: "dict_ok ?s2d" using inv by (simp add: registry_inv_def)
    have g: "dict_get ?s2d p = Some (devices_of r p)" using I [of p] d by auto
    let ?m = "if devices_of r p - {d} = {} then dict_del p ?s2d else dict_set p (devices_of r p - {d}) ?s2d"
    have "unbind d p ?s2d = Inr ?m" using g by (simp add: unbind_def)
    moreover have "dict_get ?m s' = (if devices_of r s' - {d} = {} then None else Some (devices_of r s' - {d}))" for s'
      using I [of s'] o [of s'] by (cases "s' = p") simp_all
    ultimately show ?thesis using that [of ?m] Some ok by simp
  qed
  let ?r' = "\<lparr>dr_device_to_store = dict_set d s (dr_device_to_store r),
      dr_store_to_devices = dict_set s (insert d (dict_get_default m s {})) m\<rparr>"
  have eq: "bind_device r d s = (?r', Inr ())"
    using False m(1) by (simp add: bind_device_def store_for_def)
  have dv: "devices_of \<lparr>dr_device_to_store = dict_set d s (dr_device_to_store r), dr_store_to_devices = x\<rparr> s' =
      (if s' = s then insert d (devices_of r s) else devices_of r s' - {d})" for s' x
    by (auto simp: devices_of_def store_for_def)
  have def: "dict_get_default m s {} = devices_of r s - {d}" using m(2) [of s] by (auto simp: dict_get_default_def)
  have "dict_get (dr_store_to_devices ?r') s' = (if devices_of ?r' s' = {} then None else Some (devices_of ?r' s'))" for s'
    using m(2) [of s'] by (simp add: dv def)
  then have "registry_inv ?r'" using inv m(3) by (simp add: registry_inv_def)
  moreover have "store_for ?r' = (store_for r)(d \<mapsto> s)" by (simp add: store_for_def fun_eq_iff)
  ultimately show ?thesis by (simp add: eq)
qed

lemma registry_inv_observe: "registry_inv r \<Longrightarrow> registry_inv (fst (observe_registration r ev))"
  using bind_device_spec by (auto simp: observe_registration_def split: sum.split)

lemma devices_of_card: "registry_inv r \<Longrightarrow> device_count r s = int (card (devices_of r s))"
  by (simp add: device_count_def registry_inv_def)

text \<open>
  C34: after any sequence of events, malformed ones included, the two directions of the
  registry agree: the count of a store is the number of devices whose latest binding is
  that store, and a store is known exactly when it has one. A device that moves is counted
  once.
\<close>

theorem registry_directions_agree:
  "device_count (foldl (\<lambda>r ev. fst (observe_registration r ev)) device_registry_init evs) s =
     int (card {d. store_for (foldl (\<lambda>r ev. fst (observe_registration r ev)) device_registry_init evs) d = Some s}) \<and>
   (s \<in> known_stores (foldl (\<lambda>r ev. fst (observe_registration r ev)) device_registry_init evs) \<longleftrightarrow>
     (\<exists>d. store_for (foldl (\<lambda>r ev. fst (observe_registration r ev)) device_registry_init evs) d = Some s))"
proof -
  let ?r = "foldl (\<lambda>r ev. fst (observe_registration r ev)) device_registry_init evs"
  have "registry_inv r \<Longrightarrow> registry_inv (foldl (\<lambda>r ev. fst (observe_registration r ev)) r evs)" for r
    by (induction evs arbitrary: r) (auto intro: registry_inv_observe)
  then have inv: "registry_inv ?r" using registry_inv_init by blast
  have "s \<in> known_stores ?r \<longleftrightarrow> dict_get (dr_store_to_devices ?r) s \<noteq> None"
    unfolding known_stores_def by (metis dict_get_None_iff)
  then have "s \<in> known_stores ?r \<longleftrightarrow> devices_of ?r s \<noteq> {}" using inv by (simp add: registry_inv_def)
  then show ?thesis using devices_of_card [OF inv] by (auto simp: devices_of_def)
qed

text \<open>
  A registration binds its device to its store, whatever the device was bound to
  before, and no other device; observing the same registration again changes nothing.
\<close>

theorem registration_binds:
  assumes "registry_inv r" and "get_attr (ev_payload ev) ''device_id'' = Some (PyUUID d)"
    and "get_attr (ev_payload ev) ''store_id'' = Some (PyStr s)"
  shows "store_for (fst (observe_registration r ev)) = (store_for r)(d \<mapsto> s) \<and>
     snd (observe_registration r ev) = Inr () \<and>
     observe_registration (fst (observe_registration r ev)) ev = (fst (observe_registration r ev), Inr ())"
proof -
  have o: "observe_registration q ev = bind_device q d s" for q
    using assms by (simp add: observe_registration_def attr_uuid_def attr_str_def)
  have "store_for (fst (bind_device r d s)) d = Some s" using bind_device_spec [OF assms(1)] by simp
  then have "bind_device (fst (bind_device r d s)) d s = (fst (bind_device r d s), Inr ())"
    by (simp add: bind_device_def store_for_def)
  then show ?thesis using bind_device_spec [OF assms(1)] by (simp add: o)
qed

theorem registration_binds_witness:
  "store_for (fst (observe_registration device_registry_init
     (demo_pipeline_event\<lparr>ev_payload := PyObj ''P'' [(''device_id'', PyUUID 5), (''store_id'', PyStr ''a'')]\<rparr>))) 5 = Some ''a''"
  using registration_binds [OF registry_inv_init,
      of "demo_pipeline_event\<lparr>ev_payload := PyObj ''P'' [(''device_id'', PyUUID 5), (''store_id'', PyStr ''a'')]\<rparr>" 5 "''a''"]
  by simp

end
