(* ===== verification/Watermark.thy ===== *)
theory Watermark
  imports PyTime
begin

text \<open>
  \<^verbatim>\<open>stream_pipeline/streaming/watermark_manager.py\<close>: the per-key event-time watermark.
  The state is the lateness tolerance and the dictionary of highest event timestamps; each
  operation of the class is one definition. The lemmas relate a run of observations to the
  maximum timestamp per key and give monotonicity, isolation of keys and the meaning of
  the three classifications.
\<close>

subsection \<open>State and operations\<close>

datatype event_classification = ON_TIME | LATE_TOLERATED | LATE_DROPPED

fun classification_value :: "event_classification \<Rightarrow> string" where
  "classification_value ON_TIME = ''on_time''"
| "classification_value LATE_TOLERATED = ''late_tolerated''"
| "classification_value LATE_DROPPED = ''late_dropped''"

record watermark_observation =
  wo_key :: string
  wo_classification :: event_classification
  wo_watermark :: datetime
  wo_high_event_timestamp :: datetime
  wo_lateness :: timedelta

record watermark_manager =
  wm_lateness :: timedelta
  wm_high_event_ts :: "(string, datetime) dict"

definition EPOCH_BASELINE :: datetime where "EPOCH_BASELINE = datetime_min_utc"

definition watermark_manager_init :: "int \<Rightarrow> watermark_manager res" where
  "watermark_manager_init lateness_tolerance_seconds =
     (if lateness_tolerance_seconds < 0
      then Inl (ValueError ''lateness_tolerance_seconds must be >= 0'')
      else Inr \<lparr>wm_lateness = seconds lateness_tolerance_seconds, wm_high_event_ts = []\<rparr>)"

definition derive_watermark :: "watermark_manager \<Rightarrow> datetime \<Rightarrow> datetime" where
  "derive_watermark m high =
     (if instant high = instant EPOCH_BASELINE then EPOCH_BASELINE
      else dt_add high (- wm_lateness m))"

definition classify :: "watermark_manager \<Rightarrow> datetime \<Rightarrow> datetime \<Rightarrow> event_classification" where
  "classify m event_timestamp previous_watermark =
     (if instant event_timestamp \<ge> instant previous_watermark then ON_TIME
      else let late_by = instant previous_watermark - instant event_timestamp in
        if late_by \<le> wm_lateness m \<and> wm_lateness m > 0 then LATE_TOLERATED else LATE_DROPPED)"

definition high_for :: "watermark_manager \<Rightarrow> string \<Rightarrow> datetime" where
  "high_for m key = dict_get_default (wm_high_event_ts m) key EPOCH_BASELINE"

definition wm_observe ::
  "watermark_manager \<Rightarrow> string \<Rightarrow> datetime \<Rightarrow> watermark_manager \<times> watermark_observation res" where
  "wm_observe m key event_timestamp =
     (if key = [] then (m, Inl (ValueError ''key must be non-empty''))
      else if \<not> aware event_timestamp
        then (m, Inl (ValueError ''event_timestamp must be timezone-aware''))
      else
        let previous_high = high_for m key;
            previous_watermark = derive_watermark m previous_high;
            classification = classify m event_timestamp previous_watermark;
            new_high = dt_max previous_high event_timestamp;
            m' = m\<lparr>wm_high_event_ts := dict_set key new_high (wm_high_event_ts m)\<rparr>
        in (m', Inr \<lparr>wo_key = key, wo_classification = classification,
                     wo_watermark = derive_watermark m' new_high,
                     wo_high_event_timestamp = new_high,
                     wo_lateness = wm_lateness m\<rparr>))"

definition watermark_for :: "watermark_manager \<Rightarrow> string \<Rightarrow> datetime" where
  "watermark_for m key = derive_watermark m (high_for m key)"

text \<open>\<^verbatim>\<open>min\<close> of a non-empty sequence of datetimes: the first of the smallest.\<close>

fun dt_min_list :: "datetime \<Rightarrow> datetime list \<Rightarrow> datetime" where
  "dt_min_list d [] = d"
| "dt_min_list d (x # xs) = dt_min_list (if instant x < instant d then x else d) xs"

definition global_watermark :: "watermark_manager \<Rightarrow> datetime" where
  "global_watermark m =
     (case map (derive_watermark m \<circ> snd) (wm_high_event_ts m) of
        [] \<Rightarrow> EPOCH_BASELINE
      | d # ds \<Rightarrow> dt_min_list d ds)"

definition wm_keys :: "watermark_manager \<Rightarrow> string list" where
  "wm_keys m = sort (dict_keys (wm_high_event_ts m))"

text \<open>A consumer feeds the manager one observation after another.\<close>

fun wm_run :: "watermark_manager \<Rightarrow> (string \<times> datetime) list \<Rightarrow> watermark_manager" where
  "wm_run m [] = m"
| "wm_run m ((k, t) # es) = wm_run (fst (wm_observe m k t)) es"

subsection \<open>Reading the state after an observation\<close>

lemma wm_lateness_observe [simp]: "wm_lateness (fst (wm_observe m k t)) = wm_lateness m"
  by (simp add: wm_observe_def Let_def)

lemma derive_watermark_cong: "wm_lateness m = wm_lateness m' \<Longrightarrow> derive_watermark m = derive_watermark m'"
  by (simp add: derive_watermark_def fun_eq_iff)

lemma high_for_observe:
  "high_for (fst (wm_observe m k t)) k' =
     (if k' = k \<and> k \<noteq> [] \<and> aware t then dt_max (high_for m k) t else high_for m k')"
  by (simp add: wm_observe_def high_for_def dict_get_default_def Let_def)

lemma wm_observe_ok:
  assumes "k \<noteq> []" and "aware t"
  shows "snd (wm_observe m k t) =
     Inr \<lparr>wo_key = k, wo_classification = classify m t (watermark_for m k),
          wo_watermark = derive_watermark m (dt_max (high_for m k) t),
          wo_high_event_timestamp = dt_max (high_for m k) t, wo_lateness = wm_lateness m\<rparr>"
  using assms by (simp add: wm_observe_def watermark_for_def derive_watermark_def Let_def)

lemma wm_observe_watermark_for:
  "snd (wm_observe m k t) = Inr ob \<Longrightarrow> wo_watermark ob = watermark_for (fst (wm_observe m k t)) k"
  by (auto simp: wm_observe_def watermark_for_def high_for_def dict_get_default_def Let_def
      split: if_splits)

lemma wm_lateness_run [simp]: "wm_lateness (wm_run m es) = wm_lateness m"
  by (induction m es rule: wm_run.induct) auto

lemma wm_run_append: "wm_run m (xs @ ys) = wm_run (wm_run m xs) ys"
  by (induction m xs rule: wm_run.induct) auto

lemma instant_derive_watermark:
  "instant (derive_watermark m h) =
     (if instant h = instant EPOCH_BASELINE then instant EPOCH_BASELINE
      else instant h - wm_lateness m)"
  by (simp add: derive_watermark_def)

subsection \<open>Invariant\<close>

definition wm_inv :: "watermark_manager \<Rightarrow> bool" where
  "wm_inv m \<longleftrightarrow> 0 \<le> wm_lateness m \<and> dict_ok (wm_high_event_ts m) \<and>
     (\<forall>(k, h) \<in> set (wm_high_event_ts m). k \<noteq> [] \<and> aware h \<and> instant EPOCH_BASELINE \<le> instant h)"

lemma wm_inv_init: "watermark_manager_init n = Inr m \<Longrightarrow> wm_inv m"
  by (auto simp: watermark_manager_init_def wm_inv_def split: if_splits)

lemma high_for_ge_baseline: "wm_inv m \<Longrightarrow> instant EPOCH_BASELINE \<le> instant (high_for m k)"
  by (auto simp: wm_inv_def high_for_def dict_get_default_def split: option.split dest: dict_get_in)

lemma aware_baseline [simp]: "aware EPOCH_BASELINE"
  by (simp add: EPOCH_BASELINE_def datetime_min_utc_def)

lemma aware_high_for: "wm_inv m \<Longrightarrow> aware (high_for m k)"
  by (auto simp: wm_inv_def high_for_def dict_get_default_def split: option.split dest: dict_get_in)

lemma set_dict_set: "set (dict_set k v d) \<subseteq> insert (k, v) (set d)"
  by (induction d) auto

lemma wm_inv_observe [inv_intros]: "wm_inv m \<Longrightarrow> wm_inv (fst (wm_observe m k t))"
  using high_for_ge_baseline [of m k] aware_high_for [of m k]
    set_dict_set [of k "dt_max (high_for m k) t" "wm_high_event_ts m"]
  by (auto simp: wm_observe_def wm_inv_def Let_def)

lemma wm_inv_run [inv_intros]: "wm_inv m \<Longrightarrow> wm_inv (wm_run m es)"
  by (induction m es rule: wm_run.induct) (auto intro: wm_inv_observe)

subsection \<open>What a run computes\<close>

definition stamps :: "string \<Rightarrow> (string \<times> datetime) list \<Rightarrow> int list" where
  "stamps k es = [instant t. (k', t) \<leftarrow> es, k' = k \<and> k \<noteq> [] \<and> aware t]"

lemma instant_high_for_run:
  "instant (high_for (wm_run m es) k) = fold max (stamps k es) (instant (high_for m k))"
  by (induction m es rule: wm_run.induct) (auto simp: stamps_def high_for_observe max.commute)

lemma fold_max_eq: "fold max xs (a :: int) = Max (insert a (set xs))"
  using Max.set_eq_fold [of a xs] by simp

lemma high_for_init: "watermark_manager_init n = Inr m \<Longrightarrow> high_for m k = EPOCH_BASELINE"
  by (auto simp: watermark_manager_init_def high_for_def dict_get_default_def split: if_splits)

lemma wm_lateness_init: "watermark_manager_init n = Inr m \<Longrightarrow> wm_lateness m = seconds n \<and> 0 \<le> n"
  by (auto simp: watermark_manager_init_def split: if_splits)

lemma high_for_run_init:
  assumes "watermark_manager_init n = Inr m" and "\<forall>s \<in> set (stamps k es). instant EPOCH_BASELINE < s"
  shows "instant (high_for (wm_run m es) k) =
     (if stamps k es = [] then instant EPOCH_BASELINE else Max (set (stamps k es)))"
proof (cases "stamps k es = []")
  case False
  then obtain s where s: "s \<in> set (stamps k es)" by (cases "stamps k es") auto
  then have "instant EPOCH_BASELINE < Max (set (stamps k es))"
    using assms(2) by (meson List.finite_set Max_ge less_le_trans)
  then show ?thesis
    using False by (simp add: instant_high_for_run high_for_init [OF assms(1)] fold_max_eq max_def)
qed (simp add: instant_high_for_run high_for_init [OF assms(1)])

lemma baseline_less_Max:
  assumes "\<forall>s \<in> set xs. (b :: int) < s" and "xs \<noteq> []"
  shows "b < Max (set xs)"
  using assms by (metis List.finite_set Max_in set_empty)



subsection \<open>Monotonicity and isolation\<close>

lemma fold_max_ge: "(a :: int) \<le> fold max xs a"
  by (simp add: fold_max_eq)

text \<open>
  A watermark never moves backwards. The timestamps are assumed to lie at least the
  tolerance after the year 1, where \<^verbatim>\<open>high - lateness\<close> is representable.
\<close>

theorem watermark_monotone:
  assumes init: "watermark_manager_init n = Inr m"
    and real: "\<forall>s \<in> set (stamps k (xs @ ys)). instant EPOCH_BASELINE + seconds n \<le> s"
  shows "instant (watermark_for (wm_run m xs) k) \<le> instant (watermark_for (wm_run m (xs @ ys)) k)"
proof -
  let ?b = "instant EPOCH_BASELINE"
  let ?h = "instant (high_for (wm_run m xs) k)" and ?h' = "instant (high_for (wm_run m (xs @ ys)) k)"
  have L: "wm_lateness m = seconds n" "0 \<le> n" using wm_lateness_init [OF init] by auto
  have le: "?h \<le> ?h'" by (simp add: wm_run_append instant_high_for_run fold_max_ge)
  have "?h' = Max (insert ?b (set (stamps k (xs @ ys))))"
    by (simp add: instant_high_for_run fold_max_eq high_for_init [OF init])
  moreover have "Max (insert ?b (set (stamps k (xs @ ys)))) \<in> insert ?b (set (stamps k (xs @ ys)))"
    by (rule Max_in) auto
  ultimately have h': "?h' = ?b \<or> ?b + seconds n \<le> ?h'" using real by auto
  have "?b \<le> ?h" using wm_inv_run [OF wm_inv_init [OF init]] by (rule high_for_ge_baseline)
  then show ?thesis using le h' L by (auto simp: watermark_for_def instant_derive_watermark)
qed

theorem watermark_monotone_witness:
  "instant (watermark_for (wm_run \<lparr>wm_lateness = seconds 60, wm_high_event_ts = []\<rparr>
       [(''s'', UTC (seconds 1000))]) ''s'')
   \<le> instant (watermark_for (wm_run \<lparr>wm_lateness = seconds 60, wm_high_event_ts = []\<rparr>
       ([(''s'', UTC (seconds 1000))] @ [(''s'', UTC (seconds 900))])) ''s'')"
  by (rule watermark_monotone [where n = 60])
    (simp_all add: watermark_manager_init_def stamps_def EPOCH_BASELINE_def datetime_min_utc_def)

lemma high_for_run_filter:
  "high_for m k = high_for m' k \<Longrightarrow>
   high_for (wm_run m es) k = high_for (wm_run m' (filter (\<lambda>e. fst e = k) es)) k"
proof (induction es arbitrary: m m')
  case (Cons e es)
  obtain k' t where e: "e = (k', t)" by (cases e)
  have "high_for (fst (wm_observe m k' t)) k =
      high_for (if k' = k then fst (wm_observe m' k' t) else m') k"
    using Cons.prems by (simp add: high_for_observe)
  from Cons.IH [OF this] show ?case by (simp add: e)
qed simp

text \<open>
  Keys are independent: what a key's watermark and its classifications are depends
  on the observations of that key only, whatever other keys report in between.
\<close>

theorem keys_independent:
  "watermark_for (wm_run m es) k = watermark_for (wm_run m (filter (\<lambda>e. fst e = k) es)) k \<and>
   snd (wm_observe (wm_run m es) k t) = snd (wm_observe (wm_run m (filter (\<lambda>e. fst e = k) es)) k t)"
proof -
  have h: "high_for (wm_run m es) k = high_for (wm_run m (filter (\<lambda>e. fst e = k) es)) k"
    by (rule high_for_run_filter) simp
  have d: "derive_watermark (wm_run m es) = derive_watermark (wm_run m (filter (\<lambda>e. fst e = k) es))"
    by (rule derive_watermark_cong) simp
  show ?thesis
    by (auto simp: watermark_for_def h d wm_observe_def classify_def derive_watermark_def Let_def)
qed

lemma dt_min_list_in: "dt_min_list d ds \<in> insert d (set ds)"
  by (induction d ds rule: dt_min_list.induct) (auto split: if_splits)

lemma dt_min_list_le: "x \<in> insert d (set ds) \<Longrightarrow> instant (dt_min_list d ds) \<le> instant x"
proof (induction d ds arbitrary: x rule: dt_min_list.induct)
  case (2 d y ys)
  let ?d = "if instant y < instant d then y else d"
  have "instant (dt_min_list ?d ys) \<le> instant ?d" using "2.IH" by simp
  moreover have "instant ?d \<le> instant d" "instant ?d \<le> instant y" by auto
  ultimately show ?case using "2" by fastforce
qed simp

text \<open>
  The global watermark is the least watermark over the tracked keys, and the
  baseline exactly when there is none: a partition is sealed only when every store has
  passed it.
\<close>

theorem global_watermark_is_min:
  assumes "wm_inv m"
  shows "(wm_high_event_ts m = [] \<longrightarrow> global_watermark m = EPOCH_BASELINE) \<and>
    (wm_high_event_ts m \<noteq> [] \<longrightarrow>
       (\<exists>k \<in> set (wm_keys m). global_watermark m = watermark_for m k)) \<and>
    (\<forall>k \<in> set (wm_keys m). instant (global_watermark m) \<le> instant (watermark_for m k))"
proof -
  let ?ws = "map (derive_watermark m \<circ> snd) (wm_high_event_ts m)"
  have key: "k \<in> set (wm_keys m) \<longleftrightarrow> (\<exists>h. (k, h) \<in> set (wm_high_event_ts m))" for k
    by (force simp: wm_keys_def)
  have val: "watermark_for m k = derive_watermark m h" if "(k, h) \<in> set (wm_high_event_ts m)" for k h
    using that assms dict_in_get [of "wm_high_event_ts m" k h]
    by (simp add: watermark_for_def high_for_def dict_get_default_def wm_inv_def)
  show ?thesis
  proof (cases ?ws)
    case Nil
    then show ?thesis by (auto simp: global_watermark_def key)
  next
    case (Cons d ds)
    have g: "global_watermark m = dt_min_list d ds" by (simp add: global_watermark_def Cons)
    have "insert d (set ds) = set ?ws" by (simp only: Cons list.set)
    also have "\<dots> = (\<lambda>(k, h). derive_watermark m h) ` set (wm_high_event_ts m)"
      by (simp add: case_prod_beta' comp_def)
    finally have img: "insert d (set ds) = (\<lambda>(k, h). derive_watermark m h) ` set (wm_high_event_ts m)" .
    have ex: "\<exists>k \<in> set (wm_keys m). global_watermark m = watermark_for m k"
      using dt_min_list_in [of d ds] unfolding g img by (force simp: key val)
    have lb: "instant (global_watermark m) \<le> instant (watermark_for m k)" if "k \<in> set (wm_keys m)" for k
    proof -
      from that obtain h where h: "(k, h) \<in> set (wm_high_event_ts m)" by (auto simp: key)
      then have "derive_watermark m h \<in> insert d (set ds)" unfolding img by force
      then show ?thesis using dt_min_list_le [of "derive_watermark m h" d ds] val [OF h] g by simp
    qed
    show ?thesis using ex lb Cons by auto
  qed
qed

theorem global_watermark_is_min_witness:
  "instant (global_watermark (wm_run \<lparr>wm_lateness = seconds 60, wm_high_event_ts = []\<rparr>
       [(''a'', UTC (seconds 1000)), (''b'', UTC (seconds 2000))]))
   \<le> instant (watermark_for (wm_run \<lparr>wm_lateness = seconds 60, wm_high_event_ts = []\<rparr>
       [(''a'', UTC (seconds 1000)), (''b'', UTC (seconds 2000))]) ''b'')"
proof -
  let ?m = "wm_run \<lparr>wm_lateness = seconds 60, wm_high_event_ts = []\<rparr>
       [(''a'', UTC (seconds 1000)), (''b'', UTC (seconds 2000))]"
  have "wm_inv ?m" by (rule wm_inv_run) (simp add: wm_inv_def)
  from global_watermark_is_min [OF this] have
    "\<forall>k \<in> set (wm_keys ?m). instant (global_watermark ?m) \<le> instant (watermark_for ?m k)" by simp
  moreover have "''b'' \<in> set (wm_keys ?m)"
    by (simp add: wm_keys_def wm_observe_def Let_def dict_keys_set)
  ultimately show ?thesis by blast
qed

subsection \<open>What the window aggregator relies on\<close>

text \<open>
  The contract between the source of classified watermarks and a consumer that holds
  windows open for \<open>lat\<close> after their end: the watermark of a key is monotone and moved by
  events of that key only; an event that is not dropped lies at most \<open>lat\<close> behind the
  watermark after it, and an on-time one not behind the watermark before it.
\<close>

locale late_event_contract =
  fixes good :: "'s \<Rightarrow> bool" and ok :: "string \<Rightarrow> datetime \<Rightarrow> bool" and lat :: int
    and wmark :: "'s \<Rightarrow> string \<Rightarrow> int" and after :: "'s \<Rightarrow> string \<Rightarrow> datetime \<Rightarrow> 's"
    and cls :: "'s \<Rightarrow> string \<Rightarrow> datetime \<Rightarrow> event_classification"
  assumes good_after: "good m \<Longrightarrow> ok k t \<Longrightarrow> good (after m k t)"
    and wmark_mono: "good m \<Longrightarrow> ok k t \<Longrightarrow> wmark m k \<le> wmark (after m k t) k"
    and wmark_frame: "k' \<noteq> k \<Longrightarrow> wmark (after m k t) k' = wmark m k'"
    and accepted_bound: "good m \<Longrightarrow> ok k t \<Longrightarrow> cls m k t \<noteq> LATE_DROPPED \<Longrightarrow> wmark (after m k t) k - lat \<le> instant t"
    and on_time_bound: "cls m k t = ON_TIME \<Longrightarrow> wmark m k \<le> instant t"
begin

text \<open>A window that contains an accepted event is still held open when the event arrives.\<close>

lemma accepted_not_expired:
  "good m \<Longrightarrow> ok k t \<Longrightarrow> cls m k t \<noteq> LATE_DROPPED \<Longrightarrow> instant t < e \<Longrightarrow> \<not> e + lat < wmark (after m k t) k"
  using accepted_bound by fastforce

text \<open>A window that contains an on-time event has not been passed by the watermark before.\<close>

lemma on_time_not_passed: "cls m k t = ON_TIME \<Longrightarrow> instant t < e \<Longrightarrow> \<not> e \<le> wmark m k"
  using on_time_bound by fastforce

lemma wmark_mono_all: "good m \<Longrightarrow> ok k t \<Longrightarrow> wmark m k' \<le> wmark (after m k t) k'"
  using wmark_mono wmark_frame by (cases "k' = k") auto

end

text \<open>The manager meets the contract for keys and timestamps it accepts.\<close>

definition wm_good :: "int \<Rightarrow> watermark_manager \<Rightarrow> bool" where
  "wm_good n m \<longleftrightarrow> wm_inv m \<and> wm_lateness m = seconds n \<and>
     (\<forall>k. instant (high_for m k) = instant EPOCH_BASELINE \<or>
          instant EPOCH_BASELINE + seconds n \<le> instant (high_for m k))"

definition wm_event_ok :: "int \<Rightarrow> string \<Rightarrow> datetime \<Rightarrow> bool" where
  "wm_event_ok n k t \<longleftrightarrow> k \<noteq> [] \<and> aware t \<and> instant EPOCH_BASELINE + seconds n \<le> instant t"

lemma wm_good_init: "watermark_manager_init n = Inr m \<Longrightarrow> wm_good n m"
  using wm_inv_init wm_lateness_init by (simp add: wm_good_def high_for_init)

interpretation wmc: late_event_contract "wm_good n" "wm_event_ok n" "seconds n"
  "\<lambda>m k. instant (watermark_for m k)" "\<lambda>m k t. fst (wm_observe m k t)" "\<lambda>m k t. classify m t (watermark_for m k)"
  for n
proof unfold_locales
  fix m k t
  assume g: "wm_good n m" and ok: "wm_event_ok n k t"
  have b: "instant EPOCH_BASELINE \<le> instant (high_for m k)"
    using g high_for_ge_baseline by (simp add: wm_good_def)
  have L: "wm_lateness m = seconds n" "0 \<le> seconds n" using g by (auto simp: wm_good_def wm_inv_def)
  have h': "high_for (fst (wm_observe m k t)) k = dt_max (high_for m k) t"
    using ok by (simp add: high_for_observe wm_event_ok_def)
  show "wm_good n (fst (wm_observe m k t))"
    using g ok wm_inv_observe by (auto simp: wm_good_def high_for_observe wm_event_ok_def)
  show "instant (watermark_for m k) \<le> instant (watermark_for (fst (wm_observe m k t)) k)"
    using g ok b L by (auto simp: watermark_for_def instant_derive_watermark h' wm_event_ok_def)
  show "instant (watermark_for (fst (wm_observe m k t)) k) - seconds n \<le> instant t"
    if "classify m t (watermark_for m k) \<noteq> LATE_DROPPED"
    using that ok b L
    by (auto simp: watermark_for_def instant_derive_watermark h' wm_event_ok_def classify_def
        Let_def split: if_splits)
next
  fix m k k' t assume "(k' :: string) \<noteq> k"
  then show "instant (watermark_for (fst (wm_observe m k t)) k') = instant (watermark_for m k')"
    by (simp add: watermark_for_def instant_derive_watermark high_for_observe)
next
  fix m k t assume "classify m t (watermark_for m k) = ON_TIME"
  then show "instant (watermark_for m k) \<le> instant t"
    by (auto simp: classify_def Let_def split: if_splits)
qed

end
