(* ===== verification/WindowAggregator.thy ===== *)
theory WindowAggregator
  imports Values Watermark "HOL-Library.Product_Lexorder"
begin

text \<open>
  \<^verbatim>\<open>stream_pipeline/streaming/window_aggregator.py\<close>: event-time tumbling and sliding
  windows with late-event repair. Window bounds are UTC datetimes by construction, so they
  are kept as instants; the event timestamp and the watermark are datetimes. An operation
  that raises returns the state it has reached, since the class mutates in place.
\<close>

subsection \<open>Geometry\<close>

record window_spec =
  size_seconds :: int
  slide_seconds :: int

definition window_spec_init :: "int \<Rightarrow> int \<Rightarrow> window_spec res" where
  "window_spec_init sz slide =
     (if sz \<le> 0 then Inl (ValueError ''size_seconds must be > 0'')
      else if slide \<le> 0 then Inl (ValueError ''slide_seconds must be > 0'')
      else if slide > sz
        then Inl (ValueError ''slide_seconds must be <= size_seconds (gapped windows not permitted)'')
      else if sz mod slide \<noteq> 0
        then Inl (ValueError ''size_seconds must be an integer multiple of slide_seconds'')
      else Inr \<lparr>size_seconds = sz, slide_seconds = slide\<rparr>)"

definition is_tumbling :: "window_spec \<Rightarrow> bool" where
  "is_tumbling sp \<longleftrightarrow> size_seconds sp = slide_seconds sp"

definition spec_size :: "window_spec \<Rightarrow> timedelta" where "spec_size sp = seconds (size_seconds sp)"

definition spec_slide :: "window_spec \<Rightarrow> timedelta" where "spec_slide sp = seconds (slide_seconds sp)"

definition spec_ok :: "window_spec \<Rightarrow> bool" where
  "spec_ok sp \<longleftrightarrow> 0 < slide_seconds sp \<and> slide_seconds sp \<le> size_seconds sp \<and>
     size_seconds sp mod slide_seconds sp = 0"

subsection \<open>Aggregation strategies\<close>

text \<open>The \<^verbatim>\<open>Aggregation\<close> protocol; \<open>combine\<close> may raise.\<close>

record 'st aggregation =
  agg_name :: string
  agg_initial :: 'st
  agg_combine :: "'st \<Rightarrow> pyval \<Rightarrow> 'st res"
  agg_finalise :: "'st \<Rightarrow> pyval"

definition CountAggregation :: "int aggregation" where
  "CountAggregation =
     \<lparr>agg_name = ''count'', agg_initial = 0, agg_combine = (\<lambda>s c. Inr (s + 1)), agg_finalise = PyInt\<rparr>"

definition SumAggregation :: "pyfloat aggregation" where
  "SumAggregation =
     \<lparr>agg_name = ''sum'', agg_initial = 0,
      agg_combine = (\<lambda>s c. case to_float c of
          None \<Rightarrow> Inl (TypeError (''SumAggregation contribution must be numeric, got '' @ type_name c))
        | Some x \<Rightarrow> Inr (fl (s + x))),
      agg_finalise = PyFloat\<rparr>"

definition DistinctCountAggregation :: "(pyval \<Rightarrow> 'k res) \<Rightarrow> 'k set aggregation" where
  "DistinctCountAggregation key =
     \<lparr>agg_name = ''distinct_count'', agg_initial = {},
      agg_combine = (\<lambda>s c. bind_res (key c) (\<lambda>k. Inr (insert k s))),
      agg_finalise = (\<lambda>s. PyInt (int (card s)))\<rparr>"

definition MeanAggregation :: "(pyfloat \<times> int) aggregation" where
  "MeanAggregation =
     \<lparr>agg_name = ''mean'', agg_initial = (0, 0),
      agg_combine = (\<lambda>(total, count) c. case to_float c of
          None \<Rightarrow> Inl (TypeError (''MeanAggregation contribution must be numeric, got '' @ type_name c))
        | Some x \<Rightarrow> Inr (fl (total + x), count + 1)),
      agg_finalise = (\<lambda>(total, count).
          PyFloat (if count > 0 then fl (total / fl (of_int count)) else 0))\<rparr>"

subsection \<open>Aggregator state\<close>

record window_emission =
  we_partition_key :: string
  we_aggregation_name :: string
  we_window_start :: int
  we_window_end :: int
  we_value :: pyval
  we_event_count :: int
  we_is_repair :: bool
  we_last_trace :: "string option"

record 'st window_state =
  ws_state :: 'st
  ws_event_count :: int
  ws_has_emitted :: bool
  ws_last_trace :: "string option"

record 'st window_aggregator =
  wa_spec :: window_spec
  wa_agg :: "'st aggregation"
  wa_lateness :: timedelta
  wa_states :: "(string \<times> int, 'st window_state) dict"
  wa_open_starts :: "(string, int list) dict"

definition window_aggregator_init ::
  "window_spec \<Rightarrow> 'st aggregation \<Rightarrow> int \<Rightarrow> 'st window_aggregator res" where
  "window_aggregator_init sp ag lateness_tolerance_seconds =
     (if lateness_tolerance_seconds < 0
      then Inl (ValueError ''lateness_tolerance_seconds must be >= 0'')
      else Inr \<lparr>wa_spec = sp, wa_agg = ag, wa_lateness = seconds lateness_tolerance_seconds,
               wa_states = [], wa_open_starts = []\<rparr>)"

definition windows_containing :: "window_spec \<Rightarrow> datetime \<Rightarrow> int list" where
  "windows_containing sp event_timestamp =
     (let t = instant event_timestamp;
          offset_seconds = true_div t 1000000;
          slide = slide_seconds sp;
          sz = size_seconds sp;
          newest_start_seconds = \<lfloor>fl (offset_seconds / fl (of_int slide))\<rfloor> * slide;
          starts = map (\<lambda>k. seconds (newest_start_seconds - int k * slide)) [0..<nat (sz div slide)]
      in sort (filter (\<lambda>s. s \<le> t \<and> t < s + spec_size sp) starts))"

definition emission_of ::
  "'st window_aggregator \<Rightarrow> string \<Rightarrow> int \<Rightarrow> bool \<Rightarrow> 'st window_state \<Rightarrow> window_emission" where
  "emission_of a pk window_start repair st =
     \<lparr>we_partition_key = pk, we_aggregation_name = agg_name (wa_agg a),
      we_window_start = window_start, we_window_end = window_start + spec_size (wa_spec a),
      we_value = agg_finalise (wa_agg a) (ws_state st), we_event_count = ws_event_count st,
      we_is_repair = repair, we_last_trace = ws_last_trace st\<rparr>"

text \<open>The loop over the open windows of a key: emissions and kept starts accumulate.\<close>

fun close_loop ::
  "'st window_aggregator \<Rightarrow> string \<Rightarrow> int \<Rightarrow> int list \<Rightarrow> window_emission list \<Rightarrow> int list \<Rightarrow>
     'st window_aggregator \<times> (window_emission list \<times> int list) res" where
  "close_loop a pk watermark [] ems kept = (a, Inr (ems, kept))"
| "close_loop a pk watermark (window_start # rest) ems kept =
     (let window_end = window_start + spec_size (wa_spec a); key = (pk, window_start) in
      case dict_get (wa_states a) key of
        None \<Rightarrow> (a, Inl (KeyError ''window state''))
      | Some st \<Rightarrow>
          let closes = \<not> ws_has_emitted st \<and> watermark \<ge> window_end;
              ems' = (if closes then ems @ [emission_of a pk window_start False st] else ems);
              st' = (if closes then st\<lparr>ws_has_emitted := True\<rparr> else st);
              a' = a\<lparr>wa_states := dict_set key st' (wa_states a)\<rparr>
          in if watermark > window_end + wa_lateness a
             then close_loop (a'\<lparr>wa_states := dict_del key (wa_states a')\<rparr>) pk watermark rest ems' kept
             else close_loop a' pk watermark rest ems' (kept @ [window_start]))"

definition close_eligible_windows ::
  "'st window_aggregator \<Rightarrow> string \<Rightarrow> datetime \<Rightarrow> 'st window_aggregator \<times> window_emission list res" where
  "close_eligible_windows a pk watermark =
     (let open_starts = dict_get_default (wa_open_starts a) pk [] in
      if open_starts = [] then (a, Inr [])
      else case close_loop a pk (instant watermark) open_starts [] [] of
          (a', Inl e) \<Rightarrow> (a', Inl e)
        | (a', Inr (ems, kept)) \<Rightarrow>
            (a'\<lparr>wa_open_starts := (if kept \<noteq> [] then dict_set pk kept (wa_open_starts a')
                                  else dict_del pk (wa_open_starts a'))\<rparr>, Inr ems))"

text \<open>One iteration of the loop over the windows of an event.\<close>

definition contribute ::
  "'st window_aggregator \<Rightarrow> string \<Rightarrow> int \<Rightarrow> 'st window_state \<Rightarrow> pyval \<Rightarrow> event_classification \<Rightarrow>
     string option \<Rightarrow> 'st window_aggregator \<times> window_emission list res" where
  "contribute a pk window_start st contribution classification trace_id =
     (case agg_combine (wa_agg a) (ws_state st) contribution of
        Inl e \<Rightarrow> (a, Inl e)
      | Inr s' \<Rightarrow>
          let st' = st\<lparr>ws_state := s', ws_event_count := ws_event_count st + 1,
                       ws_last_trace := trace_id\<rparr>;
              a' = a\<lparr>wa_states := dict_set (pk, window_start) st' (wa_states a)\<rparr>
          in (a', Inr (if classification = LATE_TOLERATED \<and> ws_has_emitted st'
                       then [emission_of a pk window_start True st'] else [])))"

definition apply_window ::
  "'st window_aggregator \<Rightarrow> string \<Rightarrow> pyval \<Rightarrow> event_classification \<Rightarrow> int \<Rightarrow> string option \<Rightarrow> int \<Rightarrow>
     'st window_aggregator \<times> window_emission list res" where
  "apply_window a pk contribution classification watermark trace_id window_start =
     (let key = (pk, window_start); window_end = window_start + spec_size (wa_spec a) in
      case dict_get (wa_states a) key of
        None \<Rightarrow>
          (if watermark > window_end + wa_lateness a then (a, Inr [])
           else
             let st = \<lparr>ws_state = agg_initial (wa_agg a), ws_event_count = 0,
                       ws_has_emitted = False, ws_last_trace = None\<rparr>;
                 a' = a\<lparr>wa_states := dict_set key st (wa_states a),
                        wa_open_starts := dict_set pk
                          (insort window_start (dict_get_default (wa_open_starts a) pk []))
                          (wa_open_starts a)\<rparr>
             in contribute a' pk window_start st contribution classification trace_id)
      | Some st \<Rightarrow> contribute a pk window_start st contribution classification trace_id)"

fun apply_windows ::
  "'st window_aggregator \<Rightarrow> string \<Rightarrow> pyval \<Rightarrow> event_classification \<Rightarrow> int \<Rightarrow> string option \<Rightarrow>
     int list \<Rightarrow> window_emission list \<Rightarrow> 'st window_aggregator \<times> window_emission list res" where
  "apply_windows a pk c cl w tr [] ems = (a, Inr ems)"
| "apply_windows a pk c cl w tr (s # ss) ems =
     (case apply_window a pk c cl w tr s of
        (a', Inl e) \<Rightarrow> (a', Inl e)
      | (a', Inr es) \<Rightarrow> apply_windows a' pk c cl w tr ss (ems @ es))"

definition emission_key :: "window_emission \<Rightarrow> int \<times> bool" where
  "emission_key e = (we_window_start e, we_is_repair e)"

definition agg_observe ::
  "'st window_aggregator \<Rightarrow> string \<Rightarrow> datetime \<Rightarrow> pyval \<Rightarrow> event_classification \<Rightarrow> datetime \<Rightarrow>
     string option \<Rightarrow> 'st window_aggregator \<times> window_emission list res" where
  "agg_observe a pk event_timestamp contribution classification watermark trace_id =
     (if pk = [] then (a, Inl (ValueError ''partition_key must be non-empty''))
      else if \<not> aware event_timestamp
        then (a, Inl (ValueError ''event_timestamp must be timezone-aware''))
      else if \<not> aware watermark then (a, Inl (ValueError ''watermark must be timezone-aware''))
      else if classification = LATE_DROPPED then close_eligible_windows a pk watermark
      else
        case apply_windows a pk contribution classification (instant watermark) trace_id
               (windows_containing (wa_spec a) event_timestamp) [] of
          (a', Inl e) \<Rightarrow> (a', Inl e)
        | (a', Inr repairs) \<Rightarrow>
            (case close_eligible_windows a' pk watermark of
               (a'', Inl e) \<Rightarrow> (a'', Inl e)
             | (a'', Inr closures) \<Rightarrow> (a'', Inr (sort_key emission_key (repairs @ closures)))))"

definition open_window_count :: "'st window_aggregator \<Rightarrow> string \<Rightarrow> nat" where
  "open_window_count a pk = length (dict_get_default (wa_open_starts a) pk [])"

subsection \<open>Window assignment\<close>

text \<open>
  The newest window start is computed in floating point. For timestamps less than
  \<open>2 ^ 52\<close> microseconds from the epoch (until the year 2112) the two roundings never move
  the quotient across an integer, so the result is the exact floor.
\<close>

definition stamp_ok :: "datetime \<Rightarrow> bool" where
  "stamp_ok d \<longleftrightarrow> aware d \<and> \<bar>instant d\<bar> < 2 ^ 52"

lemma rounded_quotient_upper:
  fixes q s :: rat
  assumes s: "0 < s" and q: "\<bar>q\<bar> \<le> (2 ^ 52 - 1) / 1000000"
  shows "fl (fl q / s) < q / s + 1 / (1000000 * s)"
proof -
  let ?u = "1 / 2 ^ 53 :: rat"
  have alg: "(q + Q * u) / s + (Q * (1 + u) / s) * u = q / s + Q * (2 * u + u * u) / s" for Q u
    using s by (simp add: field_simps)
  have e: "\<bar>fl r - r\<bar> \<le> \<bar>r\<bar> * ?u" for r
    using fl_error [of r] by (simp only: times_divide_eq_right mult_1_right)
  have x: "fl q \<le> q + \<bar>q\<bar> * ?u" "\<bar>fl q\<bar> \<le> \<bar>q\<bar> * (1 + ?u)"
    using e [of q] by (simp_all only: distrib_left mult_1_right)
  have "fl (fl q / s) \<le> fl q / s + \<bar>fl q / s\<bar> * ?u"
    using e [of "fl q / s"] by linarith
  also have "\<dots> \<le> (q + \<bar>q\<bar> * ?u) / s + (\<bar>q\<bar> * (1 + ?u) / s) * ?u"
  proof (intro add_mono mult_right_mono)
    show "fl q / s \<le> (q + \<bar>q\<bar> * ?u) / s" using x(1) s by (intro divide_right_mono) auto
    have "\<bar>fl q / s\<bar> = \<bar>fl q\<bar> / s" using s by (simp add: abs_divide)
    also have "\<dots> \<le> \<bar>q\<bar> * (1 + ?u) / s" using x(2) s by (intro divide_right_mono) auto
    finally show "\<bar>fl q / s\<bar> \<le> \<bar>q\<bar> * (1 + ?u) / s" .
  qed simp
  also have "\<dots> = q / s + \<bar>q\<bar> * (2 * ?u + ?u * ?u) / s" by (rule alg)
  also have "\<dots> < q / s + 1 / (1000000 * s)"
  proof -
    have "\<bar>q\<bar> * (2 * ?u + ?u * ?u) \<le> (2 ^ 52 - 1) / 1000000 * (2 * ?u + ?u * ?u)"
      using q by (intro mult_right_mono) auto
    also have "\<dots> < 1 / 1000000" by simp
    finally have "\<bar>q\<bar> * (2 * ?u + ?u * ?u) / s < (1 / 1000000) / s"
      using s by (rule divide_strict_right_mono)
    then show ?thesis by simp
  qed
  finally show ?thesis .
qed

lemma floor_quotient_exact:
  assumes N: "\<bar>N\<bar> < 2 ^ 52" and s: "0 < s" "s \<le> 2 ^ 52"
  shows "\<lfloor>fl (true_div N 1000000 / fl (of_int s))\<rfloor> = N div (1000000 * s)"
proof -
  let ?D = "1000000 * s"
  let ?k = "N div ?D"
  let ?q = "of_int N / 1000000 :: rat"
  have D: "0 < ?D" using s by simp
  have kl: "?k * ?D \<le> N" and ku: "N \<le> (?k + 1) * ?D - 1"
    using D minus_mod_eq_div_mult [of N ?D] pos_mod_bound [OF D, of N] pos_mod_sign [OF D, of N]
    by (simp_all add: algebra_simps minus_mod_eq_mult_div [symmetric])
  have fs: "fl (of_int s) = of_int s" using s by (intro fl_of_int) simp
  have ks: "\<bar>?k * s\<bar> \<le> 2 ^ 53"
  proof -
    have "1000000 * (?k * s) \<le> N" "N - ?D < 1000000 * (?k * s)"
      using kl ku by (simp_all add: algebra_simps)
    then show ?thesis using N s by (simp add: abs_le_iff abs_less_iff)
  qed
  have k: "\<bar>?k\<bar> \<le> 2 ^ 53"
  proof -
    have "\<bar>?k\<bar> * 1 \<le> \<bar>?k\<bar> * s" using s by (intro mult_left_mono) auto
    then show ?thesis using ks s by (simp add: abs_mult)
  qed
  have "of_int (?k * s) \<le> ?q"
    using of_int_le_iff [where 'a = rat, THEN iffD2, OF kl] by (simp add: field_simps)
  from fl_mono [OF this] have "of_int (?k * s) \<le> fl ?q" by (simp only: fl_of_int [OF ks])
  then have "of_int ?k \<le> fl ?q / of_int s" using s by (simp add: pos_le_divide_eq)
  from fl_mono [OF this] have lo: "of_int ?k \<le> fl (fl ?q / of_int s)" by (simp only: fl_of_int [OF k])
  have "\<bar>?q\<bar> \<le> (2 ^ 52 - 1) / 1000000"
  proof -
    have "\<bar>N\<bar> \<le> 2 ^ 52 - 1" using N by simp
    then have "of_int \<bar>N\<bar> \<le> (of_int (2 ^ 52 - 1) :: rat)" by (simp only: of_int_le_iff)
    then show ?thesis by (simp add: divide_right_mono)
  qed
  from rounded_quotient_upper [OF _ this, of "of_int s"] s
  have "fl (fl ?q / of_int s) < ?q / of_int s + 1 / (1000000 * of_int s)" by simp
  also have "\<dots> = of_int (N + 1) / of_int ?D" using s by (simp add: field_simps)
  also have "\<dots> \<le> of_int ((?k + 1) * ?D) / of_int ?D"
  proof (intro divide_right_mono)
    have "N + 1 \<le> (?k + 1) * ?D" using ku by linarith
    then show "of_int (N + 1) \<le> (of_int ((?k + 1) * ?D) :: rat)" by (simp only: of_int_le_iff)
    show "(0 :: rat) \<le> of_int ?D" using s by simp
  qed
  also have "\<dots> = of_int (?k + 1)" using D by simp
  finally have hi: "fl (fl ?q / of_int s) < of_int ?k + 1" by simp
  show ?thesis
    using lo hi by (simp add: true_div_def fs floor_eq_iff)
qed

lemma windows_containing_exact:
  assumes "stamp_ok d" and "spec_ok sp" and "slide_seconds sp \<le> 2 ^ 52"
  shows "set (windows_containing sp d) =
      {s. spec_slide sp dvd s \<and> s \<le> instant d \<and> instant d < s + spec_size sp}"
    and "sorted (windows_containing sp d)" and "distinct (windows_containing sp d)"
proof -
  let ?t = "instant d" and ?sl = "slide_seconds sp"
  let ?D = "1000000 * ?sl" and ?n = "size_seconds sp div ?sl"
  let ?f = "\<lambda>k. seconds (?t div ?D * ?sl - int k * ?sl)"
  have sl: "0 < ?sl" and n: "size_seconds sp = ?n * ?sl" "0 \<le> ?n"
    using assms(2) by (auto simp: spec_ok_def pos_imp_zdiv_nonneg_iff)
  have w: "windows_containing sp d =
      sort (filter (\<lambda>s. s \<le> ?t \<and> ?t < s + spec_size sp) (map ?f [0..<nat ?n]))"
    using floor_quotient_exact [of ?t ?sl] assms sl
    by (simp add: windows_containing_def Let_def stamp_ok_def)
  show "sorted (windows_containing sp d)" by (simp add: w)
  have "inj_on ?f (set [0..<nat ?n])" using sl by (auto simp: inj_on_def)
  then show "distinct (windows_containing sp d)" by (simp add: w distinct_map)
  have "s \<in> ?f ` {0..<nat ?n} \<longleftrightarrow> ?D dvd s"
    if "s \<le> ?t" "?t < s + spec_size sp" for s
  proof
    assume "s \<in> ?f ` {0..<nat ?n}"
    then show "?D dvd s" by (auto simp: left_diff_distrib [symmetric] mult.commute mult.left_commute)
  next
    assume "?D dvd s"
    then obtain j where j: "s = ?D * j" by (rule dvdE)
    have D: "0 < ?D" using sl by simp
    have "j \<le> ?t div ?D"
      using that(1) j D by (simp only: mult_le_iff_le_div)
    moreover have "?t div ?D < j + ?n"
    proof -
      have "?t < ?D * (j + ?n)" using that(2) n(1) unfolding j spec_size_def by (simp add: algebra_simps)
      then show ?thesis using D by (simp only: less_mult_iff_div_less)
    qed
    ultimately have f: "s = ?f (nat (?t div ?D - j))" and i: "nat (?t div ?D - j) < nat ?n"
      using j by (simp_all add: algebra_simps)
    show "s \<in> ?f ` {0..<nat ?n}" 
      by (rule image_eqI [where f = ?f, OF f]) (use i in simp)
  qed
  then show "set (windows_containing sp d) =
      {s. spec_slide sp dvd s \<and> s \<le> ?t \<and> ?t < s + spec_size sp}"
    by (auto simp: w spec_slide_def mult.commute)
qed

subsection \<open>Invariant\<close>

definition win :: "'st window_aggregator \<Rightarrow> string \<Rightarrow> int \<Rightarrow> 'st window_state option" where
  "win a pk s = dict_get (wa_states a) (pk, s)"

definition open_list :: "'st window_aggregator \<Rightarrow> string \<Rightarrow> int list" where
  "open_list a pk = dict_get_default (wa_open_starts a) pk []"

definition wa_inv :: "'st window_aggregator \<Rightarrow> bool" where
  "wa_inv a \<longleftrightarrow> spec_ok (wa_spec a) \<and> 0 \<le> wa_lateness a \<and>
     (\<forall>pk. sorted (open_list a pk) \<and> distinct (open_list a pk) \<and>
       (\<forall>s. s \<in> set (open_list a pk) \<longleftrightarrow> win a pk s \<noteq> None))"

definition same_config :: "'st window_aggregator \<Rightarrow> 'st window_aggregator \<Rightarrow> bool" where
  "same_config a b \<longleftrightarrow> wa_spec a = wa_spec b \<and> wa_agg a = wa_agg b \<and> wa_lateness a = wa_lateness b"

lemma same_config_refl [simp]: "same_config a a"
  by (simp add: same_config_def)

lemma same_config_trans: "same_config a b \<Longrightarrow> same_config b c \<Longrightarrow> same_config a c"
  by (simp add: same_config_def)

lemma emission_of_config: "same_config a b \<Longrightarrow> emission_of a pk s r st = emission_of b pk s r st"
  by (simp add: same_config_def emission_of_def)

lemma wa_invI:
  assumes "spec_ok (wa_spec a)" and "0 \<le> wa_lateness a"
    and "\<And>pk. sorted (open_list a pk)" and "\<And>pk. distinct (open_list a pk)"
    and "\<And>pk s. s \<in> set (open_list a pk) \<longleftrightarrow> win a pk s \<noteq> None"
  shows "wa_inv a"
  using assms by (auto simp: wa_inv_def)

lemma wa_invD:
  assumes "wa_inv a"
  shows "spec_ok (wa_spec a)" "0 \<le> wa_lateness a" "sorted (open_list a pk)" "distinct (open_list a pk)"
    "s \<in> set (open_list a pk) \<longleftrightarrow> win a pk s \<noteq> None"
  using assms unfolding wa_inv_def by blast+

lemma win_set_state [simp]:
  "win (a\<lparr>wa_states := dict_set (pk, s) st (wa_states a)\<rparr>) pk' s' =
     (if pk' = pk \<and> s' = s then Some st else win a pk' s')"
  by (simp add: win_def)

lemma win_del_state [simp]:
  "win (a\<lparr>wa_states := dict_del (pk, s) (wa_states a)\<rparr>) pk' s' =
     (if pk' = pk \<and> s' = s then None else win a pk' s')"
  by (simp add: win_def)

lemma open_list_states [simp]: "open_list (a\<lparr>wa_states := d\<rparr>) = open_list a"
  by (simp add: open_list_def fun_eq_iff)

lemma win_open_starts [simp]: "win (a\<lparr>wa_open_starts := d\<rparr>) = win a"
  by (simp add: win_def fun_eq_iff)

lemma wa_inv_update_state:
  "wa_inv a \<Longrightarrow> win a pk s \<noteq> None \<Longrightarrow> wa_inv (a\<lparr>wa_states := dict_set (pk, s) st (wa_states a)\<rparr>)"
  by (intro wa_invI) (auto dest: wa_invD)

text \<open>Adding a new window keeps the list of open starts sorted and in step with the states.\<close>

definition add_window :: "'st window_aggregator \<Rightarrow> string \<Rightarrow> int \<Rightarrow> 'st window_state \<Rightarrow> 'st window_aggregator" where
  "add_window a pk s st =
     a\<lparr>wa_states := dict_set (pk, s) st (wa_states a),
       wa_open_starts := dict_set pk (insort s (dict_get_default (wa_open_starts a) pk [])) (wa_open_starts a)\<rparr>"

lemma win_add_window [simp]:
  "win (add_window a pk s st) pk' s' = (if pk' = pk \<and> s' = s then Some st else win a pk' s')"
  by (simp add: add_window_def win_def)

lemma open_list_add_window [simp]:
  "open_list (add_window a pk s st) pk' = (if pk' = pk then insort s (open_list a pk) else open_list a pk')"
  by (simp add: add_window_def open_list_def dict_get_default_def)

lemma config_add_window [simp]: "same_config (add_window a pk s st) a"
  by (simp add: add_window_def same_config_def)

lemma wa_inv_add_window: "wa_inv a \<Longrightarrow> win a pk s = None \<Longrightarrow> wa_inv (add_window a pk s st)"
proof -
  assume inv: "wa_inv a" and new: "win a pk s = None"
  show ?thesis
  proof (rule wa_invI)
    fix pk'
    show "sorted (open_list (add_window a pk s st) pk')"
      using wa_invD(3) [OF inv] by (simp add: sorted_insort)
    show "distinct (open_list (add_window a pk s st) pk')"
      using wa_invD(4,5) [OF inv] new by simp
    fix s'
    show "s' \<in> set (open_list (add_window a pk s st) pk') \<longleftrightarrow> win (add_window a pk s st) pk' s' \<noteq> None"
      using wa_invD(5) [OF inv] by (auto simp: set_insort_key)
  qed (use wa_invD(1,2) [OF inv] in \<open>simp_all add: add_window_def\<close>)
qed

text \<open>The state a new window starts from.\<close>

definition fresh_state :: "'st aggregation \<Rightarrow> 'st window_state" where
  "fresh_state ag = \<lparr>ws_state = agg_initial ag, ws_event_count = 0, ws_has_emitted = False, ws_last_trace = None\<rparr>"

lemma apply_window_alt:
  "apply_window a pk c cl w tr s =
     (case win a pk s of
        None \<Rightarrow> (if w > s + spec_size (wa_spec a) + wa_lateness a then (a, Inr [])
                 else contribute (add_window a pk s (fresh_state (wa_agg a))) pk s
                        (fresh_state (wa_agg a)) c cl tr)
      | Some st \<Rightarrow> contribute a pk s st c cl tr)"
  by (simp add: apply_window_def win_def add_window_def fresh_state_def Let_def split: option.split)

lemma contribute_inv:
  "wa_inv a \<Longrightarrow> win a pk s \<noteq> None \<Longrightarrow> wa_inv (fst (contribute a pk s st c cl tr))"
  by (auto simp: contribute_def Let_def wa_inv_update_state split: sum.split)

lemma contribute_config: "same_config (fst (contribute a pk s st c cl tr)) a"
  by (auto simp: contribute_def Let_def same_config_def split: sum.split)

lemma apply_window_inv: "wa_inv a \<Longrightarrow> wa_inv (fst (apply_window a pk c cl w tr s))"
  by (auto simp: apply_window_alt intro!: contribute_inv wa_inv_add_window split: option.split)

lemma apply_window_config: "same_config (fst (apply_window a pk c cl w tr s)) a"
  unfolding apply_window_alt
  by (auto intro: contribute_config same_config_trans [OF contribute_config config_add_window]
      split: option.split)

lemma apply_windows_inv_config:
  "wa_inv a \<Longrightarrow> wa_inv (fst (apply_windows a pk c cl w tr ss ems)) \<and>
     same_config (fst (apply_windows a pk c cl w tr ss ems)) a"
proof (induction ss arbitrary: a ems)
  case (Cons s ss)
  obtain a' r where r: "apply_window a pk c cl w tr s = (a', r)" by (cases "apply_window a pk c cl w tr s")
  have "wa_inv a'" "same_config a' a"
    using apply_window_inv [OF Cons.prems, of pk c cl w tr s] apply_window_config [of a pk c cl w tr s]
    by (simp_all add: r)
  then show ?case
    using Cons.IH [of a'] by (auto simp: r split: sum.split intro: same_config_trans)
qed simp

subsection \<open>Closing windows\<close>

definition closes :: "'st window_aggregator \<Rightarrow> string \<Rightarrow> int \<Rightarrow> int \<Rightarrow> bool" where
  "closes a pk w s \<longleftrightarrow>
     (case win a pk s of None \<Rightarrow> False | Some st \<Rightarrow> \<not> ws_has_emitted st \<and> s + spec_size (wa_spec a) \<le> w)"

definition sealed :: "'st window_aggregator \<Rightarrow> int \<Rightarrow> int \<Rightarrow> bool" where
  "sealed a w s \<longleftrightarrow> s + spec_size (wa_spec a) + wa_lateness a < w"

definition closed_state :: "'st window_aggregator \<Rightarrow> int \<Rightarrow> int \<Rightarrow> 'st window_state \<Rightarrow> 'st window_state option" where
  "closed_state a w s st =
     (if sealed a w s then None
      else Some (st\<lparr>ws_has_emitted := ws_has_emitted st \<or> s + spec_size (wa_spec a) \<le> w\<rparr>))"

definition closures :: "'st window_aggregator \<Rightarrow> string \<Rightarrow> int \<Rightarrow> int list \<Rightarrow> window_emission list" where
  "closures a pk w ss = map (\<lambda>s. emission_of a pk s False (the (win a pk s))) (filter (closes a pk w) ss)"

lemma closed_state_config: "same_config a b \<Longrightarrow> closed_state a = closed_state b"
  by (simp add: closed_state_def sealed_def same_config_def fun_eq_iff)

lemma closures_cong:
  assumes "same_config a b" and "\<And>s. s \<in> set ss \<Longrightarrow> win a pk s = win b pk s"
  shows "closures a pk w ss = closures b pk w ss"
proof -
  have "filter (closes a pk w) ss = filter (closes b pk w) ss"
    using assms by (intro filter_cong refl) (simp add: closes_def same_config_def split: option.split)
  then show ?thesis
    using assms by (simp add: closures_def emission_of_config)
qed

lemma close_loop_spec:
  assumes "\<forall>s \<in> set ss. win a pk s \<noteq> None" and "distinct ss"
  shows "\<exists>a'. close_loop a pk w ss ems kept =
        (a', Inr (ems @ closures a pk w ss, kept @ filter (\<lambda>s. \<not> sealed a w s) ss)) \<and>
      same_config a' a \<and> open_list a' = open_list a \<and> wa_open_starts a' = wa_open_starts a \<and>
      (\<forall>pk' s. win a' pk' s =
         (if pk' = pk \<and> s \<in> set ss then closed_state a w s (the (win a pk s)) else win a pk' s))"
  using assms
proof (induction ss arbitrary: a ems kept)
  case Nil
  then show ?case by (simp add: closures_def)
next
  case (Cons s ss)
  obtain st where st: "win a pk s = Some st" using Cons.prems(1) by auto
  let ?cl = "closes a pk w s"
  let ?a1 = "a\<lparr>wa_states := dict_set (pk, s) (if ?cl then st\<lparr>ws_has_emitted := True\<rparr> else st) (wa_states a)\<rparr>"
  let ?a2 = "if sealed a w s then ?a1\<lparr>wa_states := dict_del (pk, s) (wa_states ?a1)\<rparr> else ?a1"
  let ?ems = "if ?cl then ems @ [emission_of a pk s False st] else ems"
  let ?kept = "if sealed a w s then kept else kept @ [s]"
  have step: "close_loop a pk w (s # ss) ems kept = close_loop ?a2 pk w ss ?ems ?kept"
    using st by (auto simp: win_def closes_def sealed_def Let_def)
  have cfg: "same_config ?a2 a" by (simp add: same_config_def)
  have w2: "win ?a2 pk' s' = (if pk' = pk \<and> s' = s then closed_state a w s st else win a pk' s')" for pk' s'
    using st by (auto simp: win_def closed_state_def closes_def)
  have rest: "win ?a2 pk s' = win a pk s'" if "s' \<in> set ss" for s'
    using w2 that Cons.prems(2) by auto
  from Cons.IH [of ?a2 ?ems ?kept] rest Cons.prems obtain a' where
    a': "close_loop ?a2 pk w ss ?ems ?kept =
        (a', Inr (?ems @ closures ?a2 pk w ss, ?kept @ filter (\<lambda>s. \<not> sealed ?a2 w s) ss))"
      "same_config a' ?a2" "open_list a' = open_list ?a2" "wa_open_starts a' = wa_open_starts ?a2"
      "\<forall>pk' s. win a' pk' s =
         (if pk' = pk \<and> s \<in> set ss then closed_state ?a2 w s (the (win ?a2 pk s)) else win ?a2 pk' s)"
    by auto
  have c: "closures ?a2 pk w ss = closures a pk w ss" by (rule closures_cong [OF cfg rest])
  have sl: "sealed ?a2 w = sealed a w" by (simp add: sealed_def fun_eq_iff)
  have cs: "closed_state ?a2 = closed_state a" by (rule closed_state_config [OF cfg])
  show ?case
  proof (intro exI conjI allI)
    show "close_loop a pk w (s # ss) ems kept =
        (a', Inr (ems @ closures a pk w (s # ss), kept @ filter (\<lambda>s. \<not> sealed a w s) (s # ss)))"
      unfolding step a'(1) c sl by (simp add: closures_def st)
    show "same_config a' a" by (rule same_config_trans [OF a'(2) cfg])
    show "open_list a' = open_list a" "wa_open_starts a' = wa_open_starts a" using a'(3,4) by auto
    fix pk' s'
    show "win a' pk' s' = (if pk' = pk \<and> s' \<in> set (s # ss)
        then closed_state a w s' (the (win a pk s')) else win a pk' s')"
      using a'(5) w2 rest cs st Cons.prems(2) by auto
  qed
qed

lemma open_list_set_open:
  "open_list (a\<lparr>wa_open_starts := (if kept \<noteq> [] then dict_set pk kept (wa_open_starts a)
       else dict_del pk (wa_open_starts a))\<rparr>) pk' = (if pk' = pk then kept else open_list a pk')"
  by (simp add: open_list_def dict_get_default_def)

lemma close_eligible_spec:
  assumes inv: "wa_inv a"
  shows "\<exists>a'. close_eligible_windows a pk watermark =
        (a', Inr (closures a pk (instant watermark) (open_list a pk))) \<and>
      same_config a' a \<and> wa_inv a' \<and>
      (\<forall>pk' s. win a' pk' s =
         (if pk' = pk then Option.bind (win a pk s) (closed_state a (instant watermark) s) else win a pk' s))"
proof -
  let ?w = "instant watermark" and ?ss = "open_list a pk"
  note I = wa_invD [OF inv]
  obtain a1 where a1: "close_loop a pk ?w ?ss [] [] =
        (a1, Inr (closures a pk ?w ?ss, filter (\<lambda>s. \<not> sealed a ?w s) ?ss))"
      "same_config a1 a" "open_list a1 = open_list a" "wa_open_starts a1 = wa_open_starts a"
      "\<And>pk' s. win a1 pk' s =
         (if pk' = pk \<and> s \<in> set ?ss then closed_state a ?w s (the (win a pk s)) else win a pk' s)"
    using close_loop_spec [of ?ss a pk ?w "[]" "[]"] I(4,5) by auto
  let ?kept = "filter (\<lambda>s. \<not> sealed a ?w s) ?ss"
  let ?a' = "if ?ss = [] then a else
     a1\<lparr>wa_open_starts := (if ?kept \<noteq> [] then dict_set pk ?kept (wa_open_starts a1)
          else dict_del pk (wa_open_starts a1))\<rparr>"
  have eq: "close_eligible_windows a pk watermark = (?a', Inr (closures a pk ?w ?ss))"
    using a1(1) by (simp add: close_eligible_windows_def open_list_def [symmetric] closures_def Let_def)
  have ol: "open_list ?a' pk' = (if pk' = pk then ?kept else open_list a pk')" for pk'
    using a1(3) by (cases "?ss = []") (simp_all add: open_list_set_open)
  have w: "win ?a' pk' s = (if pk' = pk then Option.bind (win a pk s) (closed_state a ?w s) else win a pk' s)"
    for pk' s
    using a1(5) [of pk' s] I(5) [where s = s and pk = pk] by (cases "?ss = []") (auto simp: bind_eq_None_conv)
  have cfg: "same_config ?a' a" using a1(2) by (simp add: same_config_def)
  have "wa_inv ?a'"
  proof (rule wa_invI)
    show "spec_ok (wa_spec ?a')" "0 \<le> wa_lateness ?a'" using cfg I(1,2) by (simp_all add: same_config_def)
    fix pk'
    show "sorted (open_list ?a' pk')" "distinct (open_list ?a' pk')"
      using I(3,4) unfolding ol by (simp_all add: sorted_wrt_filter)
    fix s
    show "s \<in> set (open_list ?a' pk') \<longleftrightarrow> win ?a' pk' s \<noteq> None"
      unfolding ol w using I(5) [where s = s and pk = pk'] by (auto simp: closed_state_def bind_eq_None_conv)
  qed
  with eq cfg w show ?thesis by blast
qed

subsection \<open>One observation\<close>

lemma agg_observe_inv_config:
  assumes "wa_inv a"
  shows "wa_inv (fst (agg_observe a pk t c cl w tr)) \<and> same_config (fst (agg_observe a pk t c cl w tr)) a"
proof -
  have close: "wa_inv (fst (close_eligible_windows b pk w)) \<and> same_config (fst (close_eligible_windows b pk w)) b"
    if "wa_inv b" for b
    using close_eligible_spec [OF that, of pk w] by auto
  show ?thesis
  proof (cases "pk = [] \<or> \<not> aware t \<or> \<not> aware w \<or> cl = LATE_DROPPED")
    case True
    then show ?thesis using assms close [OF assms] by (auto simp: agg_observe_def)
  next
    case False
    obtain a1 r where a1: "apply_windows a pk c cl (instant w) tr (windows_containing (wa_spec a) t) [] = (a1, r)"
      by fastforce
    have i1: "wa_inv a1" "same_config a1 a"
      using apply_windows_inv_config [OF assms, of pk c cl "instant w" tr "windows_containing (wa_spec a) t" "[]"]
      by (simp_all add: a1)
    obtain a2 r2 where a2: "close_eligible_windows a1 pk w = (a2, r2)" by fastforce
    then have "wa_inv a2" "same_config a2 a1" using close [OF i1(1)] by simp_all
    then show ?thesis
      using False i1 by (auto simp: agg_observe_def a1 a2 split: sum.split intro: same_config_trans)
  qed
qed

text \<open>
  Every observation keeps the aggregator consistent, whether it returns or raises
  (an aggregation that rejects the contribution included): the open starts of a key stay
  sorted, without duplicates, and are exactly the windows that have state.
\<close>

theorem agg_observe_keeps_invariant:
  "wa_inv a \<Longrightarrow> wa_inv (fst (agg_observe a pk t c cl w tr))"
  using agg_observe_inv_config by blast

lemma wa_inv_init: "window_aggregator_init sp ag n = Inr a \<Longrightarrow> spec_ok sp \<Longrightarrow> wa_inv a"
  by (auto simp: window_aggregator_init_def wa_inv_def open_list_def win_def dict_get_default_def
      split: if_splits)

theorem agg_observe_keeps_invariant_witness:
  "wa_inv (fst (agg_observe
     \<lparr>wa_spec = \<lparr>size_seconds = 60, slide_seconds = 15\<rparr>, wa_agg = SumAggregation, wa_lateness = seconds 60,
      wa_states = [], wa_open_starts = []\<rparr> ''s'' (UTC (seconds 72)) (PyStr ''x'') ON_TIME (UTC 0) None))"
  by (rule agg_observe_keeps_invariant)
    (simp add: wa_inv_def spec_ok_def open_list_def win_def dict_get_default_def)

text \<open>An aggregation that accepts every contribution.\<close>

definition agg_total :: "'st aggregation \<Rightarrow> bool" where
  "agg_total ag \<longleftrightarrow> (\<forall>s c. \<exists>s'. agg_combine ag s c = Inr s')"

definition agg_step :: "'st aggregation \<Rightarrow> 'st \<Rightarrow> pyval \<Rightarrow> 'st" where
  "agg_step ag s c = projr (agg_combine ag s c)"

lemma agg_total_combine: "agg_total ag \<Longrightarrow> agg_combine ag s c = Inr (agg_step ag s c)"
  unfolding agg_total_def agg_step_def by (metis sum.sel(2))

definition bump :: "'st aggregation \<Rightarrow> pyval \<Rightarrow> string option \<Rightarrow> 'st window_state option \<Rightarrow> 'st window_state" where
  "bump ag c tr ost =
     (let st = (case ost of None \<Rightarrow> fresh_state ag | Some st \<Rightarrow> st)
      in st\<lparr>ws_state := agg_step ag (ws_state st) c, ws_event_count := ws_event_count st + 1,
            ws_last_trace := tr\<rparr>)"

definition emitted :: "'st window_state option \<Rightarrow> bool" where
  "emitted ost = (case ost of None \<Rightarrow> False | Some st \<Rightarrow> ws_has_emitted st)"

definition repairs ::
  "'st window_aggregator \<Rightarrow> string \<Rightarrow> pyval \<Rightarrow> event_classification \<Rightarrow> string option \<Rightarrow> int list \<Rightarrow>
     window_emission list" where
  "repairs a pk c cl tr ss =
     map (\<lambda>s. emission_of a pk s True (bump (wa_agg a) c tr (win a pk s)))
       (filter (\<lambda>s. cl = LATE_TOLERATED \<and> emitted (win a pk s)) ss)"

lemma apply_window_spec:
  assumes inv: "wa_inv a" and tot: "agg_total (wa_agg a)" and ns: "\<not> sealed a w s"
  shows "\<exists>a'. apply_window a pk c cl w tr s = (a', Inr (repairs a pk c cl tr [s])) \<and>
      same_config a' a \<and> wa_inv a' \<and>
      (\<forall>pk' s'. win a' pk' s' =
         (if pk' = pk \<and> s' = s then Some (bump (wa_agg a) c tr (win a pk s)) else win a pk' s'))"
proof -
  obtain a' r where r: "apply_window a pk c cl w tr s = (a', r)" by fastforce
  have i: "wa_inv a'" "same_config a' a"
    using apply_window_inv [OF inv, of pk c cl w tr s] apply_window_config [of a pk c cl w tr s] by (simp_all add: r)
  have cfg: "wa_agg (add_window a pk s st) = wa_agg a" for st
    by (simp add: add_window_def)
  have "r = Inr (repairs a pk c cl tr [s])"
    using r ns tot
    by (auto simp: apply_window_alt contribute_def repairs_def bump_def emitted_def sealed_def Let_def cfg
        agg_total_combine emission_of_def fresh_state_def split: option.splits if_splits)
  moreover have "win a' pk' s' =
      (if pk' = pk \<and> s' = s then Some (bump (wa_agg a) c tr (win a pk s)) else win a pk' s')" for pk' s'
    using r ns tot
    by (auto simp: apply_window_alt contribute_def bump_def sealed_def Let_def cfg agg_total_combine
        split: option.splits if_splits)
  ultimately show ?thesis using r i by blast
qed

lemma sealed_config: "same_config a b \<Longrightarrow> sealed a = sealed b"
  by (simp add: sealed_def same_config_def fun_eq_iff)

lemma repairs_cong:
  assumes "same_config a b" and "\<And>s. s \<in> set ss \<Longrightarrow> win a pk s = win b pk s"
  shows "repairs a pk c cl tr ss = repairs b pk c cl tr ss"
proof -
  have ag: "wa_agg a = wa_agg b" using assms(1) by (simp add: same_config_def)
  have "filter (\<lambda>s. cl = LATE_TOLERATED \<and> emitted (win a pk s)) ss =
      filter (\<lambda>s. cl = LATE_TOLERATED \<and> emitted (win b pk s)) ss"
    using assms(2) by (intro filter_cong) auto
  then show ?thesis
    unfolding repairs_def ag
    by (rule map_cong) (simp add: assms(2) emission_of_config [OF assms(1)])
qed

lemma apply_windows_spec:
  assumes "wa_inv a" and "agg_total (wa_agg a)" and "distinct ss" and "\<forall>s \<in> set ss. \<not> sealed a w s"
  shows "\<exists>a'. apply_windows a pk c cl w tr ss ems = (a', Inr (ems @ repairs a pk c cl tr ss)) \<and>
      same_config a' a \<and> wa_inv a' \<and>
      (\<forall>pk' s. win a' pk' s =
         (if pk' = pk \<and> s \<in> set ss then Some (bump (wa_agg a) c tr (win a pk s)) else win a pk' s))"
  using assms
proof (induction ss arbitrary: a ems)
  case Nil
  then show ?case by (simp add: repairs_def)
next
  case (Cons s ss)
  from apply_window_spec [OF Cons.prems(1,2), of w s pk c cl tr] Cons.prems(4)
  obtain a1 where a1: "apply_window a pk c cl w tr s = (a1, Inr (repairs a pk c cl tr [s]))"
      "same_config a1 a" "wa_inv a1"
      "\<And>pk' s'. win a1 pk' s' =
         (if pk' = pk \<and> s' = s then Some (bump (wa_agg a) c tr (win a pk s)) else win a pk' s')"
    by auto
  have ag: "wa_agg a1 = wa_agg a" using a1(2) by (simp add: same_config_def)
  have ns: "\<forall>s \<in> set ss. \<not> sealed a1 w s" using Cons.prems(4) sealed_config [OF a1(2)] by simp
  have rest: "win a1 pk s' = win a pk s'" if "s' \<in> set ss" for s'
    using that Cons.prems(3) a1(4) by auto
  from Cons.IH [OF a1(3), of "ems @ repairs a pk c cl tr [s]"] Cons.prems(2,3) ns ag
  obtain a' where a': "apply_windows a1 pk c cl w tr ss (ems @ repairs a pk c cl tr [s]) =
        (a', Inr ((ems @ repairs a pk c cl tr [s]) @ repairs a1 pk c cl tr ss))"
      "same_config a' a1" "wa_inv a'"
      "\<forall>pk' s. win a' pk' s =
         (if pk' = pk \<and> s \<in> set ss then Some (bump (wa_agg a1) c tr (win a1 pk s)) else win a1 pk' s)"
    by auto
  have rep: "repairs a pk c cl tr [s] @ repairs a1 pk c cl tr ss = repairs a pk c cl tr (s # ss)"
  proof -
    have "repairs a1 pk c cl tr ss = repairs a pk c cl tr ss" by (rule repairs_cong [OF a1(2) rest])
    then show ?thesis by (simp add: repairs_def)
  qed
  have "apply_windows a pk c cl w tr (s # ss) ems = (a', Inr (ems @ repairs a pk c cl tr (s # ss)))"
    using a1(1) a'(1) rep by simp
  moreover have "\<forall>pk' s'. win a' pk' s' = (if pk' = pk \<and> s' \<in> set (s # ss)
      then Some (bump (wa_agg a) c tr (win a pk s')) else win a pk' s')"
    using a'(4) a1(4) rest ag Cons.prems(3) by auto
  ultimately show ?case using a'(2,3) a1(2) same_config_trans by blast
qed

text \<open>
  What one successful observation does, as a function of the windows before it: the
  event's windows are bumped, then the key's windows are closed or evicted.
\<close>

definition touch ::
  "'st window_aggregator \<Rightarrow> string \<Rightarrow> pyval \<Rightarrow> string option \<Rightarrow> int list \<Rightarrow> int \<Rightarrow> 'st window_state option" where
  "touch a pk c tr ss s = (if s \<in> set ss then Some (bump (wa_agg a) c tr (win a pk s)) else win a pk s)"

definition closing :: "'st window_aggregator \<Rightarrow> int \<Rightarrow> int \<Rightarrow> 'st window_state option \<Rightarrow> bool" where
  "closing a w s ost \<longleftrightarrow> ost \<noteq> None \<and> \<not> emitted ost \<and> s + spec_size (wa_spec a) \<le> w"

lemma closes_closing: "closes a pk w s = closing a w s (win a pk s)"
  by (auto simp: closes_def closing_def emitted_def split: option.split)

definition own :: "string \<Rightarrow> int \<Rightarrow> window_emission \<Rightarrow> bool" where
  "own pk s e \<longleftrightarrow> we_partition_key e = pk \<and> we_window_start e = s"

lemma own_emission_of [simp]: "own pk s (emission_of a pk' s' r st) \<longleftrightarrow> pk' = pk \<and> s' = s"
  by (simp add: own_def emission_of_def)

lemma filter_own_map:
  assumes "distinct ss"
  shows "filter (own pk s) (map (\<lambda>s. emission_of a pk' s r (f s)) (filter P ss)) =
     (if pk' = pk \<and> s \<in> set ss \<and> P s then [emission_of a pk' s r (f s)] else [])"
  using assms by (induction ss) (auto simp: filter_empty_conv)

lemma sort_key_short: "length xs \<le> 1 \<Longrightarrow> sort_key f xs = xs"
  by (cases xs) auto

lemma agg_observe_spec:
  assumes inv: "wa_inv a" and tot: "agg_total (wa_agg a)" and pk: "pk \<noteq> []" and t: "aware t" and w: "aware w"
    and ss: "ss = (if cl = LATE_DROPPED then [] else windows_containing (wa_spec a) t)" "distinct ss"
    and ns: "\<forall>s \<in> set ss. \<not> sealed a (instant w) s"
  shows "\<exists>a' ems. agg_observe a pk t c cl w tr = (a', Inr ems) \<and> same_config a' a \<and> wa_inv a' \<and>
      (\<forall>pk' s. win a' pk' s =
         (if pk' = pk then Option.bind (touch a pk c tr ss s) (closed_state a (instant w) s) else win a pk' s)) \<and>
      (\<forall>pk' s. filter (own pk' s) ems =
         (if pk' \<noteq> pk then []
          else if closing a (instant w) s (touch a pk c tr ss s)
            then [emission_of a pk s False (the (touch a pk c tr ss s))]
          else if s \<in> set ss \<and> cl = LATE_TOLERATED \<and> emitted (win a pk s)
            then [emission_of a pk s True (the (touch a pk c tr ss s))] else []))"
proof -
  obtain a1 where a1: "apply_windows a pk c cl (instant w) tr ss [] = (a1, Inr (repairs a pk c cl tr ss))"
      "same_config a1 a" "wa_inv a1"
      "\<And>pk' s. win a1 pk' s = (if pk' = pk then touch a pk c tr ss s else win a pk' s)"
    using apply_windows_spec [OF inv tot ss(2) ns, of pk c cl tr "[]"] by (auto simp: touch_def)
  obtain a' where a': "close_eligible_windows a1 pk w = (a', Inr (closures a1 pk (instant w) (open_list a1 pk)))"
      "same_config a' a1" "wa_inv a'"
      "\<And>pk' s. win a' pk' s =
         (if pk' = pk then Option.bind (win a1 pk s) (closed_state a1 (instant w) s) else win a1 pk' s)"
    using close_eligible_spec [OF a1(3), of pk w] by auto
  let ?all = "repairs a pk c cl tr ss @ closures a1 pk (instant w) (open_list a1 pk)"
  obtain ems where ems: "agg_observe a pk t c cl w tr = (a', Inr ems)"
      "\<And>P. filter P ems = filter P ?all \<or> filter P ems = sort_key emission_key (filter P ?all)"
  proof (cases "cl = LATE_DROPPED")
    case True
    then have "ss = []" "a1 = a" using ss(1) a1(1) by auto
    then show ?thesis using that [of "closures a1 pk (instant w) (open_list a1 pk)"] a' True pk t w
      by (simp add: agg_observe_def repairs_def)
  next
    case False
    then show ?thesis using that [of "sort_key emission_key ?all"] a1(1) a'(1) ss(1) pk t w
      by (simp add: agg_observe_def filter_sort)
  qed
  have cfg: "wa_spec a1 = wa_spec a" "wa_lateness a1 = wa_lateness a" "closed_state a1 = closed_state a"
      "emission_of a1 = emission_of a"
    using a1(2) closed_state_config [OF a1(2)] emission_of_config [OF a1(2)]
    by (simp_all add: same_config_def fun_eq_iff)
  have mem: "s \<in> set (open_list a1 pk) \<longleftrightarrow> touch a pk c tr ss s \<noteq> None" for s
    using wa_invD(5) [OF a1(3)] a1(4) by simp
  have cl1: "closes a1 pk (instant w) s = closing a (instant w) s (touch a pk c tr ss s)" for s
    by (simp add: closes_closing a1(4) closing_def cfg)
  have rep: "filter (own pk' s) (repairs a pk c cl tr ss) =
      (if pk' = pk \<and> s \<in> set ss \<and> cl = LATE_TOLERATED \<and> emitted (win a pk s)
       then [emission_of a pk s True (the (touch a pk c tr ss s))] else [])" for pk' s
    unfolding repairs_def filter_own_map [OF ss(2)] by (auto simp: touch_def)
  have clo: "filter (own pk' s) (closures a1 pk (instant w) (open_list a1 pk)) =
      (if pk' = pk \<and> closing a (instant w) s (touch a pk c tr ss s)
       then [emission_of a pk s False (the (touch a pk c tr ss s))] else [])" for pk' s
    unfolding closures_def filter_own_map [OF wa_invD(4) [OF a1(3)]] cl1 mem
    by (auto simp: a1(4) closing_def cfg)
  have excl: "\<not> closing a (instant w) s (touch a pk c tr ss s)" if "s \<in> set ss" "emitted (win a pk s)" for s
    using that by (auto simp: closing_def touch_def bump_def emitted_def Let_def split: option.splits)
  have "filter (own pk' s) ?all =
      (if pk' \<noteq> pk then []
          else if closing a (instant w) s (touch a pk c tr ss s)
            then [emission_of a pk s False (the (touch a pk c tr ss s))]
          else if s \<in> set ss \<and> cl = LATE_TOLERATED \<and> emitted (win a pk s)
            then [emission_of a pk s True (the (touch a pk c tr ss s))] else [])" for pk' s
    using excl [of s] by (auto simp: rep clo)
  note all = this
  have short: "length (filter (own pk' s) ?all) \<le> 1" for pk' s unfolding all by simp
  have e: "filter (own pk' s) ems = filter (own pk' s) ?all" for pk' s
    using ems(2) [of "own pk' s"] sort_key_short [OF short] by metis
  show ?thesis
  proof (intro exI conjI allI)
    show "agg_observe a pk t c cl w tr = (a', Inr ems)" "wa_inv a'" by fact+
    show "same_config a' a" by (rule same_config_trans [OF a'(2) a1(2)])
    fix pk' s
    show "win a' pk' s =
        (if pk' = pk then Option.bind (touch a pk c tr ss s) (closed_state a (instant w) s) else win a pk' s)"
      by (simp add: a'(4) a1(4) cfg)
  qed (simp only: e all)
qed

end
