(* ===== verification/Detectors.thy ===== *)
theory Detectors
  imports DeviceRegistry WindowAggregator
begin

text \<open>
  \<^verbatim>\<open>stream_pipeline/detection\<close>: the three detectors. A detector's callables (device
  extractor, store lookup, registered count) read other objects, so they are arguments of
  each observation; \<open>now\<close> is the clock reading that stamps a detection's ingestion and
  \<open>fresh\<close> the \<^verbatim>\<open>uuid4\<close> drawn for an emission without a trace. An observation that raises
  returns the state it has reached.
\<close>

subsection \<open>Detection types\<close>

definition DETECTION_TYPE_DEVICE_OFFLINE :: string where "DETECTION_TYPE_DEVICE_OFFLINE = ''device.offline''"
definition DETECTION_TYPE_DEVICE_ONLINE :: string where "DETECTION_TYPE_DEVICE_ONLINE = ''device.online''"
definition DETECTION_TYPE_STORE_OUTAGE :: string where "DETECTION_TYPE_STORE_OUTAGE = ''store.outage''"
definition DETECTION_TYPE_STORE_RECOVERED :: string where "DETECTION_TYPE_STORE_RECOVERED = ''store.recovered''"
definition DETECTION_TYPE_SIGNAL_ANOMALY :: string where "DETECTION_TYPE_SIGNAL_ANOMALY = ''signal.anomaly''"

lemmas detection_types =
  DETECTION_TYPE_DEVICE_OFFLINE_def DETECTION_TYPE_DEVICE_ONLINE_def DETECTION_TYPE_STORE_OUTAGE_def
  DETECTION_TYPE_STORE_RECOVERED_def DETECTION_TYPE_SIGNAL_ANOMALY_def

definition ALL_DETECTION_TYPES :: "string set" where
  "ALL_DETECTION_TYPES = {DETECTION_TYPE_DEVICE_OFFLINE, DETECTION_TYPE_DEVICE_ONLINE,
     DETECTION_TYPE_STORE_OUTAGE, DETECTION_TYPE_STORE_RECOVERED, DETECTION_TYPE_SIGNAL_ANOMALY}"

subsection \<open>Building a detection event\<close>

text \<open>The envelope every detector wraps its payload in.\<close>

definition make_detection ::
  "datetime \<Rightarrow> string \<Rightarrow> uuid \<Rightarrow> datetime \<Rightarrow> detection_payload \<Rightarrow> detection_event res" where
  "make_detection now source trace_id event_timestamp p =
     bind_res (detection_payload_init p) (\<lambda>payload.
     bind_res (event_metadata_init (sc_schema_version DetectionEvent) (sc_event_type DetectionEvent) source) (\<lambda>md.
       base_event_init DetectionEvent (derive ''event.detection'' [str_uuid (dp_detection_id p)]) (Some md)
         (trace_context_init 0 (Some trace_id) None INGESTION) event_timestamp now payload))"

text \<open>The trace of a detection that comes from an emission.\<close>

definition emission_trace :: "uuid \<Rightarrow> window_emission \<Rightarrow> uuid res" where
  "emission_trace fresh em =
     (case we_last_trace em of
        None \<Rightarrow> Inr fresh
      | Some s \<Rightarrow> (case uuid_of_str s of Inr u \<Rightarrow> Inr u | Inl e \<Rightarrow> Inl (ValidationError ''trace_id'')))"

definition window_parts :: "window_emission \<Rightarrow> string list" where
  "window_parts em = [str_datetime (UTC (we_window_start em)), str_datetime (UTC (we_window_end em))]"

definition window_details :: "window_emission \<Rightarrow> (string \<times> pyval) list" where
  "window_details em = [(''window_start'', PyStr (isoformat (UTC (we_window_start em)))),
     (''window_end'', PyStr (isoformat (UTC (we_window_end em))))]"

subsection \<open>Offline detector\<close>

datatype device_state = Seen | Offline

record offline_detector =
  od_threshold_seconds :: int
  od_last_seen :: "(uuid, datetime) dict"
  od_state :: "(uuid, device_state) dict"

definition offline_detector_init :: "int \<Rightarrow> offline_detector res" where
  "offline_detector_init threshold_seconds =
     (if threshold_seconds \<le> 0 then Inl (ValueError ''threshold_seconds must be > 0'')
      else Inr \<lparr>od_threshold_seconds = threshold_seconds, od_last_seen = [], od_state = []\<rparr>)"

definition offline_source :: string where "offline_source = ''stream-pipeline.offline_detector''"

text \<open>Subtraction of datetimes; mixing naive and aware ones raises.\<close>

definition dt_diff :: "datetime \<Rightarrow> datetime \<Rightarrow> timedelta res" where
  "dt_diff a b = (if aware a = aware b then Inr (instant a - instant b)
     else Inl (TypeError ''can't subtract offset-naive and offset-aware datetimes''))"

definition offline_build_detection ::
  "datetime \<Rightarrow> int \<Rightarrow> uuid \<Rightarrow> string \<Rightarrow> timedelta \<Rightarrow> event \<Rightarrow> detection_event res" where
  "offline_build_detection now threshold device_id store_id silent_for source_event =
     (let silent_seconds = \<lfloor>true_div silent_for 1000000\<rfloor>;
          detection_id = derive ''detection.device_offline''
            [store_id, str_uuid device_id, str_uuid (ev_event_id source_event)]
      in make_detection now offline_source (tc_trace_id (ev_trace source_event)) (ev_event_timestamp source_event)
           \<lparr>dp_detection_id = detection_id, dp_detection_type = DETECTION_TYPE_DEVICE_OFFLINE,
            dp_severity = WARNING, dp_detected_at = ev_event_timestamp source_event, dp_store_id = store_id,
            dp_device_id = Some device_id, dp_source_event_id = ev_event_id source_event,
            dp_threshold_breached = ''no events for '' @ show_int silent_seconds @ ''s (threshold '' @
              show_int threshold @ ''s)'',
            dp_details = [(''silent_seconds'', PyInt silent_seconds), (''threshold_seconds'', PyInt threshold)]\<rparr>)"

definition offline_build_recovery :: "datetime \<Rightarrow> uuid \<Rightarrow> string \<Rightarrow> event \<Rightarrow> detection_event res" where
  "offline_build_recovery now device_id store_id source_event =
     make_detection now offline_source (tc_trace_id (ev_trace source_event)) (ev_event_timestamp source_event)
       \<lparr>dp_detection_id = derive ''detection.device_online''
          [store_id, str_uuid device_id, str_uuid (ev_event_id source_event)],
        dp_detection_type = DETECTION_TYPE_DEVICE_ONLINE,
        dp_severity = INFO, dp_detected_at = ev_event_timestamp source_event, dp_store_id = store_id,
        dp_device_id = Some device_id, dp_source_event_id = ev_event_id source_event,
        dp_threshold_breached = ''device reporting again after silence'',
        dp_details = [(''recovered'', PyBool True)]\<rparr>"

text \<open>The silence scan over the known devices, in the order they were first seen.\<close>

fun offline_scan ::
  "datetime \<Rightarrow> (uuid \<Rightarrow> string option) \<Rightarrow> event \<Rightarrow> (uuid \<times> datetime) list \<Rightarrow> offline_detector \<Rightarrow>
     detection_event list \<Rightarrow> offline_detector \<times> detection_event list res" where
  "offline_scan now store_lookup ev [] det detections = (det, Inr detections)"
| "offline_scan now store_lookup ev ((d, seen_at) # rest) det detections =
     (case dict_get (od_state det) d of
        None \<Rightarrow> (det, Inl (KeyError (str_uuid d)))
      | Some st \<Rightarrow>
          if st \<noteq> Seen then offline_scan now store_lookup ev rest det detections
          else case dt_diff (ev_event_timestamp ev) seen_at of
              Inl e \<Rightarrow> (det, Inl e)
            | Inr silent \<Rightarrow>
                if silent \<le> seconds (od_threshold_seconds det)
                then offline_scan now store_lookup ev rest det detections
                else case store_lookup d of
                    None \<Rightarrow> offline_scan now store_lookup ev rest det detections
                  | Some store_id \<Rightarrow>
                      if store_id = [] then offline_scan now store_lookup ev rest det detections
                      else
                        let det' = det\<lparr>od_state := dict_set d Offline (od_state det)\<rparr> in
                        case offline_build_detection now (od_threshold_seconds det) d store_id silent ev of
                          Inl e \<Rightarrow> (det', Inl e)
                        | Inr x \<Rightarrow> offline_scan now store_lookup ev rest det' (detections @ [x]))"

definition offline_recovery ::
  "datetime \<Rightarrow> (uuid \<Rightarrow> string option) \<Rightarrow> event \<Rightarrow> uuid \<Rightarrow> device_state option \<Rightarrow> detection_event list res" where
  "offline_recovery now store_lookup ev device_id previous_state =
     (if previous_state = Some Offline
      then (case store_lookup device_id of
              None \<Rightarrow> Inr []
            | Some store_id \<Rightarrow>
                if store_id = [] then Inr []
                else bind_res (offline_build_recovery now device_id store_id ev) (\<lambda>x. Inr [x]))
      else Inr [])"

definition offline_observe_event ::
  "datetime \<Rightarrow> (event \<Rightarrow> uuid option res) \<Rightarrow> (uuid \<Rightarrow> string option) \<Rightarrow> offline_detector \<Rightarrow> event \<Rightarrow>
     offline_detector \<times> detection_event list res" where
  "offline_observe_event now device_id_extractor store_lookup det ev =
     (case device_id_extractor ev of
        Inl e \<Rightarrow> (det, Inl e)
      | Inr None \<Rightarrow> (det, Inr [])
      | Inr (Some device_id) \<Rightarrow>
          let previous_state = dict_get (od_state det) device_id;
              det1 = det\<lparr>od_last_seen := dict_set device_id (ev_event_timestamp ev) (od_last_seen det),
                         od_state := dict_set device_id Seen (od_state det)\<rparr>
          in case offline_recovery now store_lookup ev device_id previous_state of
               Inl e \<Rightarrow> (det1, Inl e)
             | Inr recovery \<Rightarrow>
                 (case offline_scan now store_lookup ev (od_last_seen det1) det1 [] of
                    (det2, Inl e) \<Rightarrow> (det2, Inl e)
                  | (det2, Inr detections) \<Rightarrow> (det2, Inr (recovery @ detections))))"

subsection \<open>Outage detector\<close>

record outage_detector =
  ot_threshold_ratio :: pyfloat
  ot_state :: "(string, unit) dict"

definition outage_detector_init :: "pyfloat \<Rightarrow> outage_detector res" where
  "outage_detector_init threshold_ratio =
     (if \<not> (0 < threshold_ratio \<and> threshold_ratio < 1)
      then Inl (ValueError (''threshold_ratio must be in the open interval (0.0, 1.0); got '' @
        show_float threshold_ratio))
      else Inr \<lparr>ot_threshold_ratio = threshold_ratio, ot_state = []\<rparr>)"

definition outage_source :: string where "outage_source = ''stream-pipeline.outage_detector''"

text \<open>\<^verbatim>\<open>max(0, registered - value)\<close>, an integer unless the value is a float.\<close>

definition offline_count_of :: "int \<Rightarrow> pyval \<Rightarrow> pyval res" where
  "offline_count_of registered value =
     (case value of
        PyInt i \<Rightarrow> Inr (PyInt (max 0 (registered - i)))
      | PyBool b \<Rightarrow> Inr (PyInt (max 0 (registered - (if b then 1 else 0))))
      | PyFloat x \<Rightarrow> (let d = fl (fl (of_int registered) - x) in Inr (if d > 0 then PyFloat d else PyInt 0))
      | v \<Rightarrow> Inl (TypeError (''unsupported operand type(s) for -: int and '' @ type_name v)))"

definition num_ratio :: "pyval \<Rightarrow> int \<Rightarrow> pyfloat" where
  "num_ratio v n = (case v of PyInt i \<Rightarrow> true_div i n | PyFloat x \<Rightarrow> fl (x / fl (of_int n)) | _ \<Rightarrow> 0)"

definition num_minus :: "int \<Rightarrow> pyval \<Rightarrow> pyval" where
  "num_minus n v = (case v of PyInt i \<Rightarrow> PyInt (n - i) | PyFloat x \<Rightarrow> PyFloat (fl (fl (of_int n) - x)) | _ \<Rightarrow> v)"

definition show_num :: "pyval \<Rightarrow> string" where
  "show_num v = (case v of PyInt i \<Rightarrow> show_int i | PyFloat x \<Rightarrow> show_float x | _ \<Rightarrow> [])"

definition percent :: "pyfloat \<Rightarrow> string" where
  "percent x = show_int (round_half_even (fl (x * 100)))"

definition outage_details ::
  "pyfloat \<Rightarrow> pyval \<Rightarrow> int \<Rightarrow> pyfloat \<Rightarrow> window_emission \<Rightarrow> (string \<times> pyval) list" where
  "outage_details threshold offline_count registered offline_ratio em =
     [(''offline_count'', offline_count), (''registered_count'', PyInt registered),
      (''offline_ratio'', PyFloat offline_ratio), (''threshold_ratio'', PyFloat threshold)] @ window_details em"

definition outage_build_detection ::
  "datetime \<Rightarrow> uuid \<Rightarrow> pyfloat \<Rightarrow> string \<Rightarrow> pyval \<Rightarrow> int \<Rightarrow> pyfloat \<Rightarrow> window_emission \<Rightarrow> detection_event res" where
  "outage_build_detection now fresh threshold store_id offline_count registered offline_ratio em =
     bind_res (emission_trace fresh em) (\<lambda>trace_id.
       make_detection now outage_source trace_id (UTC (we_window_end em))
         \<lparr>dp_detection_id = derive ''detection.store_outage'' (store_id # window_parts em),
          dp_detection_type = DETECTION_TYPE_STORE_OUTAGE, dp_severity = CRITICAL,
          dp_detected_at = UTC (we_window_end em), dp_store_id = store_id, dp_device_id = None,
          dp_source_event_id = derive ''source.store_outage'' (store_id # window_parts em),
          dp_threshold_breached = show_num offline_count @ '' of '' @ show_int registered @
            '' devices not reporting ('' @ percent offline_ratio @ ''% offline, threshold '' @ percent threshold @ ''%)'',
          dp_details = outage_details threshold offline_count registered offline_ratio em\<rparr>)"

definition outage_build_recovery ::
  "datetime \<Rightarrow> uuid \<Rightarrow> pyfloat \<Rightarrow> string \<Rightarrow> pyval \<Rightarrow> int \<Rightarrow> pyfloat \<Rightarrow> window_emission \<Rightarrow> detection_event res" where
  "outage_build_recovery now fresh threshold store_id offline_count registered offline_ratio em =
     bind_res (emission_trace fresh em) (\<lambda>trace_id.
       make_detection now outage_source trace_id (UTC (we_window_end em))
         \<lparr>dp_detection_id = derive ''detection.store_recovered'' (store_id # window_parts em),
          dp_detection_type = DETECTION_TYPE_STORE_RECOVERED, dp_severity = INFO,
          dp_detected_at = UTC (we_window_end em), dp_store_id = store_id, dp_device_id = None,
          dp_source_event_id = derive ''source.store_recovered'' (store_id # window_parts em),
          dp_threshold_breached = show_num (num_minus registered offline_count) @ '' of '' @ show_int registered @
            '' devices reporting ('' @ percent offline_ratio @ ''% offline, below threshold '' @ percent threshold @ ''%)'',
          dp_details = outage_details threshold offline_count registered offline_ratio em @
            [(''recovered'', PyBool True)]\<rparr>)"

definition outage_observe_emission ::
  "datetime \<Rightarrow> uuid \<Rightarrow> (string \<Rightarrow> int option) \<Rightarrow> outage_detector \<Rightarrow> window_emission \<Rightarrow>
     outage_detector \<times> detection_event list res" where
  "outage_observe_emission now fresh registered_count_lookup det em =
     (let store_id = we_partition_key em in
      case registered_count_lookup store_id of
        None \<Rightarrow> (det, Inr [])
      | Some registered \<Rightarrow>
          if registered = 0 then (det, Inr [])
          else case offline_count_of registered (we_value em) of
              Inl e \<Rightarrow> (det, Inl e)
            | Inr offline_count \<Rightarrow>
                let offline_ratio = num_ratio offline_count registered;
                    currently_in_outage = dict_get (ot_state det) store_id \<noteq> None
                in if offline_ratio > ot_threshold_ratio det
                   then if currently_in_outage then (det, Inr [])
                        else (det\<lparr>ot_state := dict_set store_id () (ot_state det)\<rparr>,
                              map_sum id (\<lambda>x. [x]) (outage_build_detection now fresh (ot_threshold_ratio det) store_id
                                offline_count registered offline_ratio em))
                   else if currently_in_outage
                        then (det\<lparr>ot_state := dict_del store_id (ot_state det)\<rparr>,
                              map_sum id (\<lambda>x. [x]) (outage_build_recovery now fresh (ot_threshold_ratio det) store_id
                                offline_count registered offline_ratio em))
                        else (det, Inr []))"

subsection \<open>Anomaly detector\<close>

datatype comparison = Above | Below

record anomaly_detector =
  an_threshold :: pyfloat
  an_comparison :: comparison
  an_signal_name :: string
  an_state :: "(string, unit) dict"

definition anomaly_detector_init :: "pyfloat \<Rightarrow> comparison \<Rightarrow> string \<Rightarrow> anomaly_detector" where
  "anomaly_detector_init threshold comparison signal_name =
     \<lparr>an_threshold = threshold, an_comparison = comparison, an_signal_name = signal_name, an_state = []\<rparr>"

definition anomaly_source :: string where "anomaly_source = ''stream-pipeline.anomaly_detector''"

definition anomaly_compare :: "anomaly_detector \<Rightarrow> pyfloat \<Rightarrow> bool" where
  "anomaly_compare det value = (case an_comparison det of Above \<Rightarrow> value > an_threshold det | Below \<Rightarrow> value < an_threshold det)"

definition comparison_word :: "comparison \<Rightarrow> string" where
  "comparison_word c = (case c of Above \<Rightarrow> ''above'' | Below \<Rightarrow> ''below'')"

definition anomaly_build_detection ::
  "datetime \<Rightarrow> uuid \<Rightarrow> anomaly_detector \<Rightarrow> string \<Rightarrow> pyfloat \<Rightarrow> window_emission \<Rightarrow> detection_event res" where
  "anomaly_build_detection now fresh det partition_key value em =
     bind_res (emission_trace fresh em) (\<lambda>trace_id.
       make_detection now anomaly_source trace_id (UTC (we_window_end em))
         \<lparr>dp_detection_id = derive ''detection.signal_anomaly'' (partition_key # an_signal_name det # window_parts em),
          dp_detection_type = DETECTION_TYPE_SIGNAL_ANOMALY, dp_severity = WARNING,
          dp_detected_at = UTC (we_window_end em), dp_store_id = partition_key, dp_device_id = None,
          dp_source_event_id = derive ''source.signal_anomaly'' (partition_key # an_signal_name det # window_parts em),
          dp_threshold_breached = an_signal_name det @ '' '' @ show_float value @ '' '' @
            comparison_word (an_comparison det) @ '' threshold '' @ show_float (an_threshold det),
          dp_details = [(''signal_name'', PyStr (an_signal_name det)), (''value'', PyFloat value),
            (''threshold'', PyFloat (an_threshold det)),
            (''comparison'', PyStr (comparison_word (an_comparison det)))] @ window_details em\<rparr>)"

definition anomaly_observe_emission ::
  "datetime \<Rightarrow> uuid \<Rightarrow> anomaly_detector \<Rightarrow> window_emission \<Rightarrow> anomaly_detector \<times> detection_event list res" where
  "anomaly_observe_emission now fresh det em =
     (case to_float (we_value em) of
        None \<Rightarrow> (det, Inl (TypeError (''float() argument must be a string or a real number, not '' @ type_name (we_value em))))
      | Some value \<Rightarrow>
          let partition_key = we_partition_key em;
              currently_anomalous = dict_get (an_state det) partition_key \<noteq> None
          in if anomaly_compare det value
             then if currently_anomalous then (det, Inr [])
                  else (det\<lparr>an_state := dict_set partition_key () (an_state det)\<rparr>,
                        map_sum id (\<lambda>x. [x]) (anomaly_build_detection now fresh det partition_key value em))
             else if currently_anomalous then (det\<lparr>an_state := dict_del partition_key (an_state det)\<rparr>, Inr [])
                  else (det, Inr []))"

subsection \<open>When a detection can be built\<close>

definition stamp_fits :: "datetime \<Rightarrow> datetime \<Rightarrow> bool" where
  "stamp_fits now ts \<longleftrightarrow> utc_ok ts \<and> aware now \<and> instant ts \<le> instant now + MAX_CLOCK_SKEW"

lemma literal_patterns [simp]:
  "SEMVER_PATTERN (sc_schema_version DetectionEvent)" "EVENT_TYPE_PATTERN (sc_event_type DetectionEvent)"
  "SOURCE_PATTERN offline_source" "SOURCE_PATTERN outage_source" "SOURCE_PATTERN anomaly_source"
  by code_simp+

lemma type_patterns [simp]:
  "dotted_words DETECTION_TYPE_DEVICE_OFFLINE" "dotted_words DETECTION_TYPE_DEVICE_ONLINE"
  "dotted_words DETECTION_TYPE_STORE_OUTAGE" "dotted_words DETECTION_TYPE_STORE_RECOVERED"
  "dotted_words DETECTION_TYPE_SIGNAL_ANOMALY"
  by code_simp+

lemma make_detection_ok:
  assumes "detection_payload_init p = Inr p" and "SOURCE_PATTERN src" and "stamp_fits now ts"
  shows "\<exists>ev. make_detection now src tr ts p = Inr ev \<and> ev_payload ev = p \<and> ev_event_timestamp ev = ts"
  using assms by (auto simp: make_detection_def event_metadata_init_Inr base_event_init_Inr inject_metadata_def
      stamp_fits_def utc_ok_aware)

definition emission_ok :: "datetime \<Rightarrow> window_emission \<Rightarrow> bool" where
  "emission_ok now em \<longleftrightarrow> we_partition_key em \<noteq> [] \<and> stamp_fits now (UTC (we_window_end em)) \<and>
     (\<forall>s. we_last_trace em = Some s \<longrightarrow> (\<exists>u. uuid_of_str s = Inr u))"

lemma emission_trace_ok: "emission_ok now em \<Longrightarrow> \<exists>u. emission_trace fresh em = Inr u"
  by (auto simp: emission_ok_def emission_trace_def split: option.split)

lemma outage_build_ok:
  assumes "emission_ok now em"
  shows "\<exists>ev. outage_build_detection now fresh th (we_partition_key em) oc n r em = Inr ev \<and>
      dp_detection_type (ev_payload ev) = DETECTION_TYPE_STORE_OUTAGE \<and> dp_store_id (ev_payload ev) = we_partition_key em"
    and "\<exists>ev. outage_build_recovery now fresh th (we_partition_key em) oc n r em = Inr ev \<and>
      dp_detection_type (ev_payload ev) = DETECTION_TYPE_STORE_RECOVERED \<and> dp_store_id (ev_payload ev) = we_partition_key em"
proof -
  obtain u where u: "emission_trace fresh em = Inr u" using emission_trace_ok [OF assms] by blast
  have b: "we_partition_key em \<noteq> []" "stamp_fits now (UTC (we_window_end em))" using assms by (auto simp: emission_ok_def)
  have mk: "\<exists>ev. make_detection now outage_source u (UTC (we_window_end em)) p = Inr ev \<and> ev_payload ev = p"
    if "detection_payload_init p = Inr p" for p
    using make_detection_ok [OF that literal_patterns(4) b(2)] by blast
  show "\<exists>ev. outage_build_detection now fresh th (we_partition_key em) oc n r em = Inr ev \<and>
      dp_detection_type (ev_payload ev) = DETECTION_TYPE_STORE_OUTAGE \<and> dp_store_id (ev_payload ev) = we_partition_key em"
    unfolding outage_build_detection_def u bind_res_simps
    by (rule exE [OF mk]) (use b in \<open>auto simp: detection_payload_init_Inr\<close>)
  show "\<exists>ev. outage_build_recovery now fresh th (we_partition_key em) oc n r em = Inr ev \<and>
      dp_detection_type (ev_payload ev) = DETECTION_TYPE_STORE_RECOVERED \<and> dp_store_id (ev_payload ev) = we_partition_key em"
    unfolding outage_build_recovery_def u bind_res_simps
    by (rule exE [OF mk]) (use b in \<open>auto simp: detection_payload_init_Inr\<close>)
qed

lemma anomaly_build_ok:
  assumes "emission_ok now em"
  shows "\<exists>ev. anomaly_build_detection now fresh det (we_partition_key em) v em = Inr ev \<and>
      dp_detection_type (ev_payload ev) = DETECTION_TYPE_SIGNAL_ANOMALY \<and> dp_store_id (ev_payload ev) = we_partition_key em"
proof -
  obtain u where u: "emission_trace fresh em = Inr u" using emission_trace_ok [OF assms] by blast
  have b: "we_partition_key em \<noteq> []" "stamp_fits now (UTC (we_window_end em))" using assms by (auto simp: emission_ok_def)
  have mk: "\<exists>ev. make_detection now anomaly_source u (UTC (we_window_end em)) p = Inr ev \<and> ev_payload ev = p"
    if "detection_payload_init p = Inr p" for p
    using make_detection_ok [OF that literal_patterns(5) b(2)] by blast
  show ?thesis
    unfolding anomaly_build_detection_def u bind_res_simps
    by (rule exE [OF mk]) (use b in \<open>auto simp: detection_payload_init_Inr\<close>)
qed

subsection \<open>Detectors that report edges\<close>

text \<open>
  A detector of this kind keeps one bit per key. An observation sets the bit of its key to
  whether the condition holds (or leaves it, when the condition cannot be evaluated) and
  reports a change: a rising edge always, a falling edge when it announces recovery.
\<close>

fun edge :: "bool \<Rightarrow> bool \<Rightarrow> bool option \<Rightarrow> bool list" where
  "edge announce b None = []"
| "edge announce b (Some h) = (if h = b then [] else if h then [True] else if announce then [False] else [])"

fun edges :: "bool \<Rightarrow> bool \<Rightarrow> bool list \<Rightarrow> bool list" where
  "edges announce b [] = []"
| "edges announce b (h # hs) = edge announce b (Some h) @ edges announce h hs"

fun detector_run :: "('s \<Rightarrow> 'i \<Rightarrow> 's \<times> 'd list res) \<Rightarrow> 's \<Rightarrow> 'i list \<Rightarrow> 's \<times> 'd list res" where
  "detector_run step s [] = (s, Inr [])"
| "detector_run step s (i # is) =
     (case step s i of
        (s', Inl e) \<Rightarrow> (s', Inl e)
      | (s', Inr ds) \<Rightarrow> (case detector_run step s' is of (s'', r) \<Rightarrow> (s'', map_sum id ((@) ds) r)))"

definition of_store :: "string \<Rightarrow> detection_event \<Rightarrow> bool" where
  "of_store k d \<longleftrightarrow> dp_store_id (ev_payload d) = k"

text \<open>The values of the condition at the observations of one key, in order.\<close>

definition conditions :: "('i \<Rightarrow> string) \<Rightarrow> ('i \<Rightarrow> bool option) \<Rightarrow> string \<Rightarrow> 'i list \<Rightarrow> bool list" where
  "conditions key hot k is = [the (hot i). i \<leftarrow> is, key i = k \<and> hot i \<noteq> None]"

locale edge_detector =
  fixes good :: "'s \<Rightarrow> bool" and ok :: "'i \<Rightarrow> bool" and key :: "'i \<Rightarrow> string" and hot :: "'i \<Rightarrow> bool option"
    and announce :: bool and step :: "'s \<Rightarrow> 'i \<Rightarrow> 's \<times> detection_event list res"
    and active :: "'s \<Rightarrow> string \<Rightarrow> bool" and rising :: "detection_event \<Rightarrow> bool"
  assumes good_step: "good s \<Longrightarrow> ok i \<Longrightarrow> good (fst (step s i))"
    and active_step: "good s \<Longrightarrow> ok i \<Longrightarrow> active (fst (step s i)) k =
        (if k = key i \<and> hot i \<noteq> None then the (hot i) else active s k)"
    and step_emits: "good s \<Longrightarrow> ok i \<Longrightarrow> \<exists>ds. snd (step s i) = Inr ds \<and> (\<forall>d \<in> set ds. of_store (key i) d) \<and>
        map rising ds = edge announce (active s (key i)) (hot i)"
begin

lemma run_emits_edges:
  "good s \<Longrightarrow> \<forall>i \<in> set is. ok i \<Longrightarrow>
   \<exists>s' ds. detector_run step s is = (s', Inr ds) \<and> good s' \<and>
     (\<forall>k. map rising (filter (of_store k) ds) = edges announce (active s k) (conditions key hot k is))"
proof (induction "is" arbitrary: s)
  case (Cons i "is")
  obtain s1 ds1 where 1: "step s i = (s1, Inr ds1)" "\<forall>d \<in> set ds1. of_store (key i) d"
      "map rising ds1 = edge announce (active s (key i)) (hot i)"
    using step_emits [OF Cons.prems(1), of i] Cons.prems(2) by (cases "step s i") auto
  have a1: "active s1 k = (if k = key i \<and> hot i \<noteq> None then the (hot i) else active s k)" for k
    using active_step [OF Cons.prems(1), of i k] Cons.prems(2) 1(1) by simp
  have "good s1" using good_step [OF Cons.prems(1), of i] Cons.prems(2) 1(1) by simp
  from Cons.IH [OF this] Cons.prems(2) obtain s2 ds2 where 2: "detector_run step s1 is = (s2, Inr ds2)" "good s2"
      "\<And>k. map rising (filter (of_store k) ds2) = edges announce (active s1 k) (conditions key hot k is)" by auto
  have f: "filter (of_store k) ds1 = (if k = key i then ds1 else [])" for k
    using 1(2) by (auto simp: of_store_def filter_empty_conv intro!: filter_True)
  have c: "conditions key hot k (i # is) = (if key i = k \<and> hot i \<noteq> None then [the (hot i)] else []) @ conditions key hot k is" for k
    by (simp add: conditions_def)
  have "map rising (filter (of_store k) (ds1 @ ds2)) = edges announce (active s k) (conditions key hot k (i # is))" for k
    using 1(3) by (cases "hot i") (auto simp: f 2(3) c a1)
  then show ?case using 1(1) 2(1,2) by simp
qed (simp add: conditions_def)

end

lemma edges_from_inactive: "announce \<Longrightarrow> i < length (edges announce b hs) \<Longrightarrow> edges announce b hs ! i = (even i \<noteq> b)"
proof (induction announce b hs arbitrary: i rule: edges.induct)
  case (2 announce b h hs)
  show ?case
  proof (cases "h = b")
    case False
    show ?thesis
    proof (cases i)
      case (Suc j)
      then show ?thesis using "2.IH" [of j] "2.prems" False by auto
    qed (use False "2.prems" in auto)
  qed (use 2 in auto)
qed simp

text \<open>An input of the outage detector: the registered counts at the time, and the emission.\<close>

type_synonym outage_input = "(string \<Rightarrow> int option) \<times> window_emission"

definition outage_step ::
  "datetime \<Rightarrow> uuid \<Rightarrow> outage_detector \<Rightarrow> outage_input \<Rightarrow> outage_detector \<times> detection_event list res" where
  "outage_step now fresh det i = outage_observe_emission now fresh (fst i) det (snd i)"

definition outage_key :: "outage_input \<Rightarrow> string" where "outage_key i = we_partition_key (snd i)"

definition outage_hot :: "pyfloat \<Rightarrow> outage_input \<Rightarrow> bool option" where
  "outage_hot threshold i =
     (case fst i (outage_key i) of
        None \<Rightarrow> None
      | Some n \<Rightarrow> if n = 0 then None
                else Some (num_ratio (projr (offline_count_of n (we_value (snd i)))) n > threshold))"

definition outage_ok :: "datetime \<Rightarrow> outage_input \<Rightarrow> bool" where
  "outage_ok now i \<longleftrightarrow> emission_ok now (snd i) \<and> (\<exists>c. we_value (snd i) = PyInt c)"

definition in_outage :: "outage_detector \<Rightarrow> string \<Rightarrow> bool" where
  "in_outage det k \<longleftrightarrow> dict_get (ot_state det) k \<noteq> None"

definition is_outage :: "detection_event \<Rightarrow> bool" where
  "is_outage d \<longleftrightarrow> dp_detection_type (ev_payload d) = DETECTION_TYPE_STORE_OUTAGE"

interpretation otd: edge_detector "\<lambda>det. ot_threshold_ratio det = threshold" "outage_ok now" outage_key
  "outage_hot threshold" True "outage_step now fresh" in_outage is_outage for threshold now fresh
proof unfold_locales
  fix s :: outage_detector and i
  assume g: "ot_threshold_ratio s = threshold" and ok: "outage_ok now i"
  show "ot_threshold_ratio (fst (outage_step now fresh s i)) = threshold"
    using g by (auto simp: outage_step_def outage_observe_emission_def Let_def split: option.split sum.split)
  fix k
  show "in_outage (fst (outage_step now fresh s i)) k =
      (if k = outage_key i \<and> outage_hot threshold i \<noteq> None then the (outage_hot threshold i) else in_outage s k)"
    using g ok by (auto simp: outage_step_def outage_observe_emission_def outage_key_def outage_hot_def in_outage_def
        outage_ok_def offline_count_of_def Let_def split: option.splits if_splits)
next
  fix s :: outage_detector and i
  assume g: "ot_threshold_ratio s = threshold" and ok: "outage_ok now i"
  have em: "emission_ok now (snd i)" using ok by (simp add: outage_ok_def)
  note b = outage_build_ok [OF em, of fresh]
  have dist: "DETECTION_TYPE_STORE_RECOVERED \<noteq> DETECTION_TYPE_STORE_OUTAGE" by (simp add: detection_types)
  show "\<exists>ds. snd (outage_step now fresh s i) = Inr ds \<and> (\<forall>d \<in> set ds. of_store (outage_key i) d) \<and>
      map is_outage ds = edge True (in_outage s (outage_key i)) (outage_hot threshold i)"
  proof (cases "outage_hot threshold i")
    case None
    then show ?thesis
      by (auto simp: outage_step_def outage_observe_emission_def outage_hot_def outage_key_def Let_def
          split: option.splits if_splits)
  next
    case (Some h)
    then obtain n c where n: "fst i (we_partition_key (snd i)) = Some n" "n \<noteq> 0"
        "offline_count_of n (we_value (snd i)) = Inr c" "h = (num_ratio c n > threshold)"
      using ok by (auto simp: outage_hot_def outage_key_def outage_ok_def offline_count_of_def split: option.splits if_splits)
    show ?thesis
      using b(1) [of threshold c n "num_ratio c n"] b(2) [of threshold c n "num_ratio c n"] n g dist Some
      by (auto simp: outage_step_def outage_observe_emission_def outage_key_def in_outage_def is_outage_def of_store_def Let_def)
  qed
qed

text \<open>
  C27: the outage detector reports exactly the changes. Over any sequence of emissions, the
  detections of a store are one per change of its outage condition (offline ratio strictly
  above the threshold, the store starting out healthy), an outage for each change up and a
  recovery for each change down, so they alternate and begin with an outage.
\<close>

theorem outage_detections_are_edges:
  assumes "outage_detector_init threshold = Inr det" and "\<forall>i \<in> set is. outage_ok now i"
  shows "\<exists>det' ds. detector_run (outage_step now fresh) det is = (det', Inr ds) \<and>
     map is_outage (filter (of_store k) ds) = edges True False (conditions outage_key (outage_hot threshold) k is) \<and>
     (\<forall>j < length (filter (of_store k) ds). is_outage (filter (of_store k) ds ! j) = even j)"
proof -
  have g: "ot_threshold_ratio det = threshold" and s: "\<not> in_outage det k" for k
    using assms(1) by (auto simp: outage_detector_init_def in_outage_def split: if_splits)
  obtain det' ds where r: "detector_run (outage_step now fresh) det is = (det', Inr ds)"
      "map is_outage (filter (of_store k) ds) = edges True False (conditions outage_key (outage_hot threshold) k is)"
    using otd.run_emits_edges [where fresh = fresh, OF g assms(2)] s by auto
  have "is_outage (filter (of_store k) ds ! j) = even j" if j: "j < length (filter (of_store k) ds)" for j
  proof -
    have "is_outage (filter (of_store k) ds ! j) = map is_outage (filter (of_store k) ds) ! j"
      using j by (rule nth_map [symmetric])
    also have "\<dots> = even j"
      using edges_from_inactive [of True j False] j r(2) by (metis length_map)
    finally show ?thesis .
  qed
  with r show ?thesis by blast
qed

definition demo_emission :: "int \<Rightarrow> int \<Rightarrow> window_emission" where
  "demo_emission v t = \<lparr>we_partition_key = ''s'', we_aggregation_name = ''distinct_devices'',
     we_window_start = seconds (t - 60), we_window_end = seconds t, we_value = PyInt v, we_event_count = 3,
     we_is_repair = False, we_last_trace = None\<rparr>"

theorem outage_detections_are_edges_witness:
  "\<exists>det' ds. detector_run (outage_step (UTC (seconds 1000)) 7) \<lparr>ot_threshold_ratio = 1 / 2, ot_state = []\<rparr>
       [(\<lambda>s. Some 4, demo_emission 1 60), (\<lambda>s. Some 4, demo_emission 0 120), (\<lambda>s. Some 4, demo_emission 3 180)] = (det', Inr ds) \<and>
     map is_outage (filter (of_store ''s'') ds) = [True, False]"
proof -
  let ?is = "[(\<lambda>s. Some 4, demo_emission 1 60), (\<lambda>s. Some 4, demo_emission 0 120), (\<lambda>s. Some 4, demo_emission 3 180)]"
  have ok: "\<forall>i \<in> set ?is. outage_ok (UTC (seconds 1000)) i"
    by (simp add: outage_ok_def emission_ok_def demo_emission_def stamp_fits_def MAX_CLOCK_SKEW_def)
  have init: "outage_detector_init (1 / 2) = Inr \<lparr>ot_threshold_ratio = 1 / 2, ot_state = []\<rparr>"
    by (simp add: outage_detector_init_def)
  have td: "true_div 3 4 = 3 / 4" "true_div 4 4 = 1" "true_div 1 4 = 1 / 4" by code_simp+
  have hot: "outage_hot (1 / 2) (\<lambda>s. Some 4, demo_emission v t) = Some (true_div (max 0 (4 - v)) 4 > 1 / 2)" for v t
    by (simp add: outage_hot_def demo_emission_def offline_count_of_def num_ratio_def)
  have key: "outage_key (l, demo_emission v t) = ''s''" for l v t by (simp add: outage_key_def demo_emission_def)
  have c: "conditions outage_key (outage_hot (1 / 2)) ''s'' ?is = [True, True, False]"
    by (simp add: conditions_def hot td key del: not_None_eq)
  from outage_detections_are_edges [OF init ok, of 7 "''s''"] show ?thesis unfolding c by auto
qed

definition anomaly_hot :: "anomaly_detector \<Rightarrow> window_emission \<Rightarrow> bool option" where
  "anomaly_hot cfg em = map_option (anomaly_compare cfg) (to_float (we_value em))"

definition anomalous :: "anomaly_detector \<Rightarrow> string \<Rightarrow> bool" where
  "anomalous det k \<longleftrightarrow> dict_get (an_state det) k \<noteq> None"

definition same_anomaly_config :: "anomaly_detector \<Rightarrow> anomaly_detector \<Rightarrow> bool" where
  "same_anomaly_config cfg det \<longleftrightarrow> an_threshold det = an_threshold cfg \<and> an_comparison det = an_comparison cfg \<and>
     an_signal_name det = an_signal_name cfg"

definition anomaly_ok :: "datetime \<Rightarrow> window_emission \<Rightarrow> bool" where
  "anomaly_ok now em \<longleftrightarrow> emission_ok now em \<and> to_float (we_value em) \<noteq> None"

definition is_anomaly :: "detection_event \<Rightarrow> bool" where
  "is_anomaly d \<longleftrightarrow> dp_detection_type (ev_payload d) = DETECTION_TYPE_SIGNAL_ANOMALY"

interpretation anm: edge_detector "same_anomaly_config cfg" "anomaly_ok now" we_partition_key "anomaly_hot cfg" False
  "anomaly_observe_emission now fresh" anomalous is_anomaly
  for cfg now fresh
proof unfold_locales
  fix s :: anomaly_detector and i
  assume g: "same_anomaly_config cfg s" and ok: "anomaly_ok now i"
  obtain v where v: "to_float (we_value i) = Some v" using ok by (auto simp: anomaly_ok_def)
  have cmp: "anomaly_compare s v = anomaly_compare cfg v" using g by (cases "an_comparison cfg") (simp_all add: same_anomaly_config_def anomaly_compare_def)
  show "same_anomaly_config cfg (fst (anomaly_observe_emission now fresh s i))"
    using g v by (simp add: anomaly_observe_emission_def same_anomaly_config_def Let_def)
  show "\<exists>ds. snd (anomaly_observe_emission now fresh s i) = Inr ds \<and> (\<forall>d \<in> set ds. of_store (we_partition_key i) d) \<and>
      map is_anomaly ds = edge False (anomalous s (we_partition_key i)) (anomaly_hot cfg i)"
    using anomaly_build_ok [of now i fresh s v] ok v cmp
    by (auto simp: anomaly_observe_emission_def anomaly_ok_def anomaly_hot_def anomalous_def of_store_def is_anomaly_def Let_def)
  fix k
  show "anomalous (fst (anomaly_observe_emission now fresh s i)) k =
      (if k = we_partition_key i \<and> anomaly_hot cfg i \<noteq> None then the (anomaly_hot cfg i) else anomalous s k)"
    using v cmp by (simp add: anomaly_observe_emission_def anomaly_hot_def anomalous_def Let_def)
qed

text \<open>
  The anomaly detector reports a partition once per excursion: over any sequence of
  numeric emissions its detections of a partition are one for each time the value passes
  the threshold in the configured direction after having been on the other side, and none
  while it stays beyond it or when it returns.
\<close>

theorem anomaly_detections_are_rising_edges:
  assumes "\<forall>em \<in> set ems. anomaly_ok now em"
  shows "\<exists>det' ds. detector_run (anomaly_observe_emission now fresh) (anomaly_detector_init th c sig) ems = (det', Inr ds) \<and>
     map is_anomaly (filter (of_store k) ds) =
       edges False False (conditions we_partition_key (anomaly_hot (anomaly_detector_init th c sig)) k ems)"
proof -
  let ?d = "anomaly_detector_init th c sig"
  have "same_anomaly_config ?d ?d" "\<not> anomalous ?d k"
    by (simp_all add: same_anomaly_config_def anomalous_def anomaly_detector_init_def)
  then show ?thesis using anm.run_emits_edges [where fresh = fresh, OF _ assms] by fastforce
qed

theorem anomaly_detections_are_rising_edges_witness:
  "\<exists>det' ds. detector_run (anomaly_observe_emission (UTC (seconds 1000)) 7) (anomaly_detector_init 2 Above ''x'')
       [demo_emission 1 60, demo_emission 3 120, demo_emission 4 180] = (det', Inr ds) \<and>
     map is_anomaly (filter (of_store ''s'') ds) = [True]"
proof -
  let ?is = "[demo_emission 1 60, demo_emission 3 120, demo_emission 4 180]"
  have ok: "\<forall>i \<in> set ?is. anomaly_ok (UTC (seconds 1000)) i"
    by (simp add: anomaly_ok_def emission_ok_def demo_emission_def stamp_fits_def MAX_CLOCK_SKEW_def)
  have f: "fl 1 = 1" "fl 3 = 3" "fl 4 = 4"
    using fl_of_int [of 1] fl_of_int [of 3] fl_of_int [of 4] by simp_all
  have c: "conditions we_partition_key (anomaly_hot (anomaly_detector_init 2 Above ''x'')) ''s'' ?is = [False, True, True]"
    by (simp add: conditions_def anomaly_hot_def anomaly_compare_def anomaly_detector_init_def demo_emission_def f
        del: not_None_eq)
  from anomaly_detections_are_rising_edges [OF ok, of 7 2 Above "''x''" "''s''"] show ?thesis unfolding c by simp
qed

subsection \<open>The offline detector\<close>

definition event_fits :: "datetime \<Rightarrow> event \<Rightarrow> bool" where
  "event_fits now ev \<longleftrightarrow> stamp_fits now (ev_event_timestamp ev) \<and> uuid_version (ev_event_id ev) \<in> {Some 4, Some 5}"

definition report :: "detection_event \<Rightarrow> string \<times> uuid option \<times> string" where
  "report d = (dp_detection_type (ev_payload d), dp_device_id (ev_payload d), dp_store_id (ev_payload d))"

lemma offline_build_ok:
  assumes "event_fits now ev" and "s \<noteq> []"
  shows "\<exists>x. offline_build_detection now th d s silent ev = Inr x \<and> report x = (DETECTION_TYPE_DEVICE_OFFLINE, Some d, s)"
    and "\<exists>x. offline_build_recovery now d s ev = Inr x \<and> report x = (DETECTION_TYPE_DEVICE_ONLINE, Some d, s)"
proof -
  have b: "stamp_fits now (ev_event_timestamp ev)" using assms by (simp add: event_fits_def)
  have mk: "\<exists>x. make_detection now offline_source u (ev_event_timestamp ev) p = Inr x \<and> ev_payload x = p"
    if "detection_payload_init p = Inr p" for p u
    using make_detection_ok [OF that literal_patterns(3) b] by blast
  show "\<exists>x. offline_build_detection now th d s silent ev = Inr x \<and> report x = (DETECTION_TYPE_DEVICE_OFFLINE, Some d, s)"
    unfolding offline_build_detection_def Let_def
    by (rule exE [OF mk]) (use assms b in \<open>auto simp: detection_payload_init_Inr report_def event_fits_def stamp_fits_def\<close>)
  show "\<exists>x. offline_build_recovery now d s ev = Inr x \<and> report x = (DETECTION_TYPE_DEVICE_ONLINE, Some d, s)"
    unfolding offline_build_recovery_def
    by (rule exE [OF mk]) (use assms b in \<open>auto simp: detection_payload_init_Inr report_def event_fits_def stamp_fits_def\<close>)
qed

definition located :: "(uuid \<Rightarrow> string option) \<Rightarrow> uuid \<Rightarrow> bool" where
  "located lk d \<longleftrightarrow> (\<exists>s. lk d = Some s \<and> s \<noteq> [])"

text \<open>The devices an event reveals as silent, in the order they were first seen.\<close>

definition overdue ::
  "offline_detector \<Rightarrow> (uuid \<Rightarrow> string option) \<Rightarrow> datetime \<Rightarrow> (uuid \<times> datetime) list \<Rightarrow> uuid list" where
  "overdue det lk ts known =
     [d. (d, seen_at) \<leftarrow> known, dict_get (od_state det) d = Some Seen \<and>
         seconds (od_threshold_seconds det) < instant ts - instant seen_at \<and> located lk d]"

lemma overdue_subset: "set (overdue det lk ts known) \<subseteq> fst ` set known"
  by (auto simp: overdue_def image_iff Bex_def)

lemma offline_scan_spec:
  assumes fits: "event_fits now ev"
    and "distinct (map fst known)" "\<forall>(d, t) \<in> set known. dict_get (od_state det) d \<noteq> None \<and> aware t"
  shows "\<exists>det' ds. offline_scan now lk ev known det acc = (det', Inr (acc @ ds)) \<and>
     od_threshold_seconds det' = od_threshold_seconds det \<and> od_last_seen det' = od_last_seen det \<and>
     (\<forall>d. dict_get (od_state det') d =
        (if d \<in> set (overdue det lk (ev_event_timestamp ev) known) then Some Offline else dict_get (od_state det) d)) \<and>
     map report ds = map (\<lambda>d. (DETECTION_TYPE_DEVICE_OFFLINE, Some d, the (lk d)))
       (overdue det lk (ev_event_timestamp ev) known)"
  using assms(2,3)
proof (induction known arbitrary: det acc)
  case (Cons p known)
  obtain d t where p: "p = (d, t)" by (cases p)
  let ?ts = "ev_event_timestamp ev"
  have aw: "aware t" "aware ?ts" using Cons.prems(2) fits by (auto simp: p event_fits_def stamp_fits_def utc_ok_aware)
  let ?hit = "dict_get (od_state det) d = Some Seen \<and>
      seconds (od_threshold_seconds det) < instant ?ts - instant t \<and> located lk d"
  show ?case
  proof (cases ?hit)
    case False
    have "offline_scan now lk ev (p # known) det acc = offline_scan now lk ev known det acc"
      using False Cons.prems(2) aw by (auto simp: p dt_diff_def located_def split: option.splits)
    moreover have "overdue det lk ?ts (p # known) = overdue det lk ?ts known"
      using False by (auto simp: overdue_def p)
    ultimately show ?thesis using Cons.IH [of det acc] Cons.prems by simp
  next
    case True
    then obtain s where s: "lk d = Some s" "s \<noteq> []" by (auto simp: located_def)
    let ?det = "det\<lparr>od_state := dict_set d Offline (od_state det)\<rparr>"
    obtain x where x: "offline_build_detection now (od_threshold_seconds det) d s (instant ?ts - instant t) ev = Inr x"
        "report x = (DETECTION_TYPE_DEVICE_OFFLINE, Some d, s)" using offline_build_ok(1) [OF fits s(2)] by blast
    have eq: "offline_scan now lk ev (p # known) det acc = offline_scan now lk ev known ?det (acc @ [x])"
      using True aw s x(1) by (simp add: p dt_diff_def)
    have nin: "(d, b) \<notin> set known" for b using Cons.prems(1) by (force simp: p)
    have ov: "overdue ?det lk ?ts known = overdue det lk ?ts known"
      unfolding overdue_def by (rule arg_cong [where f = concat], rule map_cong) (auto simp: nin)
    have ov2: "overdue det lk ?ts (p # known) = d # overdue det lk ?ts known"
      using True by (simp add: overdue_def p)
    have "\<forall>(d, t) \<in> set known. dict_get (od_state ?det) d \<noteq> None \<and> aware t" using Cons.prems(2) by auto
    from Cons.IH [OF _ this, of "acc @ [x]"] Cons.prems(1) obtain det' ds where
      "offline_scan now lk ev known ?det (acc @ [x]) = (det', Inr ((acc @ [x]) @ ds))"
      "od_threshold_seconds det' = od_threshold_seconds det" "od_last_seen det' = od_last_seen det"
      "\<forall>e. dict_get (od_state det') e =
        (if e \<in> set (overdue ?det lk ?ts known) then Some Offline else dict_get (od_state ?det) e)"
      "map report ds = map (\<lambda>d. (DETECTION_TYPE_DEVICE_OFFLINE, Some d, the (lk d))) (overdue ?det lk ?ts known)"
      by auto
    then show ?thesis
      unfolding eq ov2 ov using x(2) s(1) by (intro exI [of _ det'] exI [of _ "x # ds"]) auto
  qed
qed (simp add: overdue_def)

definition offline_inv :: "offline_detector \<Rightarrow> bool" where
  "offline_inv det \<longleftrightarrow> 0 < od_threshold_seconds det \<and> dict_ok (od_last_seen det) \<and>
     (\<forall>d t. dict_get (od_last_seen det) d = Some t \<longrightarrow> aware t) \<and>
     (\<forall>d. dict_get (od_last_seen det) d = None \<longleftrightarrow> dict_get (od_state det) d = None)"

lemma offline_invD:
  assumes "offline_inv det" and "dict_get (od_last_seen det) d = Some t"
  shows "aware t" and "dict_get (od_state det) d \<noteq> None"
proof -
  show "aware t" using assms by (simp add: offline_inv_def)
  have "dict_get (od_last_seen det) d = None \<longleftrightarrow> dict_get (od_state det) d = None"
    using assms(1) by (simp add: offline_inv_def)
  then show "dict_get (od_state det) d \<noteq> None" using assms(2) by simp
qed

lemma offline_inv_init: "offline_detector_init n = Inr det \<Longrightarrow> offline_inv det"
  by (auto simp: offline_detector_init_def offline_inv_def split: if_splits)

lemma offline_recovery_ok:
  assumes "event_fits now ev"
  obtains rec where "offline_recovery now lk ev d st = Inr rec"
    "map report rec = (if st = Some Offline \<and> located lk d
       then [(DETECTION_TYPE_DEVICE_ONLINE, Some d, the (lk d))] else [])"
proof (cases "st = Some Offline \<and> located lk d")
  case True
  then obtain s where s: "lk d = Some s" "s \<noteq> []" by (auto simp: located_def)
  obtain x where "offline_build_recovery now d s ev = Inr x" "report x = (DETECTION_TYPE_DEVICE_ONLINE, Some d, s)"
    using offline_build_ok(2) [OF assms s(2)] by blast
  then show ?thesis using that [of "[x]"] True s by (simp add: offline_recovery_def)
next
  case False
  then show ?thesis using that [of "[]"] by (auto simp: offline_recovery_def located_def split: option.splits)
qed

text \<open>What an event of device \<open>d\<close> does, as a whole.\<close>

definition sighted :: "offline_detector \<Rightarrow> uuid \<Rightarrow> datetime \<Rightarrow> offline_detector" where
  "sighted det d ts = det\<lparr>od_last_seen := dict_set d ts (od_last_seen det), od_state := dict_set d Seen (od_state det)\<rparr>"

lemma offline_observe_spec:
  fixes det :: offline_detector and now :: datetime and ev :: event and d :: uuid
    and lk :: "uuid \<Rightarrow> string option" and extractor :: "event \<Rightarrow> uuid option res"
  assumes inv: "offline_inv det" and fits: "event_fits now ev" and ex: "extractor ev = Inr (Some d)"
  defines "ts \<equiv> ev_event_timestamp ev"
  defines "silent \<equiv> overdue (sighted det d ts) lk ts (od_last_seen (sighted det d ts))"
  shows "\<exists>det' ds. offline_observe_event now extractor lk det ev = (det', Inr ds) \<and> offline_inv det' \<and> d \<notin> set silent \<and>
     od_last_seen det' = dict_set d ts (od_last_seen det) \<and>
     (\<forall>e. dict_get (od_state det') e =
        (if e = d then Some Seen else if e \<in> set silent then Some Offline else dict_get (od_state det) e)) \<and>
     map report ds =
       (if dict_get (od_state det) d = Some Offline \<and> located lk d
        then [(DETECTION_TYPE_DEVICE_ONLINE, Some d, the (lk d))] else []) @
       map (\<lambda>e. (DETECTION_TYPE_DEVICE_OFFLINE, Some e, the (lk e))) silent"
proof -
  let ?det = "sighted det d ts"
  have aw: "aware ts" using fits by (simp add: ts_def event_fits_def stamp_fits_def utc_ok_aware)
  have inv1: "offline_inv ?det"
    using inv aw by (auto simp: offline_inv_def sighted_def split: if_splits)
  obtain rec where rec: "offline_recovery now lk ev d (dict_get (od_state det) d) = Inr rec"
      "map report rec = (if dict_get (od_state det) d = Some Offline \<and> located lk d
        then [(DETECTION_TYPE_DEVICE_ONLINE, Some d, the (lk d))] else [])"
    by (rule offline_recovery_ok [OF fits])
  have known: "\<forall>(e, t) \<in> set (od_last_seen ?det). dict_get (od_state ?det) e \<noteq> None \<and> aware t"
  proof clarify
    fix e t assume "(e, t) \<in> set (od_last_seen ?det)"
    then have "dict_get (od_last_seen ?det) e = Some t" using inv1 dict_in_get by (auto simp: offline_inv_def)
    then show "dict_get (od_state ?det) e \<noteq> None \<and> aware t" using offline_invD [OF inv1] by blast
  qed
  have ok: "dict_ok (od_last_seen ?det)" using inv1 by (simp add: offline_inv_def)
  have nd: "d \<notin> set silent"
  proof
    assume "d \<in> set silent"
    then obtain t where "(d, t) \<in> set (od_last_seen ?det)" "seconds (od_threshold_seconds ?det) < instant ts - instant t"
      by (auto simp: silent_def overdue_def)
    moreover have "t = ts" using dict_in_get [OF ok calculation(1)] by (simp add: sighted_def)
    ultimately show False using inv by (simp add: offline_inv_def sighted_def)
  qed
  obtain det' ds where sc: "offline_scan now lk ev (od_last_seen ?det) ?det [] = (det', Inr ds)"
      "od_threshold_seconds det' = od_threshold_seconds ?det" "od_last_seen det' = od_last_seen ?det"
      "\<And>e. dict_get (od_state det') e = (if e \<in> set silent then Some Offline else dict_get (od_state ?det) e)"
      "map report ds = map (\<lambda>e. (DETECTION_TYPE_DEVICE_OFFLINE, Some e, the (lk e))) silent"
    using offline_scan_spec [OF fits ok known, of lk "[]"] by (auto simp: silent_def ts_def)
  have obs: "offline_observe_event now extractor lk det ev = (det', Inr (rec @ ds))"
    using ex rec(1) sc(1) by (simp add: offline_observe_event_def sighted_def ts_def Let_def)
  have st: "dict_get (od_state det') e = (if e = d then Some Seen else if e \<in> set silent then Some Offline else dict_get (od_state det) e)" for e
    using nd by (simp add: sc(4) sighted_def)
  have dom: "e \<in> set silent \<Longrightarrow> dict_get (od_last_seen ?det) e \<noteq> None" for e
    using overdue_subset [of ?det lk ts "od_last_seen ?det"] unfolding silent_def by (metis dict_get_None_iff list.set_map subsetD)
  have "offline_inv det'"
    using inv1 dom by (auto simp: offline_inv_def sc(2,3,4) split: if_splits)
  then show ?thesis using obs nd st rec(2) sc(3,5) by (intro exI [of _ det'] exI [of _ "rec @ ds"]) (simp add: sighted_def)
qed

text \<open>
  C26: one event of a device does exactly this to the offline detector: the device is seen
  at the time of the event, with one recovery when it was offline and its store is known;
  and every other device that is seen, has a known store and was last seen more than the
  threshold before the event goes offline, with one detection each, in the order the
  devices first appeared. Nothing else changes, and nothing raises.
\<close>

theorem offline_observation_exact:
  assumes "offline_inv det" and "event_fits now ev" and "extractor ev = Inr (Some d)"
  shows "\<exists>det' ds. offline_observe_event now extractor lk det ev = (det', Inr ds) \<and> offline_inv det' \<and>
     od_last_seen det' = dict_set d (ev_event_timestamp ev) (od_last_seen det) \<and>
     (let silent = [e. (e, t) \<leftarrow> od_last_seen det', e \<noteq> d \<and> dict_get (od_state det) e = Some Seen \<and>
            seconds (od_threshold_seconds det) < instant (ev_event_timestamp ev) - instant t \<and> located lk e] in
      (\<forall>e. dict_get (od_state det') e =
         (if e = d then Some Seen else if e \<in> set silent then Some Offline else dict_get (od_state det) e)) \<and>
      map report ds =
        (if dict_get (od_state det) d = Some Offline \<and> located lk d
         then [(DETECTION_TYPE_DEVICE_ONLINE, Some d, the (lk d))] else []) @
        map (\<lambda>e. (DETECTION_TYPE_DEVICE_OFFLINE, Some e, the (lk e))) silent)"
proof -
  let ?ts = "ev_event_timestamp ev"
  let ?s = "sighted det d ?ts"
  let ?silent = "overdue ?s lk ?ts (od_last_seen ?s)"
  obtain det' ds where o: "offline_observe_event now extractor lk det ev = (det', Inr ds)" "offline_inv det'"
      "d \<notin> set ?silent" "od_last_seen det' = dict_set d ?ts (od_last_seen det)"
      "\<forall>e. dict_get (od_state det') e =
         (if e = d then Some Seen else if e \<in> set ?silent then Some Offline else dict_get (od_state det) e)"
      "map report ds =
        (if dict_get (od_state det) d = Some Offline \<and> located lk d
         then [(DETECTION_TYPE_DEVICE_ONLINE, Some d, the (lk d))] else []) @
        map (\<lambda>e. (DETECTION_TYPE_DEVICE_OFFLINE, Some e, the (lk e))) ?silent"
    using offline_observe_spec [where extractor = extractor, OF assms] by blast
  have ls: "od_last_seen det' = od_last_seen ?s" using o(4) by (simp add: sighted_def)
  have "[e. (e, t) \<leftarrow> od_last_seen det', e \<noteq> d \<and> dict_get (od_state det) e = Some Seen \<and>
      seconds (od_threshold_seconds det) < instant ?ts - instant t \<and> located lk e] = ?silent"
    unfolding overdue_def ls
  proof (rule arg_cong [where f = concat], rule map_cong [OF refl], clarify)
    fix e t assume e: "(e, t) \<in> set (od_last_seen ?s)"
    have "d \<notin> set [e. (e, t) \<leftarrow> od_last_seen ?s, dict_get (od_state ?s) e = Some Seen \<and>
         seconds (od_threshold_seconds ?s) < instant ?ts - instant t \<and> located lk e]"
      using o(3) by (simp add: overdue_def)
    then have "e = d \<Longrightarrow> \<not> (dict_get (od_state ?s) e = Some Seen \<and>
         seconds (od_threshold_seconds ?s) < instant ?ts - instant t \<and> located lk e)"
      using e by force
    then show "(if e \<noteq> d \<and> dict_get (od_state det) e = Some Seen \<and>
          seconds (od_threshold_seconds det) < instant ?ts - instant t \<and> located lk e then [e] else []) =
        (if dict_get (od_state ?s) e = Some Seen \<and>
          seconds (od_threshold_seconds ?s) < instant ?ts - instant t \<and> located lk e then [e] else [])"
      by (auto simp: sighted_def)
  qed
  note eq = this
  show ?thesis
    unfolding Let_def
  proof (intro exI conjI)
    show "offline_observe_event now extractor lk det ev = (det', Inr ds)" by (rule o(1))
    show "offline_inv det'" by (rule o(2))
    show "od_last_seen det' = dict_set d ?ts (od_last_seen det)" by (rule o(4))
  qed (unfold eq, rule o(5), rule o(6))
qed

definition demo_sighting :: "int \<Rightarrow> event" where
  "demo_sighting t = demo_pipeline_event\<lparr>ev_event_id := derive ''e'' [], ev_event_timestamp := UTC (seconds t)\<rparr>"

theorem offline_observation_exact_witness:
  "\<exists>det' ds. offline_observe_event (UTC (seconds 1000)) (\<lambda>e. Inr (Some 2)) (\<lambda>d. Some ''s'')
       \<lparr>od_threshold_seconds = 300, od_last_seen = [(1, UTC 0)], od_state = [(1, Seen)]\<rparr> (demo_sighting 301) = (det', Inr ds) \<and>
     map report ds = [(DETECTION_TYPE_DEVICE_OFFLINE, Some 1, ''s'')]"
proof -
  let ?d = "\<lparr>od_threshold_seconds = 300, od_last_seen = [(1, UTC 0)], od_state = [(1, Seen)]\<rparr>"
  have "offline_inv ?d" by (simp add: offline_inv_def)
  moreover have "event_fits (UTC (seconds 1000)) (demo_sighting 301)"
    by (simp add: event_fits_def stamp_fits_def demo_sighting_def MAX_CLOCK_SKEW_def)
  ultimately obtain det' ds where
    o: "offline_observe_event (UTC (seconds 1000)) (\<lambda>e. Inr (Some 2)) (\<lambda>d. Some ''s'') ?d (demo_sighting 301) = (det', Inr ds)"
      "od_last_seen det' = dict_set 2 (ev_event_timestamp (demo_sighting 301)) (od_last_seen ?d)"
      "map report ds = map (\<lambda>e. (DETECTION_TYPE_DEVICE_OFFLINE, Some e, ''s''))
         [e. (e, t) \<leftarrow> od_last_seen det', e \<noteq> 2 \<and> dict_get (od_state ?d) e = Some Seen \<and>
            seconds (od_threshold_seconds ?d) < instant (ev_event_timestamp (demo_sighting 301)) - instant t \<and>
            located (\<lambda>d. Some ''s'') e]"
    using offline_observation_exact [of ?d "UTC (seconds 1000)" "demo_sighting 301" "\<lambda>e. Inr (Some 2)" 2 "\<lambda>d. Some ''s''"]
    by (auto simp: Let_def)
  then show ?thesis by (simp add: located_def demo_sighting_def)
qed

text \<open>Reports of one device: each is the opposite of the one before.\<close>

fun alternating :: "bool \<Rightarrow> bool list \<Rightarrow> bool \<Rightarrow> bool" where
  "alternating b [] b' = (b' = b)"
| "alternating b (x # xs) b' = (x = (\<not> b) \<and> alternating x xs b')"

lemma alternating_append: "alternating b (xs @ ys) b' \<longleftrightarrow> (\<exists>c. alternating b xs c \<and> alternating c ys b')"
  by (induction xs arbitrary: b) auto

lemma alternating_nth: "alternating b xs b' \<Longrightarrow> i < length xs \<Longrightarrow> xs ! i = (even i \<noteq> b)"
proof (induction xs arbitrary: b i)
  case (Cons x xs)
  then show ?case by (cases i) auto
qed simp

definition of_device :: "uuid \<Rightarrow> detection_event \<Rightarrow> bool" where
  "of_device d x \<longleftrightarrow> dp_device_id (ev_payload x) = Some d"

definition is_offline :: "detection_event \<Rightarrow> bool" where
  "is_offline x \<longleftrightarrow> dp_detection_type (ev_payload x) = DETECTION_TYPE_DEVICE_OFFLINE"

lemma reports_of_device:
  "map is_offline (filter (of_device d) ds) =
     map (\<lambda>r. fst r = DETECTION_TYPE_DEVICE_OFFLINE) (filter (\<lambda>r. fst (snd r) = Some d) (map report ds))"
  by (simp add: report_def is_offline_def [abs_def] of_device_def [abs_def] filter_map comp_def)

lemma overdue_Cons:
  "overdue det lk ts ((d, t) # known) =
     (if dict_get (od_state det) d = Some Seen \<and> seconds (od_threshold_seconds det) < instant ts - instant t \<and>
         located lk d then [d] else []) @ overdue det lk ts known"
  by (simp add: overdue_def)

lemma overdue_distinct: "dict_ok known \<Longrightarrow> distinct (overdue det lk ts known)"
proof (induction known)
  case (Cons p known)
  have "fst p \<notin> set (overdue det lk ts known)" using overdue_subset [of det lk ts known] Cons.prems by auto
  then show ?case using Cons by (cases p) (auto simp: overdue_Cons)
qed (simp add: overdue_def)

lemma filter_eq_distinct: "distinct xs \<Longrightarrow> filter (\<lambda>x. x = d) xs = (if d \<in> set xs then [d] else [])"
  by (induction xs) auto

lemma offline_step_device:
  assumes inv: "offline_inv det" and fits: "event_fits now ev" and ex: "extractor ev = Inr od" and d: "located lk d"
  shows "\<exists>det' ds. offline_observe_event now extractor lk det ev = (det', Inr ds) \<and> offline_inv det' \<and>
     alternating (dict_get (od_state det) d = Some Offline) (map is_offline (filter (of_device d) ds))
       (dict_get (od_state det') d = Some Offline)"
proof (cases od)
  case None
  then show ?thesis using inv ex by (simp add: offline_observe_event_def)
next
  case (Some e)
  let ?s = "sighted det e (ev_event_timestamp ev)"
  let ?silent = "overdue ?s lk (ev_event_timestamp ev) (od_last_seen ?s)"
  obtain det' ds where o: "offline_observe_event now extractor lk det ev = (det', Inr ds)" "offline_inv det'"
      "e \<notin> set ?silent"
      "\<forall>x. dict_get (od_state det') x =
         (if x = e then Some Seen else if x \<in> set ?silent then Some Offline else dict_get (od_state det) x)"
      "map report ds =
        (if dict_get (od_state det) e = Some Offline \<and> located lk e
         then [(DETECTION_TYPE_DEVICE_ONLINE, Some e, the (lk e))] else []) @
        map (\<lambda>x. (DETECTION_TYPE_DEVICE_OFFLINE, Some x, the (lk x))) ?silent"
    using offline_observe_spec [where extractor = extractor and d = e and lk = lk, OF inv fits] ex Some by auto
  have dist: "distinct ?silent" using inv by (intro overdue_distinct) (simp add: sighted_def offline_inv_def)
  have seen: "d \<in> set ?silent \<Longrightarrow> d \<noteq> e \<Longrightarrow> dict_get (od_state det) d = Some Seen"
    by (auto simp: overdue_def sighted_def split: if_splits)
  have neq: "DETECTION_TYPE_DEVICE_ONLINE \<noteq> DETECTION_TYPE_DEVICE_OFFLINE" by (simp add: detection_types)
  have "map is_offline (filter (of_device d) ds) =
      (if d = e \<and> dict_get (od_state det) e = Some Offline then [False] else []) @ (if d \<in> set ?silent then [True] else [])"
    unfolding reports_of_device o(5) using d neq filter_eq_distinct [OF dist, of d]
    by (auto simp: filter_map comp_def)
  then show ?thesis using o seen by auto
qed

text \<open>
  As long as a device's store is known, its detections over any sequence of events
  alternate between offline and online, the first being offline: it is never reported
  offline twice without a recovery in between, and the detector holds it offline exactly
  when the number of its detections is odd.
\<close>

theorem offline_detections_alternate:
  assumes "offline_detector_init n = Inr det"
    and "\<forall>ev \<in> set evs. event_fits now ev \<and> (\<exists>od. extractor ev = Inr od)" and "located lk d"
  shows "\<exists>det' ds. detector_run (offline_observe_event now extractor lk) det evs = (det', Inr ds) \<and>
     (\<forall>i < length (filter (of_device d) ds). is_offline (filter (of_device d) ds ! i) = even i) \<and>
     (dict_get (od_state det') d = Some Offline \<longleftrightarrow> odd (length (filter (of_device d) ds)))"
proof -
  have run: "offline_inv det \<Longrightarrow> \<forall>ev \<in> set evs. event_fits now ev \<and> (\<exists>od. extractor ev = Inr od) \<Longrightarrow>
    \<exists>det' ds. detector_run (offline_observe_event now extractor lk) det evs = (det', Inr ds) \<and>
     alternating (dict_get (od_state det) d = Some Offline) (map is_offline (filter (of_device d) ds))
       (dict_get (od_state det') d = Some Offline)" for det
  proof (induction evs arbitrary: det)
    case (Cons ev evs)
    then obtain od where ev: "event_fits now ev" "extractor ev = Inr od" by auto
    obtain d1 ds1 where 1: "offline_observe_event now extractor lk det ev = (d1, Inr ds1)" "offline_inv d1"
        "alternating (dict_get (od_state det) d = Some Offline) (map is_offline (filter (of_device d) ds1))
          (dict_get (od_state d1) d = Some Offline)"
      using offline_step_device [where extractor = extractor, OF Cons.prems(1) ev assms(3)] by blast
    from Cons.IH [OF 1(2)] Cons.prems(2) 1 show ?case by (fastforce simp: alternating_append)
  qed simp
  have inv: "offline_inv det" "dict_get (od_state det) d = None"
    using assms(1) offline_inv_init by (auto simp: offline_detector_init_def split: if_splits)
  obtain det' ds where r: "detector_run (offline_observe_event now extractor lk) det evs = (det', Inr ds)"
      "alternating False (map is_offline (filter (of_device d) ds)) (dict_get (od_state det') d = Some Offline)"
    using run [OF inv(1) assms(2)] inv(2) by auto
  have len: "alternating b xs b' \<Longrightarrow> b' = (odd (length xs) \<noteq> b)" for b xs b'
    by (induction xs arbitrary: b) auto
  show ?thesis
    using r alternating_nth [OF r(2)] len [OF r(2)] by (intro exI [of _ det'] exI [of _ ds]) auto
qed

theorem offline_detections_alternate_witness:
  "\<exists>det' ds. detector_run (offline_observe_event (UTC (seconds 1000)) (\<lambda>e. Inr (Some 2)) (\<lambda>d. Some ''s''))
       \<lparr>od_threshold_seconds = 300, od_last_seen = [], od_state = []\<rparr> [demo_sighting 0, demo_sighting 400] = (det', Inr ds) \<and>
     (dict_get (od_state det') 2 = Some Offline \<longleftrightarrow> odd (length (filter (of_device 2) ds)))"
proof -
  have i: "offline_detector_init 300 = Inr \<lparr>od_threshold_seconds = 300, od_last_seen = [], od_state = []\<rparr>"
    by (simp add: offline_detector_init_def)
  have e: "\<forall>ev \<in> set [demo_sighting 0, demo_sighting 400]. event_fits (UTC (seconds 1000)) ev \<and>
      (\<exists>od. (\<lambda>e. Inr (Some 2) :: uuid option res) ev = Inr od)"
    by (simp add: event_fits_def stamp_fits_def demo_sighting_def MAX_CLOCK_SKEW_def)
  have l: "located (\<lambda>d. Some ''s'') 2" by (simp add: located_def)
  from offline_detections_alternate [OF i e l] show ?thesis by blast
qed

end
