(* ===== verification/Alerts.thy ===== *)
theory Alerts
  imports Detectors
begin

text \<open>
  \<^verbatim>\<open>stream_pipeline/alerts\<close>: the acknowledgement projection, the router from detections to
  alerts, and the sinks. The events client is third-party code and is an argument: a
  function from a batch of entries to the new world and a possible exception.
\<close>

subsection \<open>Acknowledgements\<close>

type_synonym acknowledgement_registry = "uuid set"

definition acknowledgement_registry_init :: acknowledgement_registry where
  "acknowledgement_registry_init = {}"

definition observe_acknowledgement :: "acknowledgement_registry \<Rightarrow> event \<Rightarrow> acknowledgement_registry \<times> unit res" where
  "observe_acknowledgement reg ev =
     (case attr_uuid (ev_payload ev) ''alert_id'' of
        Inl e \<Rightarrow> (reg, Inl e)
      | Inr alert_id \<Rightarrow> (insert alert_id reg, Inr ()))"

definition is_acknowledged :: "acknowledgement_registry \<Rightarrow> uuid \<Rightarrow> bool" where
  "is_acknowledged reg alert_id \<longleftrightarrow> alert_id \<in> reg"

definition acknowledged_count :: "acknowledgement_registry \<Rightarrow> nat" where
  "acknowledged_count reg = card reg"

subsection \<open>Routing\<close>

definition alert_source :: string where "alert_source = ''stream-pipeline.alert_router''"

definition alert_id_for :: "detection_event \<Rightarrow> uuid" where
  "alert_id_for detection = derive ''alert'' [str_uuid (dp_detection_id (ev_payload detection))]"

definition build_alert :: "datetime \<Rightarrow> acknowledgement_registry \<Rightarrow> detection_event \<Rightarrow> alert_event res" where
  "build_alert now reg detection =
     (let det = ev_payload detection;
          alert_id = alert_id_for detection;
          acknowledged = is_acknowledged reg alert_id
      in
      bind_res (alert_payload_init
        \<lparr>al_alert_id = alert_id, al_detection_id = dp_detection_id det, al_detection_type = dp_detection_type det,
         al_severity = dp_severity det, al_routed_at = ev_event_timestamp detection, al_store_id = dp_store_id det,
         al_device_id = dp_device_id det, al_summary = dp_threshold_breached det,
         al_details = [(''acknowledged'', PyBool acknowledged),
                       (''detected_at'', PyStr (isoformat (dp_detected_at det)))]\<rparr>) (\<lambda>payload.
      bind_res (event_metadata_init (sc_schema_version AlertEvent) (sc_event_type AlertEvent) alert_source) (\<lambda>md.
        base_event_init AlertEvent (derive ''event.alert'' [str_uuid alert_id]) (Some md)
          (trace_context_init 0 (Some (tc_trace_id (ev_trace detection))) None INGESTION)
          (ev_event_timestamp detection) now payload)))"

definition alert_route ::
  "datetime \<Rightarrow> acknowledgement_registry \<Rightarrow> detection_event list \<Rightarrow> alert_event list res" where
  "alert_route now reg detections = map_res (build_alert now reg) detections"

subsection \<open>Sinks\<close>

record in_memory_alert_sink =
  im_published :: "alert_event list"
  im_publish_calls :: nat

definition in_memory_alert_sink_init :: in_memory_alert_sink where
  "in_memory_alert_sink_init = \<lparr>im_published = [], im_publish_calls = 0\<rparr>"

definition in_memory_publish :: "in_memory_alert_sink \<Rightarrow> alert_event list \<Rightarrow> in_memory_alert_sink \<times> unit res" where
  "in_memory_publish sink alerts =
     (sink\<lparr>im_publish_calls := im_publish_calls sink + 1, im_published := im_published sink @ alerts\<rparr>, Inr ())"

definition PUT_EVENTS_MAX_BATCH :: nat where "PUT_EVENTS_MAX_BATCH = 10"

definition ALERT_EVENT_SOURCE :: string where "ALERT_EVENT_SOURCE = ''signalforge.alerts''"

text \<open>\<^verbatim>\<open>[items[i:i+size] for i in range(0, len(items), size)]\<close>\<close>

definition chunk :: "'a list \<Rightarrow> nat \<Rightarrow> 'a list list" where
  "chunk items n = map (\<lambda>i. take n (drop (i * n) items)) [0..<(length items + n - 1) div n]"

record bridge_entry =
  be_source :: string
  be_detail_type :: string
  be_detail :: string
  be_bus_name :: string

record ('w) event_bridge_sink =
  eb_bus :: "string option"
  eb_put_events :: "'w \<Rightarrow> bridge_entry list \<Rightarrow> 'w \<times> unit res"
  eb_dump_json :: "alert_event \<Rightarrow> string"

definition bridge_entry_of :: "string \<Rightarrow> (alert_event \<Rightarrow> string) \<Rightarrow> alert_event \<Rightarrow> bridge_entry" where
  "bridge_entry_of bus dump alert =
     \<lparr>be_source = ALERT_EVENT_SOURCE,
      be_detail_type = severity_value (al_severity (ev_payload alert)) @ '':'' @ al_detection_type (ev_payload alert),
      be_detail = dump alert, be_bus_name = bus\<rparr>"

fun put_batches :: "('w \<Rightarrow> bridge_entry list \<Rightarrow> 'w \<times> unit res) \<Rightarrow> (alert_event \<Rightarrow> bridge_entry) \<Rightarrow> 'w \<Rightarrow>
    alert_event list list \<Rightarrow> 'w \<times> unit res" where
  "put_batches put entry w [] = (w, Inr ())"
| "put_batches put entry w (batch # rest) =
     (case put w (map entry batch) of
        (w', Inl e) \<Rightarrow> (w', Inl e)
      | (w', Inr _) \<Rightarrow> put_batches put entry w' rest)"

definition bridge_publish :: "'w event_bridge_sink \<Rightarrow> 'w \<Rightarrow> alert_event list \<Rightarrow> 'w \<times> unit res" where
  "bridge_publish sink w alerts =
     (case eb_bus sink of
        None \<Rightarrow> (w, Inr ())
      | Some bus \<Rightarrow>
          if alerts = [] then (w, Inr ())
          else put_batches (eb_put_events sink) (bridge_entry_of bus (eb_dump_json sink)) w
                 (chunk alerts PUT_EVENTS_MAX_BATCH))"

subsection \<open>Every detection becomes one alert\<close>

lemma alert_literals [simp]:
  "SEMVER_PATTERN (sc_schema_version AlertEvent)" "EVENT_TYPE_PATTERN (sc_event_type AlertEvent)"
  "SOURCE_PATTERN alert_source"
  by code_simp+

text \<open>A detection as the detectors build it: a valid payload and an envelope dated in UTC.\<close>

definition routable_detection :: "datetime \<Rightarrow> detection_event \<Rightarrow> bool" where
  "routable_detection now d \<longleftrightarrow>
     detection_payload_init (ev_payload d) = Inr (ev_payload d) \<and> stamp_fits now (ev_event_timestamp d)"

definition alert_of :: "acknowledgement_registry \<Rightarrow> detection_event \<Rightarrow> alert_event \<Rightarrow> bool" where
  "alert_of reg d a \<longleftrightarrow>
     al_alert_id (ev_payload a) = alert_id_for d \<and> al_detection_id (ev_payload a) = dp_detection_id (ev_payload d) \<and>
     al_severity (ev_payload a) = dp_severity (ev_payload d) \<and> al_store_id (ev_payload a) = dp_store_id (ev_payload d) \<and>
     al_device_id (ev_payload a) = dp_device_id (ev_payload d) \<and>
     al_detection_type (ev_payload a) = dp_detection_type (ev_payload d) \<and>
     dict_get (al_details (ev_payload a)) ''acknowledged'' = Some (PyBool (alert_id_for d \<in> reg)) \<and>
     tc_trace_id (ev_trace a) = tc_trace_id (ev_trace d) \<and> ev_event_timestamp a = ev_event_timestamp d"

lemma build_alert_ok: "routable_detection now d \<Longrightarrow> \<exists>a. build_alert now reg d = Inr a \<and> alert_of reg d a"
  by (auto simp: build_alert_def routable_detection_def alert_of_def alert_payload_init_Inr detection_payload_init_Inr
      event_metadata_init_Inr base_event_init_Inr inject_metadata_def stamp_fits_def utc_ok_aware alert_id_for_def
      is_acknowledged_def trace_context_init_def Let_def)

text \<open>
  C32: routing is total and faithful on what the detectors produce: every batch of
  detections yields exactly one alert each, in order, that carries the identity, severity,
  store, device and trace of its detection, a derived alert id, and the truth about its
  acknowledgement; an acknowledged alert is annotated, never withheld.
\<close>

theorem alert_routing_faithful:
  assumes "\<forall>d \<in> set ds. routable_detection now d"
  shows "\<exists>as. alert_route now reg ds = Inr as \<and> list_all2 (alert_of reg) ds as"
  using assms
proof (induction ds)
  case (Cons d ds)
  then obtain a as where "build_alert now reg d = Inr a" "alert_of reg d a" "alert_route now reg ds = Inr as"
      "list_all2 (alert_of reg) ds as" using build_alert_ok [of now d reg] by auto
  then show ?case by (simp add: alert_route_def)
qed (simp add: alert_route_def)

theorem alert_routing_faithful_witness:
  "\<exists>as. alert_route (UTC (seconds 1000)) {}
     (case outage_build_detection (UTC (seconds 1000)) 7 (1 / 2) ''s'' (PyInt 3) 4 (3 / 4) (demo_emission 1 60) of
        Inr d \<Rightarrow> [d] | Inl e \<Rightarrow> []) = Inr as \<and> length as = 1"
proof -
  let ?now = "UTC (seconds 1000)"
  have "emission_ok ?now (demo_emission 1 60)"
    by (simp add: emission_ok_def demo_emission_def stamp_fits_def MAX_CLOCK_SKEW_def)
  moreover have "we_partition_key (demo_emission 1 60) = ''s''" by (simp add: demo_emission_def)
  ultimately obtain d where d: "outage_build_detection ?now 7 (1 / 2) ''s'' (PyInt 3) 4 (3 / 4) (demo_emission 1 60) = Inr d"
    using outage_build_ok(1) [of ?now "demo_emission 1 60" 7 "1 / 2" "PyInt 3" 4 "3 / 4"] by auto
  then have "routable_detection ?now d"
    by (auto simp: routable_detection_def outage_build_detection_def make_detection_def base_event_init_Inr
        detection_payload_init_Inr stamp_fits_def demo_emission_def MAX_CLOCK_SKEW_def)
  then have "\<forall>x \<in> set [d]. routable_detection ?now x" by simp
  from alert_routing_faithful [OF this, of "{}"] d show ?thesis by (auto dest: list_all2_lengthD)
qed

text \<open>
  Acknowledgement is monotone and order-independent: after any events, an alert is
  acknowledged exactly when some event carried its id, so acknowledgements may arrive
  before, after or twice for an alert without a difference.
\<close>

theorem acknowledgement_is_a_set:
  "is_acknowledged (foldl (\<lambda>r ev. fst (observe_acknowledgement r ev)) acknowledgement_registry_init evs) i \<longleftrightarrow>
     (\<exists>ev \<in> set evs. get_attr (ev_payload ev) ''alert_id'' = Some (PyUUID i))"
proof (induction evs rule: rev_induct)
  case (snoc ev evs)
  have "attr_uuid (ev_payload ev) ''alert_id'' = Inr u \<longleftrightarrow> get_attr (ev_payload ev) ''alert_id'' = Some (PyUUID u)" for u
    by (auto simp: attr_uuid_def split: option.split pyval.split)
  from this [of i] have "i \<in> fst (observe_acknowledgement r ev) \<longleftrightarrow>
      i \<in> r \<or> get_attr (ev_payload ev) ''alert_id'' = Some (PyUUID i)" for r
    by (cases "attr_uuid (ev_payload ev) ''alert_id''") (auto simp: observe_acknowledgement_def)
  then show ?case using snoc by (simp add: is_acknowledged_def) blast
qed (simp add: is_acknowledged_def acknowledgement_registry_init_def)

subsection \<open>Delivery\<close>

lemma concat_slices: "concat (map (\<lambda>i. take n (drop (i * n) xs)) [0..<k]) = take (k * n) xs"
  by (induction k) (simp_all add: take_add [symmetric] add.commute)

lemma chunk_concat: "0 < n \<Longrightarrow> concat (chunk xs n) = xs"
proof -
  assume n: "0 < n"
  have "length xs + n - 1 < n + (length xs + n - 1) div n * n" using n by (rule dividend_less_div_times)
  then have "length xs \<le> (length xs + n - 1) div n * n" using n by linarith
  then show ?thesis by (simp add: chunk_def concat_slices)
qed

lemma chunk_sizes:
  assumes n: "0 < n" and c: "c \<in> set (chunk xs n)"
  shows "0 < length c \<and> length c \<le> n"
proof -
  obtain i where i: "i < (length xs + n - 1) div n" "c = take n (drop (i * n) xs)" using c by (auto simp: chunk_def)
  have "Suc i * n \<le> (length xs + n - 1) div n * n" using i(1) by (intro mult_le_mono1) simp
  also have "\<dots> \<le> length xs + n - 1" by (rule div_times_less_eq_dividend)
  finally have "i * n < length xs" using n by simp
  then show ?thesis using n i(2) by simp
qed

text \<open>A sink takes a batch of alerts; what it has delivered so far is a list.\<close>

locale alert_sink =
  fixes publish :: "'s \<Rightarrow> 'a list \<Rightarrow> 's \<times> unit res" and delivered :: "'s \<Rightarrow> 'b list" and render :: "'a \<Rightarrow> 'b"
  assumes publish_delivers: "delivered (fst (publish s as)) = delivered s @ map render as"
    and publish_ok: "snd (publish s as) = Inr ()"
begin

lemma publish_batches:
  "delivered (foldl (\<lambda>s as. fst (publish s as)) s batches) = delivered s @ map render (concat batches)"
  by (induction batches arbitrary: s) (simp_all add: publish_delivers)

end

interpretation mem: alert_sink in_memory_publish im_published id
  by unfold_locales (simp_all add: in_memory_publish_def)

text \<open>A client that accepts every call, recording the batches it is given.\<close>

definition accepting :: "('w \<Rightarrow> bridge_entry list \<Rightarrow> 'w \<times> unit res) \<Rightarrow> ('w \<Rightarrow> bridge_entry list list) \<Rightarrow> bool" where
  "accepting put sent \<longleftrightarrow> (\<forall>w es. snd (put w es) = Inr () \<and> sent (fst (put w es)) = sent w @ [es])"

lemma put_batches_accepting:
  assumes "accepting put sent"
  shows "snd (put_batches put entry w bs) = Inr () \<and>
     sent (fst (put_batches put entry w bs)) = sent w @ map (map entry) bs"
proof (induction bs arbitrary: w)
  case (Cons b bs)
  obtain w' where "put w (map entry b) = (w', Inr ())" "sent w' = sent w @ [map entry b]"
    using assms unfolding accepting_def by (metis fst_conv prod.collapse snd_conv)
  then show ?case using Cons.IH [of w'] by simp
qed simp

lemma bridge_publish_sent:
  assumes "accepting (eb_put_events sink) sent" and "eb_bus sink = Some bus"
  shows "snd (bridge_publish sink w as) = Inr ()" and
    "sent (fst (bridge_publish sink w as)) = sent w @
       map (map (bridge_entry_of bus (eb_dump_json sink))) (chunk as PUT_EVENTS_MAX_BATCH)"
  using assms put_batches_accepting [OF assms(1)]
  by (auto simp: bridge_publish_def chunk_def PUT_EVENTS_MAX_BATCH_def)

definition recording_sink :: "string \<Rightarrow> (alert_event \<Rightarrow> string) \<Rightarrow> bridge_entry list list event_bridge_sink" where
  "recording_sink bus dump =
     \<lparr>eb_bus = Some bus, eb_put_events = (\<lambda>w es. (w @ [es], Inr ())), eb_dump_json = dump\<rparr>"

lemma recording_accepts: "accepting (eb_put_events (recording_sink bus dump)) id"
  by (simp add: accepting_def recording_sink_def)

interpretation bridge: alert_sink "bridge_publish (recording_sink bus dump)" concat "bridge_entry_of bus dump" for bus dump
proof unfold_locales
  fix w as
  have b: "eb_bus (recording_sink bus dump) = Some bus" "eb_dump_json (recording_sink bus dump) = dump"
    by (simp_all add: recording_sink_def)
  note r = bridge_publish_sent [OF recording_accepts b(1), of w as]
  show "snd (bridge_publish (recording_sink bus dump) w as) = Inr ()" by (rule r(1))
  have "concat (map (map f) (chunk as PUT_EVENTS_MAX_BATCH)) = map f as" for f :: "alert_event \<Rightarrow> bridge_entry"
    using chunk_concat [of PUT_EVENTS_MAX_BATCH as] by (simp add: map_concat [symmetric] PUT_EVENTS_MAX_BATCH_def)
  then show "concat (fst (bridge_publish (recording_sink bus dump) w as)) = concat w @ map (bridge_entry_of bus dump) as"
    using r(2) b(2) by simp
qed


definition demo_alert :: alert_event where
  "demo_alert = \<lparr>ev_event_id = 1, ev_metadata = \<lparr>md_schema_version = ''v1'', md_event_type = ''alert.event'',
       md_source = alert_source\<rparr>, ev_trace = trace_context_init 7 None None INGESTION,
     ev_event_timestamp = UTC 0, ev_ingest_timestamp = UTC 0,
     ev_payload = \<lparr>al_alert_id = 2, al_detection_id = 3, al_detection_type = DETECTION_TYPE_STORE_OUTAGE,
       al_severity = CRITICAL, al_routed_at = UTC 0, al_store_id = ''s'', al_device_id = None,
       al_summary = ''outage'', al_details = []\<rparr>\<rparr>"


text \<open>
  How a stream of alerts is cut into published batches is invisible to the receiver:
  both sinks deliver the same alerts in the same order as one publication of all of them.
\<close>

theorem sinks_deliver_any_batching:
  "im_published (foldl (\<lambda>s as. fst (in_memory_publish s as)) in_memory_alert_sink_init batches) = concat batches \<and>
   concat (foldl (\<lambda>w as. fst (bridge_publish (recording_sink bus dump) w as)) [] batches) =
     map (bridge_entry_of bus dump) (concat batches)"
  using mem.publish_batches [of in_memory_alert_sink_init batches] bridge.publish_batches [of bus dump "[]" batches]
  by (simp add: in_memory_alert_sink_init_def)

end
