(* ===== verification/WindowRuns.thy ===== *)
theory WindowRuns
  imports WindowAggregator "HOL-Library.Multiset"
begin

text \<open>
  A window aggregator fed by a watermark manager, as steps 2 and 3 of
  \<^verbatim>\<open>RealtimePipeline.process\<close> compose them. The specification of a window is the
  list of accepted events that fall into it; the lemmas show that the mutable state and
  the emissions are functions of that list, for every interleaving of keys and every
  order of arrival.
\<close>

record observation =
  ob_key :: string
  ob_time :: datetime
  ob_value :: pyval
  ob_trace :: "string option"

definition stream_step ::
  "watermark_manager \<times> 'st window_aggregator \<Rightarrow> observation \<Rightarrow>
     (watermark_manager \<times> 'st window_aggregator) \<times> window_emission list res" where
  "stream_step ma x =
     (case wm_observe (fst ma) (ob_key x) (ob_time x) of
        (m', Inl e) \<Rightarrow> ((m', snd ma), Inl e)
      | (m', Inr observation) \<Rightarrow>
          (case agg_observe (snd ma) (ob_key x) (ob_time x) (ob_value x)
                 (wo_classification observation) (wo_watermark observation) (ob_trace x) of
             (a', r) \<Rightarrow> ((m', a'), r)))"

text \<open>A run stops at the first error; it returns every emission in order.\<close>

fun stream_run ::
  "watermark_manager \<times> 'st window_aggregator \<Rightarrow> observation list \<Rightarrow>
     (watermark_manager \<times> 'st window_aggregator) \<times> window_emission list res" where
  "stream_run ma [] = (ma, Inr [])"
| "stream_run ma (x # xs) =
     (case stream_step ma x of
        (ma', Inl e) \<Rightarrow> (ma', Inl e)
      | (ma', Inr ems) \<Rightarrow>
          (case stream_run ma' xs of (ma'', r) \<Rightarrow> (ma'', map_sum id ((@) ems) r)))"

lemma stream_run_snoc:
  "stream_run ma xs = (ma', Inr ems) \<Longrightarrow> stream_step ma' x = (ma'', Inr es) \<Longrightarrow>
   stream_run ma (xs @ [x]) = (ma'', Inr (ems @ es))"
proof (induction xs arbitrary: ma ems)
  case (Cons y ys)
  from Cons.prems(1) obtain ma1 e1 where 1: "stream_step ma y = (ma1, Inr e1)"
    by (cases "stream_step ma y") (auto split: sum.splits)
  with Cons.prems(1) obtain e2 where 2: "stream_run ma1 ys = (ma', Inr e2)" "ems = e1 @ e2"
    by (cases "stream_run ma1 ys"; cases "snd (stream_run ma1 ys)") auto
  show ?case using Cons.IH [OF 2(1) Cons.prems(2)] 1 2(2) by simp
qed simp

subsection \<open>Specification\<close>

definition mark :: "watermark_manager \<Rightarrow> observation list \<Rightarrow> watermark_manager" where
  "mark m es = wm_run m (map (\<lambda>x. (ob_key x, ob_time x)) es)"

text \<open>The events a run accepts: those that are not dropped when they arrive.\<close>

fun accepted :: "watermark_manager \<Rightarrow> observation list \<Rightarrow> observation list" where
  "accepted m [] = []"
| "accepted m (x # xs) =
     (if classify m (ob_time x) (watermark_for m (ob_key x)) = LATE_DROPPED then [] else [x]) @
     accepted (fst (wm_observe m (ob_key x) (ob_time x))) xs"

definition in_window :: "window_spec \<Rightarrow> string \<Rightarrow> int \<Rightarrow> observation \<Rightarrow> bool" where
  "in_window sp k s x \<longleftrightarrow> ob_key x = k \<and> spec_slide sp dvd s \<and>
     s \<le> instant (ob_time x) \<and> instant (ob_time x) < s + spec_size sp"

definition members :: "window_spec \<Rightarrow> watermark_manager \<Rightarrow> observation list \<Rightarrow> string \<Rightarrow> int \<Rightarrow> observation list" where
  "members sp m es k s = filter (in_window sp k s) (accepted m es)"

definition passed :: "window_spec \<Rightarrow> watermark_manager \<Rightarrow> observation list \<Rightarrow> string \<Rightarrow> int \<Rightarrow> bool" where
  "passed sp m es k s \<longleftrightarrow> s + spec_size sp \<le> instant (watermark_for (mark m es) k)"

text \<open>A window is due once it has an event and the watermark has passed its end.\<close>

definition due :: "window_spec \<Rightarrow> watermark_manager \<Rightarrow> observation list \<Rightarrow> string \<Rightarrow> int \<Rightarrow> bool" where
  "due sp m es k s \<longleftrightarrow> members sp m es k s \<noteq> [] \<and> passed sp m es k s"

definition batch :: "'st aggregation \<Rightarrow> observation list \<Rightarrow> 'st" where
  "batch ag xs = foldl (agg_step ag) (agg_initial ag) (map ob_value xs)"

definition window_of :: "'st aggregation \<Rightarrow> observation list \<Rightarrow> bool \<Rightarrow> 'st window_state" where
  "window_of ag xs flag =
     \<lparr>ws_state = batch ag xs, ws_event_count = int (length xs), ws_has_emitted = flag,
      ws_last_trace = ob_trace (last xs)\<rparr>"

definition run_spec ::
  "'st window_aggregator \<Rightarrow> watermark_manager \<Rightarrow> observation list \<Rightarrow> string \<Rightarrow> int \<Rightarrow> 'st window_state option" where
  "run_spec a m es k s =
     (if members (wa_spec a) m es k s = [] \<or> sealed a (instant (watermark_for (mark m es) k)) s then None
      else Some (window_of (wa_agg a) (members (wa_spec a) m es k s) (passed (wa_spec a) m es k s)))"

lemma mark_snoc [simp]: "mark m (es @ [x]) = fst (wm_observe (mark m es) (ob_key x) (ob_time x))"
  by (simp add: mark_def wm_run_append)

lemma accepted_snoc:
  "accepted m (es @ [x]) = accepted m es @
     (if classify (mark m es) (ob_time x) (watermark_for (mark m es) (ob_key x)) = LATE_DROPPED then [] else [x])"
  by (induction m es rule: accepted.induct) (auto simp: mark_def)

definition admitted :: "watermark_manager \<Rightarrow> observation list \<Rightarrow> observation \<Rightarrow> bool" where
  "admitted m es x \<longleftrightarrow>
     classify (mark m es) (ob_time x) (watermark_for (mark m es) (ob_key x)) \<noteq> LATE_DROPPED"

lemma members_snoc:
  "members sp m (es @ [x]) k s =
     members sp m es k s @ (if admitted m es x \<and> in_window sp k s x then [x] else [])"
  by (simp add: members_def accepted_snoc admitted_def)

lemma bump_window_of:
  "bump ag (ob_value x) (ob_trace x) (Some (window_of ag xs f)) = window_of ag (xs @ [x]) f"
  by (simp add: bump_def window_of_def batch_def Let_def)

lemma bump_None: "bump ag (ob_value x) (ob_trace x) None = window_of ag [x] False"
  by (simp add: bump_def window_of_def batch_def fresh_state_def Let_def)

subsection \<open>One step\<close>

text \<open>The events of a run the theorems speak of.\<close>

definition event_ok :: "int \<Rightarrow> observation \<Rightarrow> bool" where
  "event_ok n x \<longleftrightarrow> wm_event_ok n (ob_key x) (ob_time x) \<and> stamp_ok (ob_time x)"

definition run_inv ::
  "'st window_aggregator \<Rightarrow> watermark_manager \<Rightarrow> observation list \<Rightarrow> 'st window_aggregator \<Rightarrow> bool" where
  "run_inv a0 m es a \<longleftrightarrow> wa_inv a \<and> same_config a a0 \<and> (\<forall>k s. win a k s = run_spec a0 m es k s)"

text \<open>A freshly built pair whose parts agree on the tolerance.\<close>

definition setup_ok :: "int \<Rightarrow> watermark_manager \<Rightarrow> 'st window_aggregator \<Rightarrow> bool" where
  "setup_ok n m a \<longleftrightarrow> watermark_manager_init n = Inr m \<and>
     window_aggregator_init (wa_spec a) (wa_agg a) n = Inr a \<and> spec_ok (wa_spec a) \<and>
     slide_seconds (wa_spec a) \<le> 2 ^ 52 \<and> agg_total (wa_agg a)"

definition expected ::
  "'st window_aggregator \<Rightarrow> watermark_manager \<Rightarrow> observation list \<Rightarrow> observation \<Rightarrow> string \<Rightarrow> int \<Rightarrow>
     window_emission list" where
  "expected a m es x k s =
     (if due (wa_spec a) m (es @ [x]) k s \<and>
         (\<not> due (wa_spec a) m es k s \<or> members (wa_spec a) m (es @ [x]) k s \<noteq> members (wa_spec a) m es k s)
      then [emission_of a k s (due (wa_spec a) m es k s)
              (window_of (wa_agg a) (members (wa_spec a) m (es @ [x]) k s) True)]
      else [])"

lemma wm_good_mark:
  "watermark_manager_init n = Inr m \<Longrightarrow> \<forall>x \<in> set es. event_ok n x \<Longrightarrow> wm_good n (mark m es)"
proof (induction es rule: rev_induct)
  case Nil
  then show ?case by (simp add: mark_def wm_good_init)
next
  case (snoc x es)
  then show ?case by (simp add: event_ok_def wmc.good_after)
qed

lemma passed_mono:
  "wm_good n (mark m es) \<Longrightarrow> event_ok n x \<Longrightarrow> passed sp m es k s \<Longrightarrow> passed sp m (es @ [x]) k s"
  using wmc.wmark_mono_all [of n "mark m es" "ob_key x" "ob_time x" k]
  by (simp add: passed_def event_ok_def)

lemma due_mono:
  "wm_good n (mark m es) \<Longrightarrow> event_ok n x \<Longrightarrow> due sp m es k s \<Longrightarrow> due sp m (es @ [x]) k s"
  using passed_mono by (simp add: due_def members_snoc)

lemma window_of_flag [simp]: "(window_of ag xs f)\<lparr>ws_has_emitted := g\<rparr> = window_of ag xs g"
  by (simp add: window_of_def)

lemma window_of_has_emitted [simp]: "ws_has_emitted (window_of ag xs f) = f"
  by (simp add: window_of_def)

lemma window_of_emitted [simp]: "emitted (Some (window_of ag xs f)) = f"
  by (simp add: emitted_def window_of_def)

lemma emission_of_flag: "emission_of a k s r (window_of ag xs f) = emission_of a k s r (window_of ag xs True)"
  by (simp add: emission_of_def window_of_def)

text \<open>A window between the contribution of an event and the closing sweep.\<close>

definition touched ::
  "'st window_aggregator \<Rightarrow> watermark_manager \<Rightarrow> observation list \<Rightarrow> observation \<Rightarrow> string \<Rightarrow> int \<Rightarrow>
     'st window_state option" where
  "touched a0 m es x k s =
     (if members (wa_spec a0) m (es @ [x]) k s = [] \<or> sealed a0 (instant (watermark_for (mark m es) k)) s then None
      else Some (window_of (wa_agg a0) (members (wa_spec a0) m (es @ [x]) k s) (due (wa_spec a0) m es k s)))"

lemma touch_run:
  assumes win: "win a k s = run_spec a0 m es k s" and ag: "wa_agg a = wa_agg a0"
    and ss: "s \<in> set ss \<longleftrightarrow> admitted m es x \<and> in_window (wa_spec a0) k s x"
    and ns: "s \<in> set ss \<Longrightarrow> \<not> sealed a0 (instant (watermark_for (mark m es) k)) s"
  shows "touch a k (ob_value x) (ob_trace x) ss s =
     touched a0 m es x k s"
  using ns by (auto simp: touch_def touched_def win run_spec_def ag ss members_snoc bump_window_of bump_None due_def)

lemma closed_run:
  assumes g: "wm_good n (mark m es)" and x: "event_ok n x" and cfg: "same_config a a0"
  shows "Option.bind (touched a0 m es x k s)
      (closed_state a (instant (watermark_for (mark m (es @ [x])) k)) s) = run_spec a0 m (es @ [x]) k s"
proof -
  have le: "instant (watermark_for (mark m es) k) \<le> instant (watermark_for (mark m (es @ [x])) k)"
    using wmc.wmark_mono_all [OF g, of "ob_key x" "ob_time x" k] x by (simp add: event_ok_def)
  have d: "due (wa_spec a0) m es k s \<Longrightarrow> passed (wa_spec a0) m (es @ [x]) k s"
    using due_mono [OF g x] by (auto simp: due_def)
  have cs: "closed_state a = closed_state a0" by (rule closed_state_config [OF cfg])
  show ?thesis
  proof (cases "sealed a0 (instant (watermark_for (mark m es) k)) s")
    case True
    then have "sealed a0 (instant (watermark_for (mark m (es @ [x])) k)) s"
      using le by (simp add: sealed_def)
    then show ?thesis using True by (simp add: run_spec_def touched_def)
  next
    case False
    moreover have "(due (wa_spec a0) m es k s \<or> passed (wa_spec a0) m (es @ [x]) k s)
        = passed (wa_spec a0) m (es @ [x]) k s" using d by blast
    ultimately show ?thesis
      by (simp add: run_spec_def touched_def cs closed_state_def passed_def)
  qed
qed

lemma run_spec_frame:
  assumes "k \<noteq> ob_key x"
  shows "run_spec a m (es @ [x]) k s = run_spec a m es k s" and "expected a m es x k s = []"
proof -
  have mb: "members sp m (es @ [x]) k s = members sp m es k s" for sp
    using assms by (simp add: members_snoc in_window_def)
  have wm: "instant (watermark_for (fst (wm_observe (mark m es) (ob_key x) (ob_time x))) k)
      = instant (watermark_for (mark m es) k)"
    by (rule wmc.wmark_frame [OF assms])
  show "run_spec a m (es @ [x]) k s = run_spec a m es k s"
    by (simp add: run_spec_def mb wm passed_def)
  show "expected a m es x k s = []"
    by (simp add: expected_def mb due_def passed_def wm)
qed


lemma expected_run:
  assumes g: "wm_good n (mark m es)" and x: "event_ok n x" and lat: "wa_lateness a0 = seconds n" "0 \<le> n"
    and k: "k = ob_key x"
    and t: "tch = touched a0 m es x k s"
  shows "expected a0 m es x k s =
     (if closing a0 (instant (watermark_for (mark m (es @ [x])) k)) s tch
        then [emission_of a0 k s False (the tch)]
      else if (admitted m es x \<and> in_window (wa_spec a0) k s x) \<and>
          classify (mark m es) (ob_time x) (watermark_for (mark m es) k) = LATE_TOLERATED \<and>
          emitted (run_spec a0 m es k s)
        then [emission_of a0 k s True (the tch)] else [])"
proof -
  let ?sp = "wa_spec a0" and ?W = "instant (watermark_for (mark m es) k)"
  let ?cls = "classify (mark m es) (ob_time x) (watermark_for (mark m es) k)"
  let ?inw = "admitted m es x \<and> in_window ?sp k s x"
  have sp: "sealed a0 ?W s \<Longrightarrow> passed ?sp m es k s" for s
    using lat by (simp add: sealed_def passed_def)
  have em: "emitted (run_spec a0 m es k s) \<longleftrightarrow> due ?sp m es k s \<and> \<not> sealed a0 ?W s"
    by (auto simp: run_spec_def due_def emitted_def)
  have chg: "members ?sp m (es @ [x]) k s \<noteq> members ?sp m es k s \<longleftrightarrow> ?inw"
    by (simp add: members_snoc)
  have mono: "due ?sp m es k s \<Longrightarrow> due ?sp m (es @ [x]) k s" by (rule due_mono [OF g x])
  have late: "?cls = LATE_TOLERATED" if "?inw" "due ?sp m es k s"
  proof -
    have "?cls \<noteq> ON_TIME"
      using wmc.on_time_not_passed [of "mark m es" "ob_time x" k "s + spec_size ?sp"] that
      by (auto simp: in_window_def due_def passed_def)
    then show ?thesis using that k by (cases ?cls) (auto simp: admitted_def)
  qed
  have open_: "\<not> sealed a0 ?W s" if "?inw"
  proof
    assume "sealed a0 ?W s"
    moreover have "?W \<le> instant (watermark_for (fst (wm_observe (mark m es) k (ob_time x))) k)"
      using wmc.wmark_mono [OF g, of k "ob_time x"] x k by (simp add: event_ok_def)
    ultimately show False
      using wmc.accepted_not_expired [OF g, of k "ob_time x" "s + spec_size ?sp"] that x k lat
      by (auto simp: sealed_def in_window_def event_ok_def admitted_def)
  qed
  have clo: "closing a0 (instant (watermark_for (mark m (es @ [x])) k)) s tch
      \<longleftrightarrow> due ?sp m (es @ [x]) k s \<and> \<not> due ?sp m es k s"
    using sp [of s] open_ by (auto simp: closing_def t touched_def due_def passed_def members_snoc)
  have "due ?sp m (es @ [x]) k s \<and> (\<not> due ?sp m es k s \<or> ?inw) \<Longrightarrow>
      tch = Some (window_of (wa_agg a0) (members ?sp m (es @ [x]) k s) (due ?sp m es k s))"
    using sp [of s] open_ by (auto simp: t touched_def due_def members_snoc split: if_splits)
  then show ?thesis
    unfolding expected_def chg clo em using mono late open_
    by (auto simp: emission_of_flag [where f = False] emission_of_flag [where f = "due ?sp m es k s"])
qed

lemma stream_step_spec:
  assumes su: "setup_ok n m a0" and inv: "run_inv a0 m es a"
    and es: "\<forall>x \<in> set es. event_ok n x" and x: "event_ok n x"
  shows "\<exists>a' ems. stream_step (mark m es, a) x = ((mark m (es @ [x]), a'), Inr ems) \<and>
      run_inv a0 m (es @ [x]) a' \<and> (\<forall>k s. filter (own k s) ems = expected a0 m es x k s)"
proof -
  let ?k = "ob_key x" and ?t = "ob_time x"
  let ?m' = "fst (wm_observe (mark m es) ?k ?t)"
  let ?w = "watermark_for ?m' ?k" and ?cl = "classify (mark m es) ?t (watermark_for (mark m es) ?k)"
  let ?ss = "if ?cl = LATE_DROPPED then [] else windows_containing (wa_spec a) ?t"
  have g: "wm_good n (mark m es)" using su es wm_good_mark by (auto simp: setup_ok_def)
  have I: "wa_inv a" "same_config a a0" "\<And>k s. win a k s = run_spec a0 m es k s"
    using inv by (simp_all add: run_inv_def)
  then have cfg: "wa_spec a = wa_spec a0" "wa_agg a = wa_agg a0" "wa_lateness a = wa_lateness a0"
    by (simp_all add: same_config_def)
  have lat: "wa_lateness a0 = seconds n" "0 \<le> n"
    using su by (auto simp: setup_ok_def window_aggregator_init_def split: if_splits)
      (metis window_aggregator.select_convs(3))
  have x': "?k \<noteq> []" "aware ?t" "stamp_ok ?t" using x by (auto simp: event_ok_def wm_event_ok_def)
  obtain ob where ob: "wm_observe (mark m es) ?k ?t = (?m', Inr ob)" "wo_classification ob = ?cl" "wo_watermark ob = ?w"
    using wm_observe_ok [OF x'(1,2), of "mark m es"] wm_observe_watermark_for [of "mark m es" ?k ?t]
    by (cases "wm_observe (mark m es) ?k ?t") auto
  have aw: "aware ?w"
    using g aware_high_for [OF wm_inv_observe] by (simp add: watermark_for_def derive_watermark_def wm_good_def)
  note wc = windows_containing_exact [OF x'(3)]
  have ss: "s \<in> set ?ss \<longleftrightarrow> admitted m es x \<and> in_window (wa_spec a0) ?k s x" for s
    using wc [of "wa_spec a0"] su by (auto simp: admitted_def in_window_def cfg setup_ok_def)
  have dist: "distinct ?ss" using wc(3) [of "wa_spec a0"] su by (simp add: cfg setup_ok_def)
  have ns: "\<not> sealed a (instant ?w) s" if "s \<in> set ?ss" for s
    using that wmc.accepted_not_expired [OF g, of ?k ?t "s + spec_size (wa_spec a0)"] x
    by (auto simp: ss sealed_def cfg lat admitted_def in_window_def event_ok_def)
  then have nsb: "\<forall>s \<in> set ?ss. \<not> sealed a (instant ?w) s" by blast
  have tot: "agg_total (wa_agg a)" using su by (simp add: cfg setup_ok_def)
  have tch: "touch a ?k (ob_value x) (ob_trace x) ?ss s =
     touched a0 m es x ?k s" for s
  proof (rule touch_run [OF I(3) cfg(2) ss])
    assume "s \<in> set ?ss"
    then have "\<not> sealed a0 (instant ?w) s" using ns sealed_config [OF I(2)] by simp
    then show "\<not> sealed a0 (instant (watermark_for (mark m es) ?k)) s"
      using wmc.wmark_mono [OF g, of ?k ?t] x by (simp add: sealed_def event_ok_def)
  qed
  obtain a' ems where obs: "agg_observe a ?k ?t (ob_value x) ?cl ?w (ob_trace x) = (a', Inr ems)"
      "same_config a' a" "wa_inv a'"
    and wn: "\<And>k s. win a' k s = (if k = ?k
      then Option.bind (touch a ?k (ob_value x) (ob_trace x) ?ss s) (closed_state a (instant ?w) s) else win a k s)"
    and em: "\<And>k s. filter (own k s) ems =
         (if k \<noteq> ?k then []
          else if closing a (instant ?w) s (touch a ?k (ob_value x) (ob_trace x) ?ss s)
            then [emission_of a ?k s False (the (touch a ?k (ob_value x) (ob_trace x) ?ss s))]
          else if s \<in> set ?ss \<and> ?cl = LATE_TOLERATED \<and> emitted (win a ?k s)
            then [emission_of a ?k s True (the (touch a ?k (ob_value x) (ob_trace x) ?ss s))] else [])"
    using agg_observe_spec [OF I(1) tot x'(1,2) aw refl dist nsb, of "ob_value x" "ob_trace x"] by blast
  have "win a' k s = run_spec a0 m (es @ [x]) k s" for k s
    using closed_run [OF g x I(2), of ?k s] run_spec_frame(1) [of k x a0 m es s]
    by (simp add: wn tch I(3))
  moreover have "filter (own k s) ems = expected a0 m es x k s" for k s
  proof (cases "k = ?k")
    case True
    show ?thesis
      unfolding True expected_run [OF g x lat refl tch] em ss I(3)
      by (simp add: closing_def cfg emission_of_config [OF I(2)])
  qed (simp add: em run_spec_frame(2))
  moreover have "same_config a' a0" by (rule same_config_trans [OF obs(2) I(2)])
  moreover have "stream_step (mark m es, a) x = ((mark m (es @ [x]), a'), Inr ems)"
    unfolding stream_step_def fst_conv snd_conv by (subst ob(1)) (simp add: ob(2,3) obs(1))
  ultimately show ?thesis
    using obs(3) unfolding run_inv_def by blast
qed

subsection \<open>Runs\<close>

text \<open>
  The history of reports of one window: nothing before it is due; afterwards one closure,
  then repairs only, the latest report carrying the aggregate of every member so far.
\<close>

definition reports ::
  "'st window_aggregator \<Rightarrow> watermark_manager \<Rightarrow> observation list \<Rightarrow> string \<Rightarrow> int \<Rightarrow> window_emission list \<Rightarrow> bool" where
  "reports a m es k s F \<longleftrightarrow>
     (if due (wa_spec a) m es k s
      then F \<noteq> [] \<and> \<not> we_is_repair (hd F) \<and> (\<forall>r \<in> set (tl F). we_is_repair r) \<and>
           (last F)\<lparr>we_is_repair := False\<rparr> =
             emission_of a k s False (window_of (wa_agg a) (members (wa_spec a) m es k s) True)
      else F = [])"

lemma repair_flag [simp]: "(emission_of a k s r st)\<lparr>we_is_repair := q\<rparr> = emission_of a k s q st"
  by (simp add: emission_of_def)

lemma is_repair_emission [simp]: "we_is_repair (emission_of a k s r st) = r"
  by (simp add: emission_of_def)

lemma reports_step:
  assumes g: "wm_good n (mark m es)" and x: "event_ok n x" and r: "reports a m es k s F"
  shows "reports a m (es @ [x]) k s (F @ expected a m es x k s)"
proof (cases "due (wa_spec a) m es k s")
  case True
  then have "due (wa_spec a) m (es @ [x]) k s" by (rule due_mono [OF g x])
  then show ?thesis using True r by (auto simp: reports_def expected_def)
next
  case False
  then show ?thesis using r by (simp add: reports_def expected_def)
qed

lemma reports_last:
  assumes "reports a m es k s F" and "due (wa_spec a) m es k s"
  shows "F \<noteq> []" "we_value (last F) = agg_finalise (wa_agg a) (batch (wa_agg a) (members (wa_spec a) m es k s))"
    "we_event_count (last F) = int (length (members (wa_spec a) m es k s))"
    "we_window_end (last F) = s + spec_size (wa_spec a)"
proof -
  show "F \<noteq> []" using assms by (simp add: reports_def)
  have l: "(last F)\<lparr>we_is_repair := False\<rparr> =
      emission_of a k s False (window_of (wa_agg a) (members (wa_spec a) m es k s) True)"
    using assms by (simp add: reports_def)
  show "we_value (last F) = agg_finalise (wa_agg a) (batch (wa_agg a) (members (wa_spec a) m es k s))"
    "we_event_count (last F) = int (length (members (wa_spec a) m es k s))"
    "we_window_end (last F) = s + spec_size (wa_spec a)"
    using arg_cong [OF l, of we_value] arg_cong [OF l, of we_event_count] arg_cong [OF l, of we_window_end]
    by (simp_all add: emission_of_def window_of_def)
qed

lemma due_empty: "\<not> due sp m [] k s"
  by (simp add: due_def members_def)

lemma run_inv_empty: "setup_ok n m a \<Longrightarrow> run_inv a m [] a"
  using wa_inv_init [of "wa_spec a" "wa_agg a" n a]
  by (auto simp: setup_ok_def run_inv_def run_spec_def members_def win_def window_aggregator_init_def
      split: if_splits) (metis window_aggregator.select_convs(4) map_of.simps(1))

lemma stream_run_spec:
  assumes su: "setup_ok n m a0" and es: "\<forall>x \<in> set es. event_ok n x"
  shows "\<exists>a ems. stream_run (m, a0) es = ((mark m es, a), Inr ems) \<and> run_inv a0 m es a \<and>
      (\<forall>k s. reports a0 m es k s (filter (own k s) ems))"
  using es
proof (induction es rule: rev_induct)
  case Nil
  show ?case using run_inv_empty [OF su] by (simp add: reports_def due_empty mark_def)
next
  case (snoc x es)
  from snoc obtain a ems where IH: "stream_run (m, a0) es = ((mark m es, a), Inr ems)" "run_inv a0 m es a"
      "\<forall>k s. reports a0 m es k s (filter (own k s) ems)" by auto
  have es: "\<forall>x \<in> set es. event_ok n x" and x: "event_ok n x" using snoc.prems by auto
  have g: "wm_good n (mark m es)" using su es wm_good_mark by (auto simp: setup_ok_def)
  obtain a' e where st: "stream_step (mark m es, a) x = ((mark m (es @ [x]), a'), Inr e)"
      "run_inv a0 m (es @ [x]) a'" "\<And>k s. filter (own k s) e = expected a0 m es x k s"
    using stream_step_spec [OF su IH(2) es x] by blast
  have "reports a0 m (es @ [x]) k s (filter (own k s) (ems @ e))" for k s
    unfolding filter_append st(3) using IH(3) by (intro reports_step [OF g x]) simp
  then show ?case using stream_run_snoc [OF IH(1) st(1)] st(2) by blast
qed


text \<open>
  C2: a window is closed exactly once. Its reports in the emissions of a run are empty until
  it has an accepted event and the watermark passed its end; from then on the first is a
  closure and every later one a repair.
\<close>

theorem closed_exactly_once:
  assumes "setup_ok n m a0" and "\<forall>x \<in> set es. event_ok n x" and "stream_run (m, a0) es = (ma, Inr ems)"
  shows "length (filter (\<lambda>e. own k s e \<and> \<not> we_is_repair e) ems) =
       (if due (wa_spec a0) m es k s then 1 else 0) \<and>
     (\<forall>e \<in> set (take 1 (filter (own k s) ems)). \<not> we_is_repair e)"
proof -
  have r: "reports a0 m es k s (filter (own k s) ems)"
    using stream_run_spec [OF assms(1,2)] assms(3) by auto
  have split: "filter (\<lambda>e. own k s e \<and> \<not> we_is_repair e) ems
      = filter (\<lambda>e. \<not> we_is_repair e) (filter (own k s) ems)"
    by (simp add: conj_commute)
  show ?thesis
    using r unfolding split by (cases "filter (own k s) ems") (auto simp: reports_def filter_empty_conv split: if_splits)
qed

text \<open>
  C3: no accepted event is lost. At any point of a run, the latest report of every window
  that is due has the aggregate value and the event count of all the events accepted for
  that window so far, in arrival order, late-tolerated ones included.
\<close>

theorem latest_report_is_complete:
  assumes "setup_ok n m a0" and "\<forall>x \<in> set es. event_ok n x" and "stream_run (m, a0) es = (ma, Inr ems)"
    and "due (wa_spec a0) m es k s"
  shows "filter (own k s) ems \<noteq> [] \<and>
     we_value (last (filter (own k s) ems)) =
       agg_finalise (wa_agg a0) (batch (wa_agg a0) (members (wa_spec a0) m es k s)) \<and>
     we_event_count (last (filter (own k s) ems)) = int (length (members (wa_spec a0) m es k s)) \<and>
     we_window_end (last (filter (own k s) ems)) = s + spec_size (wa_spec a0)"
proof -
  have "reports a0 m es k s (filter (own k s) ems)"
    using stream_run_spec [OF assms(1,2)] assms(3) by auto
  from reports_last [OF this assms(4)] show ?thesis by simp
qed

subsection \<open>A concrete run\<close>

text \<open>One closure, a tolerated repair, a dropped event and another repair.\<close>

definition demo_manager :: watermark_manager where
  "demo_manager = \<lparr>wm_lateness = seconds 60, wm_high_event_ts = []\<rparr>"

definition demo_aggregator :: "int window_aggregator" where
  "demo_aggregator = \<lparr>wa_spec = \<lparr>size_seconds = 60, slide_seconds = 60\<rparr>, wa_agg = CountAggregation,
     wa_lateness = seconds 60, wa_states = [], wa_open_starts = []\<rparr>"

definition demo_event :: "int \<Rightarrow> observation" where
  "demo_event t = \<lparr>ob_key = ''s'', ob_time = UTC (seconds t), ob_value = PyNone, ob_trace = None\<rparr>"

definition demo_events :: "observation list" where
  "demo_events = map demo_event [965, 1100, 990, 970, 1011]"

lemma demo_run:
  "map (\<lambda>e. (we_window_start e, we_value e, we_is_repair e))
     (projr (snd (stream_run (demo_manager, demo_aggregator) demo_events))) =
   [(seconds 960, PyInt 1, False), (seconds 960, PyInt 2, True), (seconds 960, PyInt 3, True)]"
  by code_simp

lemma demo_ok: "setup_ok 60 demo_manager demo_aggregator" "\<forall>x \<in> set demo_events. event_ok 60 x"
  by (simp_all add: setup_ok_def demo_manager_def demo_aggregator_def watermark_manager_init_def
      window_aggregator_init_def spec_ok_def agg_total_def CountAggregation_def demo_events_def demo_event_def
      event_ok_def wm_event_ok_def stamp_ok_def EPOCH_BASELINE_def datetime_min_utc_def)

lemma demo_due: "due (wa_spec demo_aggregator) demo_manager demo_events ''s'' (seconds 960)"
  by code_simp


lemma demo_runs:
  obtains ma ems where "stream_run (demo_manager, demo_aggregator) demo_events = (ma, Inr ems)"
  using stream_run_spec [OF demo_ok] by blast

theorem closed_exactly_once_witness:
  "\<exists>ma ems. stream_run (demo_manager, demo_aggregator) demo_events = (ma, Inr ems) \<and>
     length (filter (\<lambda>e. own ''s'' (seconds 960) e \<and> \<not> we_is_repair e) ems) = 1"
proof -
  obtain ma ems where r: "stream_run (demo_manager, demo_aggregator) demo_events = (ma, Inr ems)"
    by (rule demo_runs)
  show ?thesis
    using closed_exactly_once [OF demo_ok r, of "''s''" "seconds 960"] demo_due r by auto
qed

theorem latest_report_is_complete_witness:
  "\<exists>ma ems. stream_run (demo_manager, demo_aggregator) demo_events = (ma, Inr ems) \<and>
     we_event_count (last (filter (own ''s'' (seconds 960)) ems)) =
       int (length (members (wa_spec demo_aggregator) demo_manager demo_events ''s'' (seconds 960)))"
proof -
  obtain ma ems where r: "stream_run (demo_manager, demo_aggregator) demo_events = (ma, Inr ems)"
    by (rule demo_runs)
  show ?thesis
    using latest_report_is_complete [OF demo_ok r demo_due] r by blast
qed

subsection \<open>Progress\<close>

lemma members_mono: "set (members sp m es k s) \<subseteq> set (members sp m (es @ xs) k s)"
proof (induction xs rule: rev_induct)
  case (snoc x xs)
  have "members sp m (es @ xs @ [x]) k s = members sp m ((es @ xs) @ [x]) k s" by simp
  then show ?case using snoc by (simp only: members_snoc) auto
qed simp

lemma due_mono_run:
  assumes "setup_ok n m a0" "\<forall>x \<in> set (es @ xs). event_ok n x" "due sp m es k s"
  shows "due sp m (es @ xs) k s"
  using assms(2)
proof (induction xs rule: rev_induct)
  case Nil
  then show ?case using assms(3) by simp
next
  case (snoc x xs)
  have "wm_good n (mark m (es @ xs))" using snoc.prems assms(1) by (intro wm_good_mark) (auto simp: setup_ok_def)
  from due_mono [OF this, of x sp k s] snoc show ?case by simp
qed

lemma watermark_reaches:
  assumes "wm_good n m" "wm_event_ok n k t"
  shows "instant t - seconds n \<le> instant (watermark_for (fst (wm_observe m k t)) k)"
  using assms by (auto simp: watermark_for_def derive_watermark_def high_for_observe wm_good_def wm_event_ok_def wm_inv_def max_def split: if_splits)

text \<open>
  C4: every accepted event is reported in the end. Once its key has an event whose time is past
  the end of the window by the tolerance, and whatever arrives before and after, the run
  has returned a closure of the window, and the latest report of the window counts the
  event together with every other one accepted for it.
\<close>

theorem accepted_event_eventually_reported:
  assumes su: "setup_ok n m a0" and ok: "\<forall>z \<in> set (es @ x # rest). event_ok n z"
    and y: "y \<in> set (accepted m es)" "in_window (wa_spec a0) k s y"
    and x: "ob_key x = k" "s + spec_size (wa_spec a0) + seconds n \<le> instant (ob_time x)"
  shows "\<exists>ma ems. stream_run (m, a0) (es @ x # rest) = (ma, Inr ems) \<and> (\<exists>e \<in> set ems. own k s e \<and> \<not> we_is_repair e) \<and>
     y \<in> set (members (wa_spec a0) m (es @ x # rest) k s) \<and>
     we_event_count (last (filter (own k s) ems)) = int (length (members (wa_spec a0) m (es @ x # rest) k s)) \<and>
     we_value (last (filter (own k s) ems)) = agg_finalise (wa_agg a0) (batch (wa_agg a0) (members (wa_spec a0) m (es @ x # rest) k s))"
proof -
  let ?sp = "wa_spec a0" and ?all = "es @ x # rest"
  have g: "wm_good n (mark m es)" using su ok by (intro wm_good_mark) (auto simp: setup_ok_def)
  have "wm_event_ok n k (ob_time x)" using ok x(1) by (auto simp: event_ok_def)
  from watermark_reaches [OF g this] have "passed ?sp m (es @ [x]) k s" using x by (simp add: passed_def)
  moreover have ye: "y \<in> set (members ?sp m es k s)" using y by (simp add: members_def)
  ultimately have "due ?sp m (es @ [x]) k s" using members_mono [of ?sp m es k s "[x]"] by (auto simp: due_def)
  then have due: "due ?sp m ?all k s" using due_mono_run [OF su, of "es @ [x]" rest ?sp k s] ok by simp
  obtain a ems where run: "stream_run (m, a0) ?all = ((mark m ?all, a), Inr ems)" "reports a0 m ?all k s (filter (own k s) ems)"
    using stream_run_spec [OF su ok] by blast
  have "filter (own k s) ems \<noteq> []" "\<not> we_is_repair (hd (filter (own k s) ems))" using run(2) due by (auto simp: reports_def)
  then have "\<exists>e \<in> set ems. own k s e \<and> \<not> we_is_repair e" by (metis filter_eq_Cons_iff hd_Cons_tl in_set_conv_decomp)
  then show ?thesis using run reports_last [OF run(2) due] ye members_mono [of ?sp m es k s "x # rest"] by blast
qed

theorem accepted_event_eventually_reported_witness:
  "\<exists>ma ems. stream_run (demo_manager, demo_aggregator) demo_events = (ma, Inr ems) \<and>
     (\<exists>e \<in> set ems. own ''s'' (seconds 960) e \<and> \<not> we_is_repair e) \<and>
     we_event_count (last (filter (own ''s'' (seconds 960)) ems)) = int (length (members (wa_spec demo_aggregator) demo_manager demo_events ''s'' (seconds 960)))"
proof -
  have e: "demo_events = [demo_event 965] @ demo_event 1100 # map demo_event [990, 970, 1011]" by (simp add: demo_events_def)
  have "demo_event 965 \<in> set (accepted demo_manager [demo_event 965])" "in_window (wa_spec demo_aggregator) ''s'' (seconds 960) (demo_event 965)"
      "ob_key (demo_event 1100) = ''s''" "seconds 960 + spec_size (wa_spec demo_aggregator) + seconds 60 \<le> instant (ob_time (demo_event 1100))"
    by code_simp+
  from accepted_event_eventually_reported [OF demo_ok(1) demo_ok(2) [unfolded e] this, folded e] show ?thesis by blast
qed

subsection \<open>Order of arrival\<close>

text \<open>An aggregation whose steps commute: counts and distinct counts, not floating-point sums.\<close>

definition agg_commutes :: "'st aggregation \<Rightarrow> bool" where
  "agg_commutes ag \<longleftrightarrow> (\<forall>s c d. agg_step ag (agg_step ag s c) d = agg_step ag (agg_step ag s d) c)"

lemma agg_commutes_Count: "agg_commutes CountAggregation"
  by (simp add: agg_commutes_def agg_step_def CountAggregation_def)

lemma agg_commutes_DistinctCount: "agg_commutes (DistinctCountAggregation (\<lambda>c. Inr (f c)))"
  by (auto simp: agg_commutes_def agg_step_def DistinctCountAggregation_def bind_res_def)

lemma batch_mset:
  assumes "agg_commutes ag" and "mset xs = mset ys"
  shows "batch ag xs = batch ag ys"
proof -
  have "fold (\<lambda>x s. agg_step ag s (ob_value x)) xs = fold (\<lambda>x s. agg_step ag s (ob_value x)) ys"
    using assms by (intro fold_multiset_equiv) (auto simp: agg_commutes_def fun_eq_iff)
  then show ?thesis by (simp add: batch_def foldl_conv_fold fold_map comp_def)
qed

lemma mark_perm:
  assumes "mset es = mset es'"
  shows "instant (watermark_for (mark m es) k) = instant (watermark_for (mark m es') k)"
proof -
  have "set (stamps k (map (\<lambda>x. (ob_key x, ob_time x)) es)) = set (stamps k (map (\<lambda>x. (ob_key x, ob_time x)) es'))"
    using mset_eq_setD [OF assms] by (auto simp: stamps_def)
  then show ?thesis
    by (simp add: watermark_for_def instant_derive_watermark mark_def instant_high_for_run fold_max_eq)
qed



end
