(* ===== verification/Pipeline.thy ===== *)
theory Pipeline
  imports Alerts WindowRuns
begin

text \<open>
  \<^verbatim>\<open>stream_pipeline/streaming/realtime_pipeline.py\<close>: the orchestrator. The objects the
  pipeline calls (aggregators, detectors, handlers, the alert router, the dataset writer)
  live in a world \<open>'w\<close> they may change; each is the operation the pipeline calls on it. The
  watermark manager belongs to the pipeline. \<open>now\<close> is the clock that ingest timestamps
  default to, \<open>fresh\<close> the random identity of a new trace.
\<close>

subsection \<open>Feature bundling\<close>

definition FEATURE_SCHEMA_VERSION :: string where "FEATURE_SCHEMA_VERSION = ''v1''"

definition FEATURE_EVENT_SOURCE :: string where "FEATURE_EVENT_SOURCE = ''stream-pipeline.realtime_pipeline''"

definition group_emissions :: "window_emission list \<Rightarrow> (string \<times> int, window_emission list) dict" where
  "group_emissions emissions =
     foldl (\<lambda>groups em. dict_append (we_partition_key em, we_window_start em) em groups) [] emissions"

definition feature_values_of :: "window_emission list \<Rightarrow> (string \<times> pyval) list" where
  "feature_values_of grp = foldl (\<lambda>d em. dict_set (we_aggregation_name em) (we_value em) d) [] grp"

definition feature_trace :: "uuid \<Rightarrow> window_emission list \<Rightarrow> trace_context res" where
  "feature_trace fresh grp =
     (case List.map_filter we_last_trace grp of
        [] \<Rightarrow> Inr (trace_context_init fresh None None INGESTION)
      | s # _ \<Rightarrow> bind_res (uuid_of_str s) (\<lambda>u. Inr (trace_context_init fresh (Some u) None INGESTION)))"

text \<open>A group is never empty: it was created by an append.\<close>

definition feature_event_of ::
  "datetime \<Rightarrow> uuid \<Rightarrow> (string \<times> int) \<times> window_emission list \<Rightarrow> feature_event res" where
  "feature_event_of now fresh kg =
     (let partition_key = fst (fst kg); window_start = UTC (snd (fst kg)); grp = snd kg;
          window_end = UTC (we_window_end (hd grp)) in
      bind_res (feature_trace fresh grp) (\<lambda>trace.
      bind_res (windowed_feature_payload_init
        \<lparr>wf_partition_key = partition_key, wf_window_start = window_start, wf_window_end = window_end,
         wf_feature_values = feature_values_of grp, wf_feature_version = FEATURE_SCHEMA_VERSION\<rparr>) (\<lambda>payload.
      bind_res (event_metadata_init (sc_schema_version WindowedFeatureVectorEvent)
        (sc_event_type WindowedFeatureVectorEvent) FEATURE_EVENT_SOURCE) (\<lambda>md.
        base_event_init WindowedFeatureVectorEvent
          (derive ''event.feature'' [partition_key, str_datetime window_start, str_datetime window_end, FEATURE_SCHEMA_VERSION])
          (Some md) trace window_end now payload))))"

definition bundle_feature_events :: "datetime \<Rightarrow> uuid \<Rightarrow> window_emission list \<Rightarrow> feature_event list res" where
  "bundle_feature_events now fresh emissions =
     (if emissions = [] then Inr [] else map_res (feature_event_of now fresh) (group_emissions emissions))"

subsection \<open>Partition extractors\<close>

text \<open>\<^verbatim>\<open>str(v)\<close> of a scalar; the text of a container or an object is a parameter.\<close>

fun py_str :: "(pyval \<Rightarrow> string) \<Rightarrow> pyval \<Rightarrow> string" where
  "py_str repr PyNone = ''None''"
| "py_str repr (PyBool b) = (if b then ''True'' else ''False'')"
| "py_str repr (PyInt i) = (if i < 0 then CHR ''-'' # show_nat (nat (- i)) else show_nat (nat i))"
| "py_str repr (PyFloat x) = show_float x"
| "py_str repr (PyStr s) = s"
| "py_str repr (PyUUID u) = str_uuid u"
| "py_str repr (PyDT d) = str_datetime d"
| "py_str repr v = repr v"

definition by_event_source :: "event \<Rightarrow> string res" where
  "by_event_source ev = Inr (md_source (ev_metadata ev))"

definition by_payload_field :: "(pyval \<Rightarrow> string) \<Rightarrow> string \<Rightarrow> event \<Rightarrow> string res" where
  "by_payload_field repr field_name ev =
     (if ev_payload ev = PyNone
      then Inl (ValueError (''event payload is None; cannot extract '' @ [CHR 0x27] @ field_name @ [CHR 0x27]))
      else case get_attr (ev_payload ev) field_name of
          None \<Rightarrow> Inl (ValueError (''event payload of type '' @ type_name (ev_payload ev) @ '' has no attribute '' @ [CHR 0x27] @ field_name @ [CHR 0x27]))
        | Some v \<Rightarrow> Inr (py_str repr v))"

subsection \<open>The pipeline object\<close>

record processing_result =
  pr_event_id :: string
  pr_partition_key :: "string option"
  pr_classification :: "event_classification option"
  pr_handlers_invoked :: nat
  pr_handler_failures :: nat
  pr_emissions :: "window_emission list"
  pr_detections :: "detection_event list"
  pr_alerts :: "alert_event list"
  pr_extraction_failed :: bool
  pr_features :: "feature_event list"

type_synonym 'w aggregator_call =
  "'w \<Rightarrow> string \<Rightarrow> datetime \<Rightarrow> pyval \<Rightarrow> event_classification \<Rightarrow> datetime \<Rightarrow> string \<Rightarrow> 'w \<times> window_emission list res"

record 'w event_observer =
  ed_name :: string
  ed_observe_event :: "'w \<Rightarrow> event \<Rightarrow> 'w \<times> detection_event list res"

record 'w emission_observer =
  md_name :: string
  md_aggregation_name :: string
  md_observe_emission :: "'w \<Rightarrow> window_emission \<Rightarrow> 'w \<times> detection_event list res"

record 'w pipeline =
  pl_router :: "'w event_router"
  pl_watermarks :: watermark_manager
  pl_extract :: "event \<Rightarrow> string res"
  pl_strict :: bool
  pl_aggregators :: "(string \<times> 'w aggregator_call) list"
  pl_event_detectors :: "'w event_observer list"
  pl_emission_detectors :: "(string, 'w emission_observer list) dict"
  pl_dataset_writer :: "('w \<Rightarrow> processing_result \<Rightarrow> 'w \<times> unit res) option"
  pl_alert_router :: "('w \<Rightarrow> detection_event list \<Rightarrow> 'w \<times> alert_event list res) option"

definition pipeline_init :: "'w event_router \<Rightarrow> watermark_manager \<Rightarrow> (event \<Rightarrow> string res) \<Rightarrow> bool \<Rightarrow> 'w pipeline" where
  "pipeline_init router watermark_manager partition_extractor strict =
     \<lparr>pl_router = router, pl_watermarks = watermark_manager, pl_extract = partition_extractor, pl_strict = strict,
      pl_aggregators = [], pl_event_detectors = [], pl_emission_detectors = [], pl_dataset_writer = None,
      pl_alert_router = None\<rparr>"

definition register_aggregator :: "'w pipeline \<Rightarrow> string \<Rightarrow> 'w aggregator_call \<Rightarrow> 'w pipeline \<times> unit res" where
  "register_aggregator p name aggregator =
     (if name = [] then (p, Inl (ValueError ''name must be non-empty''))
      else if name \<in> fst ` set (pl_aggregators p) then (p, Inl (ValueError (''aggregator already registered: '' @ name)))
      else (p\<lparr>pl_aggregators := pl_aggregators p @ [(name, aggregator)]\<rparr>, Inr ()))"

definition register_event_detector :: "'w pipeline \<Rightarrow> 'w event_observer \<Rightarrow> 'w pipeline" where
  "register_event_detector p detector = p\<lparr>pl_event_detectors := pl_event_detectors p @ [detector]\<rparr>"

definition register_emission_detector :: "'w pipeline \<Rightarrow> 'w emission_observer \<Rightarrow> 'w pipeline" where
  "register_emission_detector p detector =
     p\<lparr>pl_emission_detectors := dict_append (md_aggregation_name detector) detector (pl_emission_detectors p)\<rparr>"

definition register_dataset_writer ::
  "'w pipeline \<Rightarrow> ('w \<Rightarrow> processing_result \<Rightarrow> 'w \<times> unit res) \<Rightarrow> 'w pipeline \<times> unit res" where
  "register_dataset_writer p writer =
     (if pl_dataset_writer p \<noteq> None then (p, Inl (ValueError ''dataset writer already registered''))
      else (p\<lparr>pl_dataset_writer := Some writer\<rparr>, Inr ()))"

definition register_alert_router ::
  "'w pipeline \<Rightarrow> ('w \<Rightarrow> detection_event list \<Rightarrow> 'w \<times> alert_event list res) \<Rightarrow> 'w pipeline \<times> unit res" where
  "register_alert_router p router =
     (if pl_alert_router p \<noteq> None then (p, Inl (ValueError ''alert router already registered''))
      else (p\<lparr>pl_alert_router := Some router\<rparr>, Inr ()))"

subsection \<open>Processing one event\<close>

text \<open>
  The loop the three observer stages share: call each observer, extend the collected
  output, log a raised exception, and go on unless the pipeline is strict.
\<close>

fun bulkhead ::
  "bool \<Rightarrow> ('o \<Rightarrow> 'w \<Rightarrow> 'w \<times> 'a list res) \<Rightarrow> ('o \<Rightarrow> exn \<Rightarrow> log_line) \<Rightarrow> 'o list \<Rightarrow> 'w \<Rightarrow> log_line list \<Rightarrow> 'a list \<Rightarrow>
     ('w \<times> log_line list) \<times> 'a list res" where
  "bulkhead strict call line [] w logs acc = ((w, logs), Inr acc)"
| "bulkhead strict call line (x # xs) w logs acc =
     (case call x w of
        (w', Inr ys) \<Rightarrow> bulkhead strict call line xs w' logs (acc @ ys)
      | (w', Inl exc) \<Rightarrow>
          let logs' = logs @ [line x exc] in
          if strict then ((w', logs'), Inl exc) else bulkhead strict call line xs w' logs' acc)"

definition exn_fields :: "exn \<Rightarrow> (string \<times> pyval) list" where
  "exn_fields exc = [(''exception_type'', PyStr (exn_type exc)), (''exception_message'', PyStr (exn_msg exc))]"

definition event_id_of :: "'p base_event \<Rightarrow> string" where
  "event_id_of ev = str_uuid (ev_event_id ev)"

definition extract_key :: "'w pipeline \<Rightarrow> event \<Rightarrow> string res" where
  "extract_key p ev =
     bind_res (pl_extract p ev) (\<lambda>k. if k = [] then Inl (ValueError ''partition extractor returned empty key'') else Inr k)"

definition extraction_log :: "event \<Rightarrow> exn \<Rightarrow> log_line" where
  "extraction_log ev exc =
     log ''ERROR'' ''Partition extraction failed'' ''pipeline.extraction_error'' (trace_id_of ev)
       ([(''event_id'', PyStr (event_id_of ev)),
         (''telemetry_event_type'', PyStr (md_event_type (ev_metadata ev))),
         (''telemetry_schema_version'', PyStr (md_schema_version (ev_metadata ev)))] @ exn_fields exc)"

definition extraction_failure :: "event \<Rightarrow> processing_result" where
  "extraction_failure ev =
     \<lparr>pr_event_id = event_id_of ev, pr_partition_key = None, pr_classification = None, pr_handlers_invoked = 0,
      pr_handler_failures = 0, pr_emissions = [], pr_detections = [], pr_alerts = [], pr_extraction_failed = True,
      pr_features = []\<rparr>"

definition call_aggregator ::
  "event \<Rightarrow> string \<Rightarrow> watermark_observation \<Rightarrow> string \<times> 'w aggregator_call \<Rightarrow> 'w \<Rightarrow> 'w \<times> window_emission list res" where
  "call_aggregator ev partition_key observation na w =
     snd na w partition_key (ev_event_timestamp ev) (ev_payload ev) (wo_classification observation)
       (wo_watermark observation) (trace_id_of ev)"

definition call_event_detector :: "event \<Rightarrow> 'w event_observer \<Rightarrow> 'w \<Rightarrow> 'w \<times> detection_event list res" where
  "call_event_detector ev d w = ed_observe_event d w ev"

definition call_emission_detector ::
  "window_emission \<times> 'w emission_observer \<Rightarrow> 'w \<Rightarrow> 'w \<times> detection_event list res" where
  "call_emission_detector ed w = md_observe_emission (snd ed) w (fst ed)"

definition aggregation_stage ::
  "'w pipeline \<Rightarrow> event \<Rightarrow> string \<Rightarrow> watermark_observation \<Rightarrow> 'w \<Rightarrow> ('w \<times> log_line list) \<times> window_emission list res" where
  "aggregation_stage p ev partition_key observation w =
     bulkhead (pl_strict p) (call_aggregator ev partition_key observation)
       (\<lambda>(agg_name, aggregator) exc.
          log ''ERROR'' ''Aggregator raised during observe()'' ''pipeline.aggregation_error'' (trace_id_of ev)
            ([(''event_id'', PyStr (event_id_of ev)), (''aggregator'', PyStr agg_name),
              (''partition_key'', PyStr partition_key)] @ exn_fields exc))
       (pl_aggregators p) w [] []"

definition event_detection_stage ::
  "'w pipeline \<Rightarrow> event \<Rightarrow> 'w \<Rightarrow> log_line list \<Rightarrow> ('w \<times> log_line list) \<times> detection_event list res" where
  "event_detection_stage p ev w logs =
     bulkhead (pl_strict p) (call_event_detector ev)
       (\<lambda>d exc. log ''ERROR'' ''Event detector raised during observe_event()'' ''pipeline.detector_error'' (trace_id_of ev)
          ([(''event_id'', PyStr (event_id_of ev)), (''detector'', PyStr (ed_name d)),
            (''detector_kind'', PyStr ''event'')] @ exn_fields exc))
       (pl_event_detectors p) w logs []"

text \<open>Per emission, then in registration order among the detectors of its aggregation.\<close>

definition emission_calls :: "'w pipeline \<Rightarrow> window_emission list \<Rightarrow> (window_emission \<times> 'w emission_observer) list" where
  "emission_calls p emissions =
     concat (map (\<lambda>em. map (Pair em) (dict_get_default (pl_emission_detectors p) (we_aggregation_name em) [])) emissions)"

definition emission_detection_stage ::
  "'w pipeline \<Rightarrow> event \<Rightarrow> window_emission list \<Rightarrow> detection_event list \<Rightarrow> 'w \<Rightarrow> log_line list \<Rightarrow>
     ('w \<times> log_line list) \<times> detection_event list res" where
  "emission_detection_stage p ev emissions detections w logs =
     bulkhead (pl_strict p) call_emission_detector
       (\<lambda>(em, d) exc. log ''ERROR'' ''Emission detector raised during observe_emission()'' ''pipeline.detector_error''
          (trace_id_of ev)
          ([(''event_id'', PyStr (event_id_of ev)), (''detector'', PyStr (md_name d)),
            (''detector_kind'', PyStr ''emission''), (''aggregation_name'', PyStr (we_aggregation_name em))] @ exn_fields exc))
       (emission_calls p emissions) w logs detections"

definition processed_log ::
  "event \<Rightarrow> string \<Rightarrow> watermark_observation \<Rightarrow> dispatch_result \<Rightarrow> nat \<Rightarrow> nat \<Rightarrow> log_line" where
  "processed_log ev partition_key observation dr n_emissions n_detections =
     log ''INFO'' ''Processed event through pipeline'' ''pipeline.processed'' (trace_id_of ev)
       [(''event_id'', PyStr (event_id_of ev)),
        (''telemetry_event_type'', PyStr (md_event_type (ev_metadata ev))),
        (''telemetry_schema_version'', PyStr (md_schema_version (ev_metadata ev))),
        (''partition_key'', PyStr partition_key),
        (''classification'', PyStr (classification_value (wo_classification observation))),
        (''handlers_invoked'', PyInt (int (handlers_invoked dr))),
        (''handler_failures'', PyInt (int (handler_failures dr))),
        (''emissions'', PyInt (int n_emissions)), (''detections'', PyInt (int n_detections))]"

definition alert_stage ::
  "'w pipeline \<Rightarrow> event \<Rightarrow> detection_event list \<Rightarrow> 'w \<Rightarrow> log_line list \<Rightarrow> ('w \<times> log_line list) \<times> alert_event list res" where
  "alert_stage p ev detections w logs =
     (case pl_alert_router p of
        None \<Rightarrow> ((w, logs), Inr [])
      | Some route \<Rightarrow>
          (case route w detections of
             (w', Inr alerts) \<Rightarrow> ((w', logs), Inr alerts)
           | (w', Inl exc) \<Rightarrow>
               let logs' = logs @ [log ''ERROR'' ''Alert router raised during route()'' ''alerts.router_error''
                     (trace_id_of ev) ([(''event_id'', PyStr (event_id_of ev))] @ exn_fields exc)]
               in ((w', logs'), if pl_strict p then Inl exc else Inr [])))"

definition writer_stage ::
  "'w pipeline \<Rightarrow> event \<Rightarrow> string \<Rightarrow> processing_result \<Rightarrow> 'w \<Rightarrow> log_line list \<Rightarrow>
     ('w \<times> log_line list) \<times> processing_result res" where
  "writer_stage p ev partition_key r w logs =
     (case pl_dataset_writer p of
        None \<Rightarrow> ((w, logs), Inr r)
      | Some write \<Rightarrow>
          (case write w r of
             (w', Inr _) \<Rightarrow> ((w', logs), Inr r)
           | (w', Inl exc) \<Rightarrow>
               let logs' = logs @ [log ''ERROR'' ''Dataset writer raised during write()'' ''pipeline.writer_error''
                     (trace_id_of ev)
                     ([(''event_id'', PyStr (event_id_of ev)), (''partition_key'', PyStr partition_key),
                       (''emissions'', PyInt (int (length (pr_emissions r)))),
                       (''detections'', PyInt (int (length (pr_detections r))))] @ exn_fields exc)]
               in ((w', logs'), if pl_strict p then Inl exc else Inr r)))"

text \<open>Stages after the aggregation: dispatch, detection, alerts, features, the writer.\<close>

definition downstream ::
  "datetime \<Rightarrow> uuid \<Rightarrow> 'w pipeline \<Rightarrow> event \<Rightarrow> string \<Rightarrow> watermark_observation \<Rightarrow> window_emission list \<Rightarrow> 'w \<Rightarrow> log_line list \<Rightarrow>
     ('w \<times> log_line list) \<times> processing_result res" where
  "downstream now fresh p ev partition_key observation emissions w1 logs1 =
     (case dispatch (pl_router p) w1 ev of
        ((w2, ls), Inl e) \<Rightarrow> ((w2, logs1 @ ls), Inl e)
      | ((w2, ls), Inr dr) \<Rightarrow>
     (case event_detection_stage p ev w2 (logs1 @ ls) of
        (wl, Inl e) \<Rightarrow> (wl, Inl e)
      | ((w3, logs3), Inr ds) \<Rightarrow>
     (case emission_detection_stage p ev emissions ds w3 logs3 of
        (wl, Inl e) \<Rightarrow> (wl, Inl e)
      | ((w4, logs4), Inr detections) \<Rightarrow>
     (case alert_stage p ev detections w4
             (logs4 @ [processed_log ev partition_key observation dr (length emissions) (length detections)]) of
        (wl, Inl e) \<Rightarrow> (wl, Inl e)
      | ((w5, logs5), Inr alerts) \<Rightarrow>
     (case bundle_feature_events now fresh emissions of
        Inl e \<Rightarrow> ((w5, logs5), Inl e)
      | Inr features \<Rightarrow>
          writer_stage p ev partition_key
            \<lparr>pr_event_id = event_id_of ev, pr_partition_key = Some partition_key,
             pr_classification = Some (wo_classification observation),
             pr_handlers_invoked = handlers_invoked dr, pr_handler_failures = handler_failures dr,
             pr_emissions = emissions, pr_detections = detections, pr_alerts = alerts,
             pr_extraction_failed = False, pr_features = features\<rparr> w5 logs5)))))"

definition process ::
  "datetime \<Rightarrow> uuid \<Rightarrow> 'w pipeline \<Rightarrow> 'w \<Rightarrow> event \<Rightarrow> ('w pipeline \<times> 'w \<times> log_line list) \<times> processing_result res" where
  "process now fresh p w ev =
     (case extract_key p ev of
        Inl exc \<Rightarrow> ((p, w, [extraction_log ev exc]), if pl_strict p then Inl exc else Inr (extraction_failure ev))
      | Inr partition_key \<Rightarrow>
     (case wm_observe (pl_watermarks p) partition_key (ev_event_timestamp ev) of
        (m, Inl e) \<Rightarrow> ((p\<lparr>pl_watermarks := m\<rparr>, w, []), Inl e)
      | (m, Inr observation) \<Rightarrow>
          let p' = p\<lparr>pl_watermarks := m\<rparr> in
          (case aggregation_stage p' ev partition_key observation w of
             ((w1, logs1), Inl e) \<Rightarrow> ((p', w1, logs1), Inl e)
           | ((w1, logs1), Inr emissions) \<Rightarrow>
               (case downstream now fresh p' ev partition_key observation emissions w1 logs1 of
                  ((w2, logs2), r) \<Rightarrow> ((p', w2, logs2), r)))))"

subsection \<open>Batches\<close>

record batch_counts =
  bc_on_time :: nat
  bc_late_tolerated :: nat
  bc_late_dropped :: nat
  bc_extraction_failures :: nat
  bc_emissions :: nat
  bc_detections :: nat

definition no_counts :: batch_counts where
  "no_counts = \<lparr>bc_on_time = 0, bc_late_tolerated = 0, bc_late_dropped = 0, bc_extraction_failures = 0,
     bc_emissions = 0, bc_detections = 0\<rparr>"

definition tally :: "batch_counts \<Rightarrow> processing_result \<Rightarrow> batch_counts" where
  "tally c r =
     (let c' = (if pr_extraction_failed r then c\<lparr>bc_extraction_failures := bc_extraction_failures c + 1\<rparr>
                else case pr_classification r of
                    Some ON_TIME \<Rightarrow> c\<lparr>bc_on_time := bc_on_time c + 1\<rparr>
                  | Some LATE_TOLERATED \<Rightarrow> c\<lparr>bc_late_tolerated := bc_late_tolerated c + 1\<rparr>
                  | Some LATE_DROPPED \<Rightarrow> c\<lparr>bc_late_dropped := bc_late_dropped c + 1\<rparr>
                  | None \<Rightarrow> c)
      in c'\<lparr>bc_emissions := bc_emissions c' + length (pr_emissions r),
            bc_detections := bc_detections c' + length (pr_detections r)\<rparr>)"

definition summary_log :: "nat \<Rightarrow> batch_counts \<Rightarrow> log_line" where
  "summary_log n c =
     \<lparr>lg_level = ''INFO'', lg_message = ''Processed event batch'', lg_event_type = ''pipeline.batch_summary'',
      lg_trace_id = None,
      lg_metadata = [(''events'', PyInt (int n)), (''on_time'', PyInt (int (bc_on_time c))),
        (''late_tolerated'', PyInt (int (bc_late_tolerated c))), (''late_dropped'', PyInt (int (bc_late_dropped c))),
        (''extraction_failures'', PyInt (int (bc_extraction_failures c))),
        (''emissions'', PyInt (int (bc_emissions c))), (''detections'', PyInt (int (bc_detections c)))]\<rparr>"

fun batch_loop ::
  "datetime \<Rightarrow> uuid \<Rightarrow> 'w pipeline \<Rightarrow> 'w \<Rightarrow> log_line list \<Rightarrow> event list \<Rightarrow> processing_result list \<Rightarrow> batch_counts \<Rightarrow>
     ('w pipeline \<times> 'w \<times> log_line list) \<times> (processing_result list \<times> batch_counts) res" where
  "batch_loop now fresh p w logs [] results c = ((p, w, logs), Inr (results, c))"
| "batch_loop now fresh p w logs (ev # evs) results c =
     (case process now fresh p w ev of
        ((p', w', ls), Inl e) \<Rightarrow> ((p', w', logs @ ls), Inl e)
      | ((p', w', ls), Inr r) \<Rightarrow> batch_loop now fresh p' w' (logs @ ls) evs (results @ [r]) (tally c r))"

definition process_batch ::
  "datetime \<Rightarrow> uuid \<Rightarrow> 'w pipeline \<Rightarrow> 'w \<Rightarrow> event list \<Rightarrow>
     ('w pipeline \<times> 'w \<times> log_line list) \<times> processing_result list res" where
  "process_batch now fresh p w events =
     (case batch_loop now fresh p w [] events [] no_counts of
        (s, Inl e) \<Rightarrow> (s, Inl e)
      | ((p', w', logs), Inr (results, c)) \<Rightarrow>
          ((p', w', logs @ [summary_log (length results) c]), Inr results))"

subsection \<open>Failure isolation\<close>

text \<open>What a sequence of calls leaves, returns and raises when every call is made.\<close>

fun after_all :: "('o \<Rightarrow> 'w \<Rightarrow> 'w \<times> 'a list res) \<Rightarrow> 'o list \<Rightarrow> 'w \<Rightarrow> 'w" where
  "after_all call [] w = w"
| "after_all call (x # xs) w = after_all call xs (fst (call x w))"

fun outputs :: "('o \<Rightarrow> 'w \<Rightarrow> 'w \<times> 'a list res) \<Rightarrow> 'o list \<Rightarrow> 'w \<Rightarrow> 'a list" where
  "outputs call [] w = []"
| "outputs call (x # xs) w =
     (case snd (call x w) of Inr ys \<Rightarrow> ys | Inl _ \<Rightarrow> []) @ outputs call xs (fst (call x w))"

fun raised :: "('o \<Rightarrow> 'w \<Rightarrow> 'w \<times> 'a list res) \<Rightarrow> 'o list \<Rightarrow> 'w \<Rightarrow> ('o \<times> exn) list" where
  "raised call [] w = []"
| "raised call (x # xs) w =
     (case snd (call x w) of Inr _ \<Rightarrow> [] | Inl e \<Rightarrow> [(x, e)]) @ raised call xs (fst (call x w))"

lemma bulkhead_lenient:
  "bulkhead False call line xs w logs acc =
     ((after_all call xs w, logs @ map (\<lambda>(x, e). line x e) (raised call xs w)), Inr (acc @ outputs call xs w))"
proof (induction xs arbitrary: w logs acc)
  case (Cons x xs)
  then show ?case by (cases "call x w"; cases "snd (call x w)") (auto simp: Let_def)
qed simp

definition alerts_for :: "'w pipeline \<Rightarrow> detection_event list \<Rightarrow> 'w \<Rightarrow> alert_event list" where
  "alerts_for p ds w = (case pl_alert_router p of None \<Rightarrow> [] | Some route \<Rightarrow> (case snd (route w ds) of Inr as \<Rightarrow> as | Inl _ \<Rightarrow> []))"

lemma alert_stage_lenient:
  "\<not> pl_strict p \<Longrightarrow> \<exists>w' ls. alert_stage p ev ds w logs = ((w', logs @ ls), Inr (alerts_for p ds w))"
  by (auto simp: alert_stage_def alerts_for_def Let_def split: option.split prod.split sum.split)

lemma writer_stage_lenient: "\<not> pl_strict p \<Longrightarrow> \<exists>w' ls. writer_stage p ev k r w logs = ((w', logs @ ls), Inr r)"
  by (auto simp: writer_stage_def Let_def split: option.split prod.split sum.split)

text \<open>
  C12: outside strict mode no observer can disturb another. Whatever aggregators, detectors,
  the alert router and the dataset writer raise, every registered aggregator and every
  event detector is called once, every emission is shown to every detector of its
  aggregation, and the result of the event collects precisely what the calls that
  returned produced, in registration order.
\<close>

theorem process_isolates_observers:
  assumes lenient: "\<not> pl_strict p" and key: "extract_key p ev = Inr k"
    and wm: "wm_observe (pl_watermarks p) k (ev_event_timestamp ev) = (m, Inr ob)"
    and disp: "dispatch (pl_router p) (after_all (call_aggregator ev k ob) (pl_aggregators p) w) ev = ((w2, ls), Inr dr)"
    and feats: "bundle_feature_events now fresh (outputs (call_aggregator ev k ob) (pl_aggregators p) w) = Inr fs"
  shows "\<exists>w' logs w4. process now fresh p w ev = ((p\<lparr>pl_watermarks := m\<rparr>, w', logs), Inr
      (let ems = outputs (call_aggregator ev k ob) (pl_aggregators p) w;
           w3 = after_all (call_event_detector ev) (pl_event_detectors p) w2;
           ds = outputs (call_event_detector ev) (pl_event_detectors p) w2 @ outputs call_emission_detector (emission_calls p ems) w3
       in \<lparr>pr_event_id = event_id_of ev, pr_partition_key = Some k, pr_classification = Some (wo_classification ob),
           pr_handlers_invoked = handlers_invoked dr, pr_handler_failures = handler_failures dr, pr_emissions = ems,
           pr_detections = ds, pr_alerts = alerts_for p ds w4, pr_extraction_failed = False, pr_features = fs\<rparr>))"
proof -
  let ?p = "p\<lparr>pl_watermarks := m\<rparr>"
  let ?ems = "outputs (call_aggregator ev k ob) (pl_aggregators p) w"
  let ?w3 = "after_all (call_event_detector ev) (pl_event_detectors p) w2"
  let ?ds = "outputs (call_event_detector ev) (pl_event_detectors p) w2 @ outputs call_emission_detector (emission_calls p ?ems) ?w3"
  let ?w4 = "after_all call_emission_detector (emission_calls p ?ems) ?w3"
  have calls: "emission_calls ?p ems = emission_calls p ems" and al: "alerts_for ?p ds w = alerts_for p ds w" for ems ds w
    by (simp_all add: emission_calls_def alerts_for_def)
  have len: "\<not> pl_strict ?p" using lenient by simp
  obtain l1 where a: "aggregation_stage ?p ev k ob w = ((after_all (call_aggregator ev k ob) (pl_aggregators p) w, l1), Inr ?ems)"
    using lenient by (simp add: aggregation_stage_def bulkhead_lenient)
  obtain l3 where e: "event_detection_stage ?p ev w2 (l1 @ ls) = ((?w3, l3), Inr (outputs (call_event_detector ev) (pl_event_detectors p) w2))"
    using lenient by (simp add: event_detection_stage_def bulkhead_lenient)
  obtain l4 where m: "emission_detection_stage ?p ev ?ems (outputs (call_event_detector ev) (pl_event_detectors p) w2) ?w3 l3 =
      ((?w4, l4), Inr ?ds)"
    using lenient by (simp add: emission_detection_stage_def bulkhead_lenient calls)
  obtain w5 l5 where r: "alert_stage ?p ev ?ds ?w4 (l4 @ [processed_log ev k ob dr (length ?ems) (length ?ds)]) =
      ((w5, l5), Inr (alerts_for p ?ds ?w4))"
    using alert_stage_lenient [OF len, of ev ?ds ?w4] al by metis
  obtain w6 l6 where "downstream now fresh ?p ev k ob ?ems (after_all (call_aggregator ev k ob) (pl_aggregators p) w) l1 =
      ((w6, l6), Inr \<lparr>pr_event_id = event_id_of ev, pr_partition_key = Some k, pr_classification = Some (wo_classification ob),
           pr_handlers_invoked = handlers_invoked dr, pr_handler_failures = handler_failures dr, pr_emissions = ?ems,
           pr_detections = ?ds, pr_alerts = alerts_for p ?ds ?w4, pr_extraction_failed = False, pr_features = fs\<rparr>)"
    using writer_stage_lenient [OF len, of ev k _ w5 l5] disp e m r feats unfolding downstream_def by fastforce
  with a key wm show ?thesis
    unfolding Let_def by (intro exI [of _ w6] exI [of _ l6] exI [of _ ?w4]) (simp add: process_def Let_def)
qed

lemma dispatch_total:
  assumes "\<not> er_strict r" and "parse_version (md_schema_version (ev_metadata ev)) = Inr v"
  shows "\<exists>w' ls dr. dispatch r w ev = ((w', ls), Inr dr)"
proof -
  have "\<exists>c. resolve_compatible_key (requested_key ev) ks = Inr c" for ks
    using assms(2) by (auto simp: resolve_compatible_key_def requested_key_def split: list.split)
  then obtain c where c: "resolve_compatible_key (requested_key ev) (dict_keys (er_handlers r)) = Inr c" by blast
  obtain hs k b l where f: "find_handlers r ev = Inr (hs, k, b, l)"
    by (cases "dict_get (er_handlers r) (requested_key ev)"; cases c) (auto simp: find_handlers_def Let_def c)
  obtain w' l' i j where "run_handlers False (requested_key ev) ev hs w l 0 0 = ((w', l'), Inr (i, j))"
    using run_handlers_lenient [of "requested_key ev" ev hs w l 0 0] by auto
  then show ?thesis using assms(1) f by (auto simp: dispatch_def Let_def)
qed

text \<open>A failing detector registered before one that works.\<close>

definition demo_detector :: "bool \<Rightarrow> nat \<Rightarrow> nat list event_observer" where
  "demo_detector fails n = \<lparr>ed_name = ''d'', ed_observe_event = (\<lambda>w ev. (w @ [n], if fails then Inl (ValueError ''x'') else Inr []))\<rparr>"

definition demo_pipeline :: "nat list pipeline" where
  "demo_pipeline = register_event_detector (register_event_detector
     (pipeline_init (event_router_init False) demo_manager by_event_source False) (demo_detector True 1)) (demo_detector False 2)"

lemma demo_observe:
  "\<exists>m ob. wm_observe demo_manager ''s'' (ev_event_timestamp demo_pipeline_event) = (m, Inr ob)"
  by (simp add: demo_pipeline_event_def demo_manager_def wm_observe_def Let_def)

theorem process_isolates_observers_witness:
  "\<exists>p' w' logs r. process (UTC 0) 7 demo_pipeline [] demo_pipeline_event = ((p', w', logs), Inr r) \<and>
     pr_partition_key r = Some ''s'' \<and> pr_detections r = []"
proof -
  have f: "\<not> pl_strict demo_pipeline" "pl_aggregators demo_pipeline = []" "pl_watermarks demo_pipeline = demo_manager"
      "pl_event_detectors demo_pipeline = [demo_detector True 1, demo_detector False 2]"
      "pl_router demo_pipeline = event_router_init False" "pl_extract demo_pipeline = by_event_source"
    by (simp_all add: demo_pipeline_def pipeline_init_def register_event_detector_def)
  have k: "extract_key demo_pipeline demo_pipeline_event = Inr ''s''"
    by (simp add: extract_key_def f by_event_source_def demo_pipeline_event_def)
  obtain m ob where ob: "wm_observe demo_manager ''s'' (ev_event_timestamp demo_pipeline_event) = (m, Inr ob)"
    using demo_observe by blast
  have "\<not> isl (parse_version (md_schema_version (ev_metadata demo_pipeline_event)))" by code_simp
  then obtain v where v: "parse_version (md_schema_version (ev_metadata demo_pipeline_event)) = Inr v" by (metis isl_def sum.exhaust)
  obtain w2 ls dr where d: "dispatch (event_router_init False) ([] :: nat list) demo_pipeline_event = ((w2, ls), Inr dr)"
    using dispatch_total [OF _ v, of "event_router_init False"] by (fastforce simp: event_router_init_def)
  show ?thesis
    using process_isolates_observers [OF f(1) k, where m = m and ob = ob and w = "[]" and now = "UTC 0" and fresh = 7
      and fs = "[]" and dr = dr and ls = ls and ?w2.0 = w2] ob d
    by (auto simp: f Let_def bundle_feature_events_def emission_calls_def call_event_detector_def demo_detector_def)
qed

subsection \<open>Batches\<close>

lemma batch_loop_results:
  "batch_loop now fresh p w logs evs rs c = ((p', w', logs'), Inr (rs', c')) \<Longrightarrow>
     \<exists>new. rs' = rs @ new \<and> length new = length evs \<and> c' = foldl tally c new \<and>
       (\<forall>r \<in> set new. pr_extraction_failed r \<or> pr_classification r \<noteq> None)"
proof (induction evs arbitrary: p w logs rs c)
  case (Cons ev evs)
  then obtain p1 w1 ls r where s: "process now fresh p w ev = ((p1, w1, ls), Inr r)"
      "batch_loop now fresh p1 w1 (logs @ ls) evs (rs @ [r]) (tally c r) = ((p', w', logs'), Inr (rs', c'))"
    by (auto split: prod.splits sum.splits)
  have "pr_extraction_failed r \<or> pr_classification r \<noteq> None"
    using s(1) by (auto simp: process_def downstream_def writer_stage_def extraction_failure_def Let_def
        split: prod.splits sum.splits option.splits if_splits)
  with Cons.IH [OF s(2)] show ?case by (force intro: exI [of _ "r # _"])
qed simp

lemma tally_total:
  "pr_extraction_failed r \<or> pr_classification r \<noteq> None \<Longrightarrow>
   bc_on_time (tally c r) + bc_late_tolerated (tally c r) + bc_late_dropped (tally c r) + bc_extraction_failures (tally c r) =
   Suc (bc_on_time c + bc_late_tolerated c + bc_late_dropped c + bc_extraction_failures c)"
  by (auto simp: tally_def Let_def split: option.split event_classification.split)

lemma foldl_tally:
  "\<forall>r \<in> set rs. pr_extraction_failed r \<or> pr_classification r \<noteq> None \<Longrightarrow>
   bc_on_time (foldl tally c rs) + bc_late_tolerated (foldl tally c rs) + bc_late_dropped (foldl tally c rs) +
     bc_extraction_failures (foldl tally c rs) =
   length rs + (bc_on_time c + bc_late_tolerated c + bc_late_dropped c + bc_extraction_failures c)"
  by (induction rs arbitrary: c) (simp_all add: tally_total)

lemma tally_outputs:
  "bc_emissions (foldl tally c rs) = bc_emissions c + length (concat (map pr_emissions rs))"
  "bc_detections (foldl tally c rs) = bc_detections c + length (concat (map pr_detections rs))"
  by (induction rs arbitrary: c) (auto simp: tally_def Let_def split: option.split event_classification.split)

text \<open>
  A batch that is processed yields one result per event, and its summary line accounts
  for every event: on time, tolerated, dropped and failed extractions add up to the number
  of events, and the totals of emissions and detections are those of the results.
\<close>

theorem batch_summary_accounts:
  assumes "process_batch now fresh p w evs = ((p', w', logs), Inr rs)"
  shows "length rs = length evs \<and>
     (\<exists>c. last logs = summary_log (length evs) c \<and>
        bc_on_time c + bc_late_tolerated c + bc_late_dropped c + bc_extraction_failures c = length evs \<and>
        bc_emissions c = length (concat (map pr_emissions rs)) \<and> bc_detections c = length (concat (map pr_detections rs)))"
proof -
  obtain l c where b: "batch_loop now fresh p w [] evs [] no_counts = ((p', w', l), Inr (rs, c))"
      "logs = l @ [summary_log (length rs) c]"
    using assms by (auto simp: process_batch_def split: prod.splits sum.splits)
  from batch_loop_results [OF b(1)] have c: "length rs = length evs" "c = foldl tally no_counts rs"
      "\<forall>r \<in> set rs. pr_extraction_failed r \<or> pr_classification r \<noteq> None" by auto
  show ?thesis
    using foldl_tally [OF c(3), of no_counts] tally_outputs [of no_counts rs] b(2) c(1,2)
    by (auto simp: no_counts_def)
qed

theorem batch_summary_accounts_witness:
  "\<exists>p' w' logs rs. process_batch (UTC 0) 7 demo_pipeline [] [demo_pipeline_event, demo_pipeline_event] = ((p', w', logs), Inr rs) \<and>
     length rs = 2"
proof -
  have "\<not> isl (snd (process_batch (UTC 0) 7 demo_pipeline [] [demo_pipeline_event, demo_pipeline_event]))" by code_simp
  then obtain p' w' logs rs where "process_batch (UTC 0) 7 demo_pipeline [] [demo_pipeline_event, demo_pipeline_event] = ((p', w', logs), Inr rs)"
    by (cases "process_batch (UTC 0) 7 demo_pipeline [] [demo_pipeline_event, demo_pipeline_event]")
      (metis isl_def snd_conv sum.exhaust prod.exhaust)
  from batch_summary_accounts [OF this] this show ?thesis by simp
qed

subsection \<open>An aggregator inside the pipeline\<close>

text \<open>An aggregator that lives in the world, and the observation it is given for an event.\<close>

definition slot_aggregator ::
  "('w \<Rightarrow> 'st window_aggregator) \<Rightarrow> ('st window_aggregator \<Rightarrow> 'w \<Rightarrow> 'w) \<Rightarrow> 'w aggregator_call" where
  "slot_aggregator get put w partition_key event_timestamp contribution classification watermark trace_id =
     (case agg_observe (get w) partition_key event_timestamp contribution classification watermark (Some trace_id) of
        (a, r) \<Rightarrow> (put a w, r))"

definition observations :: "'w pipeline \<Rightarrow> event list \<Rightarrow> observation list" where
  "observations p evs = List.map_filter (\<lambda>ev. case extract_key p ev of
       Inl _ \<Rightarrow> None
     | Inr k \<Rightarrow> Some \<lparr>ob_key = k, ob_time = ev_event_timestamp ev, ob_value = ev_payload ev,
                     ob_trace = Some (trace_id_of ev)\<rparr>) evs"

lemma stream_run_ConsD:
  assumes "stream_run ma (x # xs) = (ma', Inr ems)"
  shows "\<exists>ma1 e1 e2. stream_step ma x = (ma1, Inr e1) \<and> stream_run ma1 xs = (ma', Inr e2) \<and> ems = e1 @ e2"
proof -
  from assms obtain ma1 e1 where 1: "stream_step ma x = (ma1, Inr e1)"
    by (cases "stream_step ma x") (auto split: sum.splits)
  with assms obtain e2 where "stream_run ma1 xs = (ma', Inr e2)" "ems = e1 @ e2"
    by (cases "stream_run ma1 xs"; cases "snd (stream_run ma1 xs)") auto
  with 1 show ?thesis by blast
qed

lemma after_all_frame: "(\<And>x w. x \<in> set xs \<Longrightarrow> get (fst (call x w)) = get w) \<Longrightarrow> get (after_all call xs w) = get w"
  by (induction xs arbitrary: w) auto

lemma run_handlers_frame:
  "(\<And>h w. h \<in> set hs \<Longrightarrow> get (fst (h_call h w ev)) = get w) \<Longrightarrow>
   get (fst (fst (run_handlers strict req ev hs w logs i f))) = get w"
proof (induction hs arbitrary: w logs i f)
  case (Cons h hs)
  then show ?case using Cons.prems [of h w] by (cases "h_call h w ev"; cases "snd (h_call h w ev)") (auto simp: Let_def)
qed simp

text \<open>
  The contract under which the windows inside a pipeline are those of the aggregator
  alone: the other objects of the world leave the aggregator as it is.
\<close>

locale windowed_pipeline =
  fixes get :: "'w \<Rightarrow> 'st window_aggregator" and put :: "'st window_aggregator \<Rightarrow> 'w \<Rightarrow> 'w"
    and name :: string and p0 :: "'w pipeline"
  assumes get_put: "get (put a w) = a"
    and lenient: "\<not> pl_strict p0" and lenient_router: "\<not> er_strict (pl_router p0)"
    and aggregators: "pl_aggregators p0 = [(name, slot_aggregator get put)]"
    and handlers: "(key, hs) \<in> set (er_handlers (pl_router p0)) \<Longrightarrow> h \<in> set hs \<Longrightarrow> get (fst (h_call h w ev)) = get w"
    and event_detectors: "d \<in> set (pl_event_detectors p0) \<Longrightarrow> get (fst (ed_observe_event d w ev)) = get w"
    and emission_detectors: "(nm, ds) \<in> set (pl_emission_detectors p0) \<Longrightarrow> d' \<in> set ds \<Longrightarrow>
          get (fst (md_observe_emission d' w em)) = get w"
    and alert_router: "pl_alert_router p0 = Some route \<Longrightarrow> get (fst (route w dets)) = get w"
    and writer: "pl_dataset_writer p0 = Some write \<Longrightarrow> get (fst (write w r)) = get w"
begin

lemma dispatch_frame:
  assumes "dispatch (pl_router p0) w ev = ((w', ls), r)"
  shows "get w' = get w"
proof (cases "find_handlers (pl_router p0) ev")
  case (Inr x)
  obtain hs k b l where x: "x = (hs, k, b, l)" by (cases x) auto
  have "\<exists>key hs'. (key, hs') \<in> set (er_handlers (pl_router p0)) \<and> set hs \<subseteq> set hs' \<or> hs = []"
    using Inr x by (auto simp: find_handlers_def Let_def dict_get_default_def split: option.splits dest!: map_of_SomeD)
  then have "get (fst (fst (run_handlers s q ev hs w l' i f))) = get w" for s q l' i f
    by (intro run_handlers_frame) (auto intro: handlers)
  from this [of "er_strict (pl_router p0)" "requested_key ev" l 0 0] show ?thesis
    using assms Inr x by (auto simp: dispatch_def Let_def split: if_splits prod.splits sum.splits)
qed (use assms in \<open>simp add: dispatch_def Let_def\<close>)

lemma downstream_frame:
  assumes "downstream now fresh (p0\<lparr>pl_watermarks := m\<rparr>) ev k ob ems w logs = ((w', logs'), r)"
  shows "get w' = get w" and "r = Inr x \<Longrightarrow> pr_emissions x = ems \<and> \<not> pr_extraction_failed x"
proof -
  let ?p = "p0\<lparr>pl_watermarks := m\<rparr>"
  obtain w2 ls dr where d: "dispatch (pl_router p0) w ev = ((w2, ls), dr)" by (metis prod.exhaust)
  have g2: "get w2 = get w" by (rule dispatch_frame [OF d])
  have e: "get (after_all (call_event_detector ev) (pl_event_detectors p0) w2) = get w2" for w2
    by (rule after_all_frame) (auto simp: call_event_detector_def intro: event_detectors)
  have m: "get (after_all call_emission_detector (emission_calls p0 ems) w3) = get w3" for w3
    by (rule after_all_frame)
      (auto simp: call_emission_detector_def emission_calls_def dict_get_default_def split: option.splits
        dest!: map_of_SomeD [OF sym] intro: emission_detectors)
  have a: "get (fst (fst (alert_stage ?p ev ds w4 l))) = get w4" for ds w4 l
    using alert_router by (auto simp: alert_stage_def Let_def split: option.split prod.split sum.split) (metis fst_conv)+
  have wr: "get (fst (fst (writer_stage ?p ev k r w5 l))) = get w5" for r w5 l
    using writer by (auto simp: writer_stage_def Let_def split: option.split prod.split sum.split) (metis fst_conv)+
  have calls: "emission_calls ?p ems = emission_calls p0 ems" by (simp add: emission_calls_def)
  note stages = event_detection_stage_def emission_detection_stage_def bulkhead_lenient
  show "get w' = get w"
    using assms d g2 lenient e m a wr by (auto simp: downstream_def stages calls split: sum.splits prod.splits) (metis fst_conv)+
  show "pr_emissions x = ems \<and> \<not> pr_extraction_failed x" if "r = Inr x"
    using assms that by (auto simp: downstream_def writer_stage_def Let_def split: sum.splits prod.splits option.splits if_splits)
qed

lemma process_slot:
  assumes pr: "process now fresh (p0\<lparr>pl_watermarks := m\<rparr>) w ev = ((p', w', ls), Inr r)"
    and key: "extract_key p0 ev = Inr k"
    and step: "stream_step (m, get w) \<lparr>ob_key = k, ob_time = ev_event_timestamp ev, ob_value = ev_payload ev,
                  ob_trace = Some (trace_id_of ev)\<rparr> = ((m', a'), Inr ems)"
  shows "p' = p0\<lparr>pl_watermarks := m'\<rparr> \<and> get w' = a' \<and> pr_emissions r = ems"
proof -
  from step obtain ob where ob: "wm_observe m k (ev_event_timestamp ev) = (m', Inr ob)"
      "agg_observe (get w) k (ev_event_timestamp ev) (ev_payload ev) (wo_classification ob) (wo_watermark ob)
         (Some (trace_id_of ev)) = (a', Inr ems)"
    by (auto simp: stream_step_def split: prod.splits sum.splits)
  have "aggregation_stage (p0\<lparr>pl_watermarks := m'\<rparr>) ev k ob w = ((put a' w, []), Inr ems)"
    using ob(2) by (simp add: aggregation_stage_def aggregators call_aggregator_def slot_aggregator_def)
  moreover have "extract_key (p0\<lparr>pl_watermarks := m\<rparr>) ev = Inr k" using key by (simp add: extract_key_def)
  ultimately obtain logs where "downstream now fresh (p0\<lparr>pl_watermarks := m'\<rparr>) ev k ob ems (put a' w) [] = ((w', logs), Inr r)"
      "p' = p0\<lparr>pl_watermarks := m'\<rparr>"
    using pr ob(1) by (auto simp: process_def Let_def split: prod.splits)
  then show ?thesis using downstream_frame get_put by metis
qed

lemma batch_windows:
  "batch_loop now fresh (p0\<lparr>pl_watermarks := m\<rparr>) w logs evs rs c = ((p', w', logs'), Inr (rs', c')) \<Longrightarrow>
   stream_run (m, get w) (observations p0 evs) = ((m', a'), Inr ems) \<Longrightarrow>
   concat (map pr_emissions rs') = concat (map pr_emissions rs) @ ems \<and> get w' = a' \<and> pl_watermarks p' = m'"
proof (induction evs arbitrary: m w logs rs c ems)
  case Nil
  then show ?case by (auto simp: observations_def List.map_filter_def)
next
  case (Cons ev evs)
  from Cons.prems(1) obtain p1 w1 ls r where s: "process now fresh (p0\<lparr>pl_watermarks := m\<rparr>) w ev = ((p1, w1, ls), Inr r)"
      "batch_loop now fresh p1 w1 (logs @ ls) evs (rs @ [r]) (tally c r) = ((p', w', logs'), Inr (rs', c'))"
    by (auto split: prod.splits sum.splits)
  show ?case
  proof (cases "extract_key p0 ev")
    case (Inl e)
    then have "extract_key (p0\<lparr>pl_watermarks := m\<rparr>) ev = Inl e" by (simp add: extract_key_def)
    then have "p1 = p0\<lparr>pl_watermarks := m\<rparr>" "w1 = w" "pr_emissions r = []"
      using s(1) lenient by (auto simp: process_def extraction_failure_def)
    moreover have "observations p0 (ev # evs) = observations p0 evs"
      using Inl by (simp add: observations_def List.map_filter_def)
    ultimately show ?thesis using Cons.IH [OF s(2) [unfolded \<open>p1 = _\<close>]] Cons.prems(2) by simp
  next
    case (Inr k)
    let ?o = "\<lparr>ob_key = k, ob_time = ev_event_timestamp ev, ob_value = ev_payload ev, ob_trace = Some (trace_id_of ev)\<rparr>"
    have "observations p0 (ev # evs) = ?o # observations p0 evs"
      using Inr by (simp add: observations_def List.map_filter_def)
    then obtain m1 a1 e1 e2 where st: "stream_step (m, get w) ?o = ((m1, a1), Inr e1)"
        "stream_run (m1, a1) (observations p0 evs) = ((m', a'), Inr e2)" "ems = e1 @ e2"
      using Cons.prems(2) stream_run_ConsD by (metis prod.collapse)
    have "p1 = p0\<lparr>pl_watermarks := m1\<rparr> \<and> get w1 = a1 \<and> pr_emissions r = e1" by (rule process_slot [OF s(1) Inr st(1)])
    then show ?thesis using Cons.IH [of m1 w1 "logs @ ls" "rs @ [r]" "tally c r" e2] s(2) st(2,3) by simp
  qed
qed

end

end
