(* ===== verification/Datasets.thy ===== *)
theory Datasets
  imports Pipeline "HOL-Library.Product_Lexorder" "HOL-Library.Multiset"
begin

text \<open>
  \<^verbatim>\<open>stream_pipeline/datasets\<close>: partition keys, the buffering and flushing of records per
  partition, the canonical tables of a flush, and the two writers. The Parquet encoding of
  a table (\<^verbatim>\<open>pyarrow\<close>) and the object store client are parameters.
\<close>

subsection \<open>Partition keys\<close>

datatype partition_key = PartitionKey (pk_store_id: string) (pk_hour: datetime)

text \<open>The calendar fields down to the hour, read off the wall clock, in UTC.\<close>

definition truncate_to_hour :: "datetime \<Rightarrow> datetime" where
  "truncate_to_hour t = UTC (wall t div 3600000000 * 3600000000)"

definition partition_key_from_emission :: "window_emission \<Rightarrow> partition_key" where
  "partition_key_from_emission em = PartitionKey (we_partition_key em) (truncate_to_hour (UTC (we_window_start em)))"

definition partition_key_from_detection :: "detection_event \<Rightarrow> partition_key" where
  "partition_key_from_detection d = PartitionKey (dp_store_id (ev_payload d)) (truncate_to_hour (ev_event_timestamp d))"

definition partition_key_from_feature :: "feature_event \<Rightarrow> partition_key" where
  "partition_key_from_feature f =
     PartitionKey (wf_partition_key (ev_payload f)) (truncate_to_hour (wf_window_start (ev_payload f)))"

subsection \<open>Buffers\<close>

record flushed_partition =
  fp_partition_key :: partition_key
  fp_emissions :: "window_emission list"
  fp_detections :: "detection_event list"
  fp_features :: "feature_event list"

record partition_buffer =
  pb_emissions :: "window_emission list"
  pb_detections :: "detection_event list"
  pb_features :: "feature_event list"

type_synonym buffers = "(partition_key, partition_buffer) dict"

definition empty_buffer :: partition_buffer where
  "empty_buffer = \<lparr>pb_emissions = [], pb_detections = [], pb_features = []\<rparr>"

definition is_nonempty :: "partition_buffer \<Rightarrow> bool" where
  "is_nonempty b \<longleftrightarrow> pb_emissions b \<noteq> [] \<or> pb_detections b \<noteq> [] \<or> pb_features b \<noteq> []"

text \<open>\<^verbatim>\<open>_buffer_for\<close> followed by an append to one of the three lists.\<close>

definition buffer_for :: "buffers \<Rightarrow> partition_key \<Rightarrow> partition_buffer" where
  "buffer_for bs key = dict_get_default bs key empty_buffer"

definition buffer_emission :: "buffers \<Rightarrow> window_emission \<Rightarrow> buffers" where
  "buffer_emission bs em =
     (let key = partition_key_from_emission em; b = buffer_for bs key
      in dict_set key (b\<lparr>pb_emissions := pb_emissions b @ [em]\<rparr>) bs)"

definition buffer_detection :: "buffers \<Rightarrow> detection_event \<Rightarrow> buffers" where
  "buffer_detection bs d =
     (let key = partition_key_from_detection d; b = buffer_for bs key
      in dict_set key (b\<lparr>pb_detections := pb_detections b @ [d]\<rparr>) bs)"

definition buffer_feature :: "buffers \<Rightarrow> feature_event \<Rightarrow> buffers" where
  "buffer_feature bs f =
     (let key = partition_key_from_feature f; b = buffer_for bs key
      in dict_set key (b\<lparr>pb_features := pb_features b @ [f]\<rparr>) bs)"

text \<open>A flush that raises leaves the buffer as it is.\<close>

definition flush_partition ::
  "('w \<Rightarrow> flushed_partition \<Rightarrow> 'w \<times> unit res) \<Rightarrow> buffers \<times> 'w \<Rightarrow> partition_key \<Rightarrow> (buffers \<times> 'w) \<times> unit res" where
  "flush_partition on_flush bw key =
     (case dict_get (fst bw) key of
        None \<Rightarrow> (bw, Inl (KeyError (pk_store_id key)))
      | Some b \<Rightarrow>
          (case on_flush (snd bw) \<lparr>fp_partition_key = key, fp_emissions = pb_emissions b,
                  fp_detections = pb_detections b, fp_features = pb_features b\<rparr> of
             (w', Inl e) \<Rightarrow> ((fst bw, w'), Inl e)
           | (w', Inr _) \<Rightarrow> ((dict_set key empty_buffer (fst bw), w'), Inr ())))"

fun flush_partitions ::
  "('w \<Rightarrow> flushed_partition \<Rightarrow> 'w \<times> unit res) \<Rightarrow> buffers \<times> 'w \<Rightarrow> partition_key list \<Rightarrow> (buffers \<times> 'w) \<times> unit res" where
  "flush_partitions on_flush bw [] = (bw, Inr ())"
| "flush_partitions on_flush bw (k # ks) =
     (case flush_partition on_flush bw k of
        (bw', Inl e) \<Rightarrow> (bw', Inl e)
      | (bw', Inr _) \<Rightarrow> flush_partitions on_flush bw' ks)"

definition absorb ::
  "('w \<Rightarrow> flushed_partition \<Rightarrow> 'w \<times> unit res) \<Rightarrow> buffers \<times> 'w \<Rightarrow> processing_result \<Rightarrow> (buffers \<times> 'w) \<times> unit res" where
  "absorb on_flush bw result =
     (let bs1 = foldl buffer_detection (fst bw) (pr_detections result);
          bs2 = foldl buffer_feature bs1 (pr_features result);
          bs3 = foldl buffer_emission bs2 (pr_emissions result);
          partitions_to_flush = foldl (\<lambda>d em. dict_set (partition_key_from_emission em) () d) [] (pr_emissions result)
      in flush_partitions on_flush (bs3, snd bw) (dict_keys partitions_to_flush))"

definition buffered_partitions :: "buffers \<Rightarrow> partition_key set" where
  "buffered_partitions bs = {k. \<exists>b. (k, b) \<in> set bs \<and> is_nonempty b}"

text \<open>The in-memory writer collects the flushes.\<close>

type_synonym in_memory_writer = "buffers \<times> flushed_partition list"

definition in_memory_writer_init :: in_memory_writer where "in_memory_writer_init = ([], [])"

definition append_flush :: "flushed_partition list \<Rightarrow> flushed_partition \<Rightarrow> flushed_partition list \<times> unit res" where
  "append_flush flushed f = (flushed @ [f], Inr ())"

definition in_memory_write :: "in_memory_writer \<Rightarrow> processing_result \<Rightarrow> in_memory_writer \<times> unit res" where
  "in_memory_write wr result = absorb append_flush wr result"

definition flushed_records :: "in_memory_writer \<Rightarrow> flushed_partition list" where
  "flushed_records wr = snd wr"

subsection \<open>Nothing is lost\<close>

text \<open>The records of a partition: those flushed so far, followed by those in its buffer.\<close>

definition flushed_of :: "(flushed_partition \<Rightarrow> 'a list) \<Rightarrow> flushed_partition list \<Rightarrow> partition_key \<Rightarrow> 'a list" where
  "flushed_of sel flushed k = concat (map sel (filter (\<lambda>f. fp_partition_key f = k) flushed))"

definition all_of ::
  "(flushed_partition \<Rightarrow> 'a list) \<Rightarrow> (partition_buffer \<Rightarrow> 'a list) \<Rightarrow> in_memory_writer \<Rightarrow> partition_key \<Rightarrow> 'a list" where
  "all_of sel bsel wr k = flushed_of sel (snd wr) k @ bsel (buffer_for (fst wr) k)"

lemma buffer_for_set: "buffer_for (dict_set k b bs) k' = (if k' = k then b else buffer_for bs k')"
  by (simp add: buffer_for_def dict_get_default_def)

lemma buffer_detections:
  "pb_detections (buffer_for (foldl buffer_detection bs ds) k) =
     pb_detections (buffer_for bs k) @ filter (\<lambda>d. partition_key_from_detection d = k) ds"
  "pb_features (buffer_for (foldl buffer_detection bs ds) k) = pb_features (buffer_for bs k)"
  "pb_emissions (buffer_for (foldl buffer_detection bs ds) k) = pb_emissions (buffer_for bs k)"
  by (induction ds arbitrary: bs) (simp_all add: buffer_detection_def Let_def buffer_for_set)

lemma buffer_features:
  "pb_features (buffer_for (foldl buffer_feature bs fs) k) =
     pb_features (buffer_for bs k) @ filter (\<lambda>f. partition_key_from_feature f = k) fs"
  "pb_detections (buffer_for (foldl buffer_feature bs fs) k) = pb_detections (buffer_for bs k)"
  "pb_emissions (buffer_for (foldl buffer_feature bs fs) k) = pb_emissions (buffer_for bs k)"
  by (induction fs arbitrary: bs) (simp_all add: buffer_feature_def Let_def buffer_for_set)

lemma buffer_emissions:
  "pb_emissions (buffer_for (foldl buffer_emission bs es) k) =
     pb_emissions (buffer_for bs k) @ filter (\<lambda>e. partition_key_from_emission e = k) es"
  "pb_detections (buffer_for (foldl buffer_emission bs es) k) = pb_detections (buffer_for bs k)"
  "pb_features (buffer_for (foldl buffer_emission bs es) k) = pb_features (buffer_for bs k)"
  by (induction es arbitrary: bs) (simp_all add: buffer_emission_def Let_def buffer_for_set)

lemma emission_keys_present:
  "partition_key_from_emission ` set es \<subseteq> set (dict_keys (foldl buffer_emission bs es))"
proof (induction es rule: rev_induct)
  case (snoc e es)
  then show ?case by (auto simp: buffer_emission_def Let_def fst_dict_set)
qed simp

lemma flush_keys: "set (dict_keys (foldl (\<lambda>d em. dict_set (partition_key_from_emission em) () d) d0 es)) =
    set (dict_keys d0) \<union> partition_key_from_emission ` set es"
  by (induction es arbitrary: d0) (auto simp: fst_dict_set)

lemma flush_keys_distinct:
  "distinct (dict_keys d0) \<Longrightarrow> distinct (dict_keys (foldl (\<lambda>d em. dict_set (partition_key_from_emission em) () d) d0 es))"
  by (induction es arbitrary: d0) auto

lemma flush_all:
  "set ks \<subseteq> set (dict_keys bs) \<Longrightarrow> distinct ks \<Longrightarrow>
   \<exists>bs'. flush_partitions append_flush (bs, flushed) ks = ((bs', flushed @ map (\<lambda>k. \<lparr>fp_partition_key = k,
       fp_emissions = pb_emissions (buffer_for bs k), fp_detections = pb_detections (buffer_for bs k),
       fp_features = pb_features (buffer_for bs k)\<rparr>) ks), Inr ()) \<and>
     (\<forall>k. buffer_for bs' k = (if k \<in> set ks then empty_buffer else buffer_for bs k))"
proof (induction ks arbitrary: bs flushed)
  case (Cons k ks)
  then obtain b where b: "dict_get bs k = Some b" by (metis dict_get_None_iff list.set_intros(1) not_None_eq subsetD)
  then have bk: "buffer_for bs k = b" by (simp add: buffer_for_def dict_get_default_def)
  let ?bs = "dict_set k empty_buffer bs"
  have "set ks \<subseteq> set (dict_keys ?bs)" using Cons.prems by (auto simp: fst_dict_set)
  moreover have "map (\<lambda>k. \<lparr>fp_partition_key = k, fp_emissions = pb_emissions (buffer_for ?bs k),
       fp_detections = pb_detections (buffer_for ?bs k), fp_features = pb_features (buffer_for ?bs k)\<rparr>) ks =
     map (\<lambda>k. \<lparr>fp_partition_key = k, fp_emissions = pb_emissions (buffer_for bs k),
       fp_detections = pb_detections (buffer_for bs k), fp_features = pb_features (buffer_for bs k)\<rparr>) ks"
    using Cons.prems(2) by (auto simp: buffer_for_set)
  ultimately show ?case
    using Cons.IH [of ?bs "flushed @ [\<lparr>fp_partition_key = k, fp_emissions = pb_emissions b,
        fp_detections = pb_detections b, fp_features = pb_features b\<rparr>]"] Cons.prems(2) b bk
    by (auto simp: flush_partition_def append_flush_def buffer_for_set)
qed simp

lemma concat_map_if: "distinct ks \<Longrightarrow> concat (map sel (filter (\<lambda>f. fp_partition_key f = k) (map g ks))) =
    (if k \<in> set ks then sel (g k) else [])" if "\<And>x. fp_partition_key (g x) = x"
  using that by (induction ks) auto

definition idle :: "in_memory_writer \<Rightarrow> bool" where
  "idle wr \<longleftrightarrow> (\<forall>k. pb_emissions (buffer_for (fst wr) k) = [])"

definition wrote :: "in_memory_writer \<Rightarrow> processing_result list \<Rightarrow> in_memory_writer \<Rightarrow> bool" where
  "wrote wr rs wr' \<longleftrightarrow>
     (\<exists>new. snd wr' = snd wr @ new \<and> (\<forall>f \<in> set new. fp_emissions f \<noteq> [])) \<and>
     (\<forall>k. all_of fp_emissions pb_emissions wr' k = all_of fp_emissions pb_emissions wr k @
        filter (\<lambda>e. partition_key_from_emission e = k) (concat (map pr_emissions rs))) \<and>
     (\<forall>k. all_of fp_detections pb_detections wr' k = all_of fp_detections pb_detections wr k @
        filter (\<lambda>d. partition_key_from_detection d = k) (concat (map pr_detections rs))) \<and>
     (\<forall>k. all_of fp_features pb_features wr' k = all_of fp_features pb_features wr k @
        filter (\<lambda>f. partition_key_from_feature f = k) (concat (map pr_features rs)))"

lemma wrote_trans: "wrote a rs b \<Longrightarrow> wrote b ss c \<Longrightarrow> wrote a (rs @ ss) c"
  unfolding wrote_def by (elim conjE exE, intro conjI) auto

lemma write_step:
  obtains wr' where "in_memory_write wr r = (wr', Inr ())" "wrote wr [r] wr'" "idle wr \<Longrightarrow> idle wr'"
proof -
  let ?es = "pr_emissions r"
  define bs where "bs = foldl buffer_emission (foldl buffer_feature (foldl buffer_detection (fst wr) (pr_detections r)) (pr_features r)) ?es"
  define ks where "ks = dict_keys (foldl (\<lambda>d em. dict_set (partition_key_from_emission em) () d) [] ?es)"
  define g where "g = (\<lambda>k. \<lparr>fp_partition_key = k, fp_emissions = pb_emissions (buffer_for bs k),
      fp_detections = pb_detections (buffer_for bs k), fp_features = pb_features (buffer_for bs k)\<rparr>)"
  have ks: "set ks = partition_key_from_emission ` set ?es" "distinct ks"
    using flush_keys [of "[]" ?es] flush_keys_distinct [of "[]" ?es] by (simp_all add: ks_def)
  have "set ks \<subseteq> set (dict_keys bs)" unfolding ks(1) bs_def by (rule emission_keys_present)
  from flush_all [OF this ks(2), of "snd wr"] obtain bs'
    where f: "flush_partitions append_flush (bs, snd wr) ks = ((bs', snd wr @ map g ks), Inr ())"
      "\<And>k. buffer_for bs' k = (if k \<in> set ks then empty_buffer else buffer_for bs k)"
    unfolding g_def by auto
  have gk: "fp_partition_key (g k) = k" "fp_emissions (g k) = pb_emissions (buffer_for bs k)"
      "fp_detections (g k) = pb_detections (buffer_for bs k)" "fp_features (g k) = pb_features (buffer_for bs k)" for k
    by (simp_all add: g_def)
  note new = concat_map_if [of g, OF gk(1) ks(2)]
  have none: "filter (\<lambda>e. partition_key_from_emission e = k) ?es = [] \<longleftrightarrow> k \<notin> set ks" for k
    by (auto simp: ks(1) filter_empty_conv)
  show thesis
  proof (rule that)
    show "in_memory_write wr r = ((bs', snd wr @ map g ks), Inr ())"
      using f(1) by (simp add: in_memory_write_def absorb_def Let_def bs_def ks_def)
    have "\<exists>n. snd (bs', snd wr @ map g ks) = snd wr @ n \<and> (\<forall>f \<in> set n. fp_emissions f \<noteq> [])"
      using none by (auto simp: gk bs_def buffer_emissions)
    then show "wrote wr [r] (bs', snd wr @ map g ks)"
      by (simp add: wrote_def all_of_def flushed_of_def new f(2) gk empty_buffer_def bs_def buffer_emissions
          buffer_detections buffer_features)
    show "idle wr \<Longrightarrow> idle (bs', snd wr @ map g ks)"
      using none by (auto simp: idle_def f(2) empty_buffer_def bs_def buffer_emissions buffer_detections buffer_features)
  qed
qed

fun write_all :: "in_memory_writer \<Rightarrow> processing_result list \<Rightarrow> in_memory_writer \<times> unit res" where
  "write_all wr [] = (wr, Inr ())"
| "write_all wr (r # rs) =
     (case in_memory_write wr r of (wr', Inl e) \<Rightarrow> (wr', Inl e) | (wr', Inr _) \<Rightarrow> write_all wr' rs)"

lemma write_all_spec: "idle wr \<Longrightarrow> \<exists>wr'. write_all wr rs = (wr', Inr ()) \<and> wrote wr rs wr' \<and> idle wr'"
proof (induction rs arbitrary: wr)
  case Nil
  then show ?case by (simp add: wrote_def)
next
  case (Cons r rs)
  obtain w1 where w1: "in_memory_write wr r = (w1, Inr ())" "wrote wr [r] w1" "idle w1"
    using write_step [of wr r] Cons.prems by metis
  with Cons.IH [of w1] wrote_trans [of wr "[r]" w1 rs] show ?case by auto
qed

text \<open>
  C13: the dataset writer loses nothing and duplicates nothing. Over any sequence of results
  it never raises; for each partition the flushed emissions are exactly the emissions of
  that partition, in order, with none left in the buffer; its detections and features are
  the flushed ones followed by the buffered ones; and no flush is without an emission.
\<close>

theorem writer_loses_nothing:
  "\<exists>bs flushed. write_all in_memory_writer_init rs = ((bs, flushed), Inr ()) \<and>
     (\<forall>k. flushed_of fp_emissions flushed k = filter (\<lambda>e. partition_key_from_emission e = k) (concat (map pr_emissions rs)) \<and>
          flushed_of fp_detections flushed k @ pb_detections (buffer_for bs k) =
            filter (\<lambda>d. partition_key_from_detection d = k) (concat (map pr_detections rs)) \<and>
          flushed_of fp_features flushed k @ pb_features (buffer_for bs k) =
            filter (\<lambda>f. partition_key_from_feature f = k) (concat (map pr_features rs))) \<and>
     [] \<notin> fp_emissions ` set flushed"
proof -
  have e: "buffer_for [] k = empty_buffer" "flushed_of sel [] k = []" for k :: partition_key and sel :: "flushed_partition \<Rightarrow> 'a list"
    by (simp_all add: buffer_for_def dict_get_default_def flushed_of_def)
  have i: "idle in_memory_writer_init"
    by (simp add: idle_def in_memory_writer_init_def e empty_buffer_def)
  obtain bs flushed where "write_all in_memory_writer_init rs = ((bs, flushed), Inr ())"
      "wrote in_memory_writer_init rs (bs, flushed)" "idle (bs, flushed)"
    using write_all_spec [OF i, of rs] by (metis surj_pair)
  then show ?thesis
    by (intro exI [of _ bs] exI [of _ flushed])
      (auto simp: wrote_def idle_def all_of_def in_memory_writer_init_def e empty_buffer_def flushed_of_def)
qed

end
