(* ===== verification/Serialisation.thy ===== *)
theory Serialisation
  imports Datasets
begin

text \<open>
  \<^verbatim>\<open>stream_pipeline/datasets/serialisation.py\<close> and \<^verbatim>\<open>s3_writer.py\<close>: the canonical tables of
  a flushed partition and their upload. A table is its named, typed columns; turning one
  into Parquet bytes is the parameter \<open>write_table\<close>, which may raise.
\<close>

subsection \<open>JSON text\<close>

text \<open>\<^verbatim>\<open>json.dumps\<close> with \<^verbatim>\<open>ensure_ascii\<close>: quotes, backslashes and everything unprintable are escaped.\<close>

definition json_char :: "char \<Rightarrow> string" where
  "json_char c =
     (let n = of_char c :: int in
      if c = CHR 0x22 then [CHR 0x5C, CHR 0x22]
      else if c = CHR 0x5C then [CHR 0x5C, CHR 0x5C]
      else if n = 10 then [CHR 0x5C, CHR ''n''] else if n = 13 then [CHR 0x5C, CHR ''r'']
      else if n = 9 then [CHR 0x5C, CHR ''t''] else if n = 8 then [CHR 0x5C, CHR ''b'']
      else if n = 12 then [CHR 0x5C, CHR ''f'']
      else if n < 32 \<or> 126 < n then [CHR 0x5C, CHR ''u''] @ hex_digits 4 n
      else [c])"

definition json_string :: "string \<Rightarrow> string" where
  "json_string s = [CHR 0x22] @ concat (map json_char s) @ [CHR 0x22]"

text \<open>Keys sorted, separators without blanks, \<^verbatim>\<open>default=str\<close> for what is not JSON.\<close>

fun json_scalar :: "(pyval \<Rightarrow> string) \<Rightarrow> pyval \<Rightarrow> string"
  and json_list :: "(pyval \<Rightarrow> string) \<Rightarrow> pyval list \<Rightarrow> string list"
  and json_fields :: "(pyval \<Rightarrow> string) \<Rightarrow> (string \<times> pyval) list \<Rightarrow> (string \<times> string) list" where
  "json_scalar repr PyNone = ''null''"
| "json_scalar repr (PyBool b) = (if b then ''true'' else ''false'')"
| "json_scalar repr (PyInt i) = py_str repr (PyInt i)"
| "json_scalar repr (PyFloat x) = show_float x"
| "json_scalar repr (PyStr s) = json_string s"
| "json_scalar repr (PyUUID u) = json_string (str_uuid u)"
| "json_scalar repr (PyDT d) = json_string (str_datetime d)"
| "json_scalar repr (PyList vs) = ''['' @ join_with (CHR '','') (json_list repr vs) @ '']''"
| "json_scalar repr (PyDict kvs) =
     ''{'' @ join_with (CHR '','') (map (\<lambda>(k, v). json_string k @ '':'' @ v) (sort_key fst (json_fields repr kvs))) @ ''}''"
| "json_scalar repr (PyObj cls as) = json_string (repr (PyObj cls as))"
| "json_list repr [] = []"
| "json_list repr (v # vs) = json_scalar repr v # json_list repr vs"
| "json_fields repr [] = []"
| "json_fields repr (kv # kvs) = (fst kv, json_scalar repr (snd kv)) # json_fields repr kvs"

subsection \<open>Tables\<close>

datatype column =
    ColString "string option list"
  | ColTimestamp "datetime list"
  | ColInt "int list"
  | ColBool "bool list"
  | ColFloat "pyfloat list"

type_synonym table = "(string \<times> column) list"

record 'b serialised_table =
  st_record_type :: string
  st_aggregation_name :: "string option"
  st_data :: 'b
  st_row_count :: nat

fun as_bool :: "pyval \<Rightarrow> bool option" where
  "as_bool (PyBool b) = Some b"
| "as_bool _ = None"

fun as_int :: "pyval \<Rightarrow> int option" where
  "as_int (PyInt i) = Some i"
| "as_int _ = None"

text \<open>\<^verbatim>\<open>float(v)\<close> of an \<^verbatim>\<open>int\<close> or \<^verbatim>\<open>float\<close> that is no \<^verbatim>\<open>bool\<close>.\<close>

fun as_float :: "pyval \<Rightarrow> pyfloat option" where
  "as_float (PyInt i) = Some (fl (of_int i))"
| "as_float (PyFloat x) = Some x"
| "as_float _ = None"

definition value_array :: "(pyval \<Rightarrow> string) \<Rightarrow> pyval list \<Rightarrow> column" where
  "value_array repr values =
     (if values \<noteq> [] \<and> list_all (\<lambda>v. as_bool v \<noteq> None) values then ColBool (map (the \<circ> as_bool) values)
      else if values \<noteq> [] \<and> list_all (\<lambda>v. as_int v \<noteq> None) values then ColInt (map (the \<circ> as_int) values)
      else if values \<noteq> [] \<and> list_all (\<lambda>v. as_float v \<noteq> None) values then ColFloat (map (the \<circ> as_float) values)
      else ColString (map (Some \<circ> json_scalar repr) values))"

definition emission_sort_key :: "window_emission \<Rightarrow> int \<times> int \<times> bool \<times> int \<times> string" where
  "emission_sort_key e =
     (we_window_start e, we_window_end e, we_is_repair e, we_event_count e,
      case we_last_trace e of None \<Rightarrow> [] | Some t \<Rightarrow> t)"

definition emissions_table :: "(pyval \<Rightarrow> string) \<Rightarrow> window_emission list \<Rightarrow> table" where
  "emissions_table repr rows =
     [(''partition_key'', ColString (map (Some \<circ> we_partition_key) rows)),
      (''aggregation_name'', ColString (map (Some \<circ> we_aggregation_name) rows)),
      (''window_start'', ColTimestamp (map (UTC \<circ> we_window_start) rows)),
      (''window_end'', ColTimestamp (map (UTC \<circ> we_window_end) rows)),
      (''value'', value_array repr (map we_value rows)),
      (''event_count'', ColInt (map we_event_count rows)),
      (''is_repair'', ColBool (map we_is_repair rows)),
      (''last_contributing_trace_id'', ColString (map we_last_trace rows))]"

definition serialise_emissions ::
  "(pyval \<Rightarrow> string) \<Rightarrow> (table \<Rightarrow> 'b res) \<Rightarrow> window_emission list \<Rightarrow> 'b serialised_table list res" where
  "serialise_emissions repr write_table emissions =
     (let groups = foldl (\<lambda>d em. dict_append (we_aggregation_name em) em d) [] emissions in
      map_res (\<lambda>aggregation_name.
        let rows = sort_key emission_sort_key (dict_get_default groups aggregation_name []) in
        bind_res (write_table (emissions_table repr rows)) (\<lambda>bytes.
          Inr \<lparr>st_record_type = ''emissions'', st_aggregation_name = Some aggregation_name, st_data = bytes,
               st_row_count = length rows\<rparr>))
        (sort (dict_keys groups)))"

definition device_text :: "detection_event \<Rightarrow> string option" where
  "device_text d = map_option str_uuid (dp_device_id (ev_payload d))"

definition detection_sort_key :: "detection_event \<Rightarrow> int \<times> int \<times> string \<times> string \<times> string \<times> string" where
  "detection_sort_key d =
     (let p = ev_payload d in
      (instant (dp_detected_at p), instant (ev_event_timestamp d), dp_store_id p, dp_detection_type p,
       case device_text d of None \<Rightarrow> [] | Some s \<Rightarrow> s, dp_threshold_breached p))"

definition detections_table :: "(pyval \<Rightarrow> string) \<Rightarrow> detection_event list \<Rightarrow> table" where
  "detections_table repr rows =
     (let col = (\<lambda>f. ColString (map (\<lambda>d. Some (f d)) rows)) in
      [(''event_id'', col (str_uuid \<circ> ev_event_id)),
       (''detection_id'', col (str_uuid \<circ> dp_detection_id \<circ> ev_payload)),
       (''detection_type'', col (dp_detection_type \<circ> ev_payload)),
       (''severity'', col (severity_value \<circ> dp_severity \<circ> ev_payload)),
       (''detected_at'', ColTimestamp (map (dp_detected_at \<circ> ev_payload) rows)),
       (''event_timestamp'', ColTimestamp (map ev_event_timestamp rows)),
       (''store_id'', col (dp_store_id \<circ> ev_payload)),
       (''device_id'', ColString (map device_text rows)),
       (''source_event_id'', col (str_uuid \<circ> dp_source_event_id \<circ> ev_payload)),
       (''threshold_breached'', col (dp_threshold_breached \<circ> ev_payload)),
       (''details'', col (json_scalar repr \<circ> PyDict \<circ> dp_details \<circ> ev_payload)),
       (''trace_id'', col trace_id_of)])"

definition serialise_detections ::
  "(pyval \<Rightarrow> string) \<Rightarrow> (table \<Rightarrow> 'b res) \<Rightarrow> detection_event list \<Rightarrow> 'b serialised_table list res" where
  "serialise_detections repr write_table detections =
     (if detections = [] then Inr []
      else let rows = sort_key detection_sort_key detections in
        bind_res (write_table (detections_table repr rows)) (\<lambda>bytes.
          Inr [\<lparr>st_record_type = ''detections'', st_aggregation_name = None, st_data = bytes, st_row_count = length rows\<rparr>]))"

definition feature_sort_key :: "(pyval \<Rightarrow> string) \<Rightarrow> feature_event \<Rightarrow> int \<times> int \<times> string \<times> string \<times> string" where
  "feature_sort_key repr f =
     (let p = ev_payload f in
      (instant (wf_window_start p), instant (wf_window_end p), wf_partition_key p, wf_feature_version p,
       json_scalar repr (PyDict (wf_feature_values p))))"

definition features_table :: "(pyval \<Rightarrow> string) \<Rightarrow> feature_event list \<Rightarrow> table" where
  "features_table repr rows =
     (let col = (\<lambda>f. ColString (map (\<lambda>d. Some (f d)) rows)) in
      [(''event_id'', col (str_uuid \<circ> ev_event_id)),
       (''partition_key'', col (wf_partition_key \<circ> ev_payload)),
       (''window_start'', ColTimestamp (map (wf_window_start \<circ> ev_payload) rows)),
       (''window_end'', ColTimestamp (map (wf_window_end \<circ> ev_payload) rows)),
       (''feature_values'', col (json_scalar repr \<circ> PyDict \<circ> wf_feature_values \<circ> ev_payload)),
       (''feature_version'', col (wf_feature_version \<circ> ev_payload)),
       (''event_timestamp'', ColTimestamp (map ev_event_timestamp rows)),
       (''trace_id'', col trace_id_of)])"

definition serialise_features ::
  "(pyval \<Rightarrow> string) \<Rightarrow> (table \<Rightarrow> 'b res) \<Rightarrow> feature_event list \<Rightarrow> 'b serialised_table list res" where
  "serialise_features repr write_table features =
     (if features = [] then Inr []
      else let rows = sort_key (feature_sort_key repr) features in
        bind_res (write_table (features_table repr rows)) (\<lambda>bytes.
          Inr [\<lparr>st_record_type = ''features'', st_aggregation_name = None, st_data = bytes, st_row_count = length rows\<rparr>]))"

definition table_order :: "'b serialised_table \<Rightarrow> string \<times> string" where
  "table_order t = (st_record_type t, case st_aggregation_name t of None \<Rightarrow> [] | Some n \<Rightarrow> n)"

definition serialise_partition ::
  "(pyval \<Rightarrow> string) \<Rightarrow> (table \<Rightarrow> 'b res) \<Rightarrow> flushed_partition \<Rightarrow> 'b serialised_table list res" where
  "serialise_partition repr write_table part =
     bind_res (serialise_detections repr write_table (fp_detections part)) (\<lambda>ds.
     bind_res (serialise_emissions repr write_table (fp_emissions part)) (\<lambda>es.
     bind_res (serialise_features repr write_table (fp_features part)) (\<lambda>fs.
       Inr (sort_key table_order (ds @ es @ fs)))))"

subsection \<open>Upload\<close>

definition table_root :: "'b serialised_table \<Rightarrow> string" where
  "table_root t = (case st_aggregation_name t of None \<Rightarrow> st_record_type t | Some n \<Rightarrow> st_record_type t @ ''/'' @ n)"

definition partition_path :: "partition_key \<Rightarrow> string" where
  "partition_path key =
     (let h = pk_hour key in
      ''store_id='' @ pk_store_id key @ ''/year='' @ show_pad 4 (nat (year h)) @ ''/month='' @ show2 (month h) @
      ''/day='' @ show2 (day h) @ ''/hour='' @ show2 (hour h))"

definition object_prefix :: "partition_key \<Rightarrow> 'b serialised_table \<Rightarrow> string" where
  "object_prefix key t = table_root t @ ''/'' @ partition_path key"

definition object_name :: "string \<Rightarrow> nat \<Rightarrow> string" where
  "object_name prefix n = prefix @ ''/'' @ show_pad 8 n @ ''.parquet''"

definition object_key :: "(string, nat) dict \<Rightarrow> partition_key \<Rightarrow> 'b serialised_table \<Rightarrow> (string, nat) dict \<times> string" where
  "object_key sequence key t =
     (let prefix = object_prefix key t; n = dict_get_default sequence prefix 0
      in (dict_set prefix (n + 1) sequence, object_name prefix n))"

record ('b, 'c) s3_env =
  s3_bucket :: "string option"
  s3_repr :: "pyval \<Rightarrow> string"
  s3_write_table :: "table \<Rightarrow> 'b res"
  s3_put_object :: "'c \<Rightarrow> string \<Rightarrow> string \<Rightarrow> 'b \<Rightarrow> 'c \<times> unit res"

type_synonym 'c s3_state = "(string, nat) dict \<times> 'c"

fun upload_tables ::
  "('b, 'c) s3_env \<Rightarrow> string \<Rightarrow> partition_key \<Rightarrow> 'b serialised_table list \<Rightarrow> 'c s3_state \<Rightarrow> 'c s3_state \<times> unit res" where
  "upload_tables env bucket key [] sc = (sc, Inr ())"
| "upload_tables env bucket key (t # ts) sc =
     (let (sequence, k) = object_key (fst sc) key t in
      case s3_put_object env (snd sc) bucket k (st_data t) of
        (c', Inl e) \<Rightarrow> ((sequence, c'), Inl e)
      | (c', Inr _) \<Rightarrow> upload_tables env bucket key ts (sequence, c'))"

definition upload_flush ::
  "('b, 'c) s3_env \<Rightarrow> string \<Rightarrow> 'c s3_state \<Rightarrow> flushed_partition \<Rightarrow> 'c s3_state \<times> unit res" where
  "upload_flush env bucket sc flushed =
     (case serialise_partition (s3_repr env) (s3_write_table env) flushed of
        Inl e \<Rightarrow> (sc, Inl e)
      | Inr tables \<Rightarrow> upload_tables env bucket (fp_partition_key flushed) tables sc)"

definition s3_write ::
  "('b, 'c) s3_env \<Rightarrow> buffers \<times> 'c s3_state \<Rightarrow> processing_result \<Rightarrow> (buffers \<times> 'c s3_state) \<times> unit res" where
  "s3_write env st result =
     (case s3_bucket env of
        None \<Rightarrow> (st, Inr ())
      | Some bucket \<Rightarrow> absorb (upload_flush env bucket) st result)"

subsection \<open>Canonical tables\<close>

lemma sort_key_perm: "mset xs = mset ys \<Longrightarrow> inj_on f (set xs) \<Longrightarrow> sort_key f xs = sort_key f ys"
  by (rule sort_key_inj_key_eq) simp_all

lemma sort_distinct: "distinct xs \<Longrightarrow> sort xs = sorted_list_of_set (set xs)"
  by (simp add: sorted_list_of_set_sort_remdups distinct_remdups_id)

lemma serialise_emissions_alt:
  "serialise_emissions repr write_table es =
     map_res (\<lambda>n. bind_res (write_table (emissions_table repr (sort_key emission_sort_key (filter (\<lambda>e. we_aggregation_name e = n) es))))
         (\<lambda>bytes. Inr \<lparr>st_record_type = ''emissions'', st_aggregation_name = Some n, st_data = bytes,
               st_row_count = length (filter (\<lambda>e. we_aggregation_name e = n) es)\<rparr>))
       (sorted_list_of_set (we_aggregation_name ` set es))"
proof -
  let ?g = "foldl (\<lambda>d em. dict_append (we_aggregation_name em) em d) [] es"
  have "sort (dict_keys ?g) = sorted_list_of_set (set (dict_keys ?g))"
    by (rule sort_distinct) (rule dict_group_ok, simp)
  moreover have "set (dict_keys ?g) = we_aggregation_name ` set es"
    using dict_group_keys [of we_aggregation_name "[]" es] by simp
  moreover have "dict_get_default ?g n [] = filter (\<lambda>e. we_aggregation_name e = n) es" for n
    using dict_group_get [of we_aggregation_name "[]" es n] by (simp add: dict_get_default_def)
  ultimately show ?thesis by (simp add: serialise_emissions_def Let_def)
qed

lemma filter_sort_perm:
  assumes "mset es = mset es'" "inj_on (\<lambda>e. (we_aggregation_name e, emission_sort_key e)) (set es)"
  shows "sort_key emission_sort_key (filter (\<lambda>e. we_aggregation_name e = n) es) =
    sort_key emission_sort_key (filter (\<lambda>e. we_aggregation_name e = n) es')"
proof (rule sort_key_perm)
  show "mset (filter (\<lambda>e. we_aggregation_name e = n) es) = mset (filter (\<lambda>e. we_aggregation_name e = n) es')"
    using assms(1) by simp
  show "inj_on emission_sort_key (set (filter (\<lambda>e. we_aggregation_name e = n) es))"
    using assms(2) by (auto simp: inj_on_def)
qed


definition demo_report :: "int \<Rightarrow> window_emission" where
  "demo_report n = \<lparr>we_partition_key = ''s'', we_aggregation_name = ''count'', we_window_start = seconds (60 * n),
     we_window_end = seconds (60 * n + 60), we_value = PyInt n, we_event_count = n, we_is_repair = False, we_last_trace = None\<rparr>"

definition demo_flush :: "window_emission list \<Rightarrow> flushed_partition" where
  "demo_flush es = \<lparr>fp_partition_key = PartitionKey ''s'' (UTC 0), fp_emissions = es, fp_detections = [], fp_features = []\<rparr>"


lemma map_res_shape:
  "map_res f xs = Inr ys \<Longrightarrow> (\<And>x y. x \<in> set xs \<Longrightarrow> f x = Inr y \<Longrightarrow> g y = h x) \<Longrightarrow> map g ys = map h xs"
proof (induction xs arbitrary: ys)
  case (Cons x xs)
  then obtain y ys' where "ys = y # ys'" "f x = Inr y" "map_res f xs = Inr ys'" by auto
  with Cons.IH [of ys'] Cons.prems(2) show ?case by auto
qed simp

text \<open>The layout of a flush: what each table holds and how many rows it has.\<close>

definition table_shape :: "'b serialised_table \<Rightarrow> string \<times> string option \<times> nat" where
  "table_shape t = (st_record_type t, st_aggregation_name t, st_row_count t)"

text \<open>
  A flush that serialises has one table of detections when there are any, one table of
  emissions per aggregation, in the order of their names, and one table of features when
  there are any, in this order; every record is a row of exactly one table. The final sort
  of the tables moves nothing.
\<close>

theorem tables_of_flush:
  assumes "serialise_partition repr write_table a = Inr tables"
  shows "map table_shape tables =
     (if fp_detections a = [] then [] else [(''detections'', None, length (fp_detections a))]) @
     map (\<lambda>n. (''emissions'', Some n, length (filter (\<lambda>e. we_aggregation_name e = n) (fp_emissions a))))
       (sorted_list_of_set (we_aggregation_name ` set (fp_emissions a))) @
     (if fp_features a = [] then [] else [(''features'', None, length (fp_features a))])"
proof -
  let ?names = "sorted_list_of_set (we_aggregation_name ` set (fp_emissions a))"
  obtain ds es fs where t: "serialise_detections repr write_table (fp_detections a) = Inr ds"
      "serialise_emissions repr write_table (fp_emissions a) = Inr es"
      "serialise_features repr write_table (fp_features a) = Inr fs" "tables = sort_key table_order (ds @ es @ fs)"
    using assms by (auto simp: serialise_partition_def)
  have d: "map table_shape ds = (if fp_detections a = [] then [] else [(''detections'', None, length (fp_detections a))])"
    using t(1) by (auto simp: serialise_detections_def table_shape_def split: if_splits)
  have f: "map table_shape fs = (if fp_features a = [] then [] else [(''features'', None, length (fp_features a))])"
    using t(3) by (auto simp: serialise_features_def table_shape_def split: if_splits)
  have e: "map table_shape es =
      map (\<lambda>n. (''emissions'', Some n, length (filter (\<lambda>e. we_aggregation_name e = n) (fp_emissions a)))) ?names"
    by (rule map_res_shape [OF t(2) [unfolded serialise_emissions_alt]]) (auto simp: table_shape_def)
  have order: "map table_order ts = map (\<lambda>(r, n, c). (r, case n of None \<Rightarrow> [] | Some x \<Rightarrow> x)) (map table_shape ts)"
    for ts :: "'a serialised_table list" by (simp add: table_order_def table_shape_def)
  have le: "(''detections'' :: string) < ''emissions''" "(''emissions'' :: string) < ''features''" by code_simp+
  have "sorted (map (\<lambda>n. (''emissions'', n)) ?names)"
    using sorted_sorted_list_of_set by (auto simp: sorted_iff_nth_mono less_eq_prod_def)
  then have "sorted (map table_order (ds @ es @ fs))"
    unfolding order map_append d e f
    using le by (auto simp: sorted_append less_eq_prod_def comp_def intro: less_imp_le dest: less_trans)
  then show ?thesis using d e f t(4) by (simp add: sorted_sort_id sort_key_id_if_sorted)
qed

theorem tables_of_flush_witness:
  "\<exists>tables. serialise_partition type_name Inr (demo_flush [demo_report 2, demo_report 1]) = Inr tables \<and>
     map table_shape tables = [(''emissions'', Some ''count'', 2)]"
proof -
  let ?f = "demo_flush [demo_report 2, demo_report 1]"
  obtain tables where t: "serialise_partition type_name Inr ?f = Inr tables"
    by (simp add: serialise_partition_def serialise_detections_def serialise_features_def demo_flush_def
        serialise_emissions_alt demo_report_def)
  from tables_of_flush [OF t] show ?thesis using t by (simp add: demo_flush_def demo_report_def)
qed

subsection \<open>Object names\<close>

lemma split_first: "c \<notin> set a \<Longrightarrow> c \<notin> set b \<Longrightarrow> a @ c # x = b @ c # y \<longleftrightarrow> a = b \<and> x = y"
proof (induction a arbitrary: b)
  case Nil
  then show ?case by (cases b) auto
next
  case (Cons z zs)
  then show ?case by (cases b) auto
qed

lemma split_last: "c \<notin> set x \<Longrightarrow> c \<notin> set y \<Longrightarrow> a @ c # x = b @ c # y \<longleftrightarrow> a = b \<and> x = y"
  using split_first [of c "rev x" "rev y" "rev a" "rev b"] by (metis append_Cons append_Nil append_assoc rev_append rev_rev_ident rev_swap rev.simps(2) set_rev)

lemma show_pad_digits: "c \<in> set (show_pad w n) \<Longrightarrow> is_digit c"
  using show_nat_digits [of n] by (auto simp: show_pad_def Let_def is_digit_def list_all_iff)

lemma show_pad_inj: "show_pad w n = show_pad w m \<longleftrightarrow> n = m"
  by (metis nat_of_digits_show nat_of_digits_zeros show_pad_def)

lemma object_name_inj: "object_name p n = object_name q m \<longleftrightarrow> p = q \<and> n = m"
proof -
  have "CHR ''/'' \<notin> set (show_pad 8 k)" for k using show_pad_digits [of "CHR ''/''" 8 k] by (auto simp: is_digit_def)
  then show ?thesis
    using split_last [of "CHR ''/''" "show_pad 8 n" "show_pad 8 m" p q] by (auto simp: object_name_def show_pad_inj)
qed

text \<open>A client that stores an object under the key it is given, or raises; either way no other key.\<close>

definition stores_key :: "('c \<Rightarrow> string \<Rightarrow> string \<Rightarrow> 'b \<Rightarrow> 'c \<times> unit res) \<Rightarrow> ('c \<Rightarrow> string list) \<Rightarrow> bool" where
  "stores_key put keys \<longleftrightarrow> (\<forall>c bucket k bytes. keys (fst (put c bucket k bytes)) \<in> {keys c, keys c @ [k]})"

definition numbered :: "('c \<Rightarrow> string list) \<Rightarrow> 'c s3_state \<Rightarrow> bool" where
  "numbered keys sc \<longleftrightarrow> distinct (keys (snd sc)) \<and>
     (\<forall>k \<in> set (keys (snd sc)). \<exists>prefix n. k = object_name prefix n \<and> n < dict_get_default (fst sc) prefix 0)"

lemma numbered_put:
  assumes n: "numbered keys (sequence, c)" and c': "keys c' \<in> {keys c, keys c @ [object_name prefix (dict_get_default sequence prefix 0)]}"
  shows "numbered keys (dict_set prefix (dict_get_default sequence prefix 0 + 1) sequence, c')"
proof -
  let ?n = "dict_get_default sequence prefix 0"
  have fresh: "object_name prefix ?n \<notin> set (keys c)" using n by (auto simp: numbered_def object_name_inj)
  have mono: "dict_get_default sequence q 0 \<le> dict_get_default (dict_set prefix (?n + 1) sequence) q 0" for q
    by (auto simp: dict_get_default_def)
  have "\<exists>q m. k = object_name q m \<and> m < dict_get_default (dict_set prefix (?n + 1) sequence) q 0" if "k \<in> set (keys c')" for k
  proof (cases "k = object_name prefix ?n")
    case True
    then show ?thesis by (intro exI [of _ prefix] exI [of _ ?n]) (simp add: dict_get_default_def)
  next
    case False
    then have "k \<in> set (keys c)" using that c' by auto
    then show ?thesis using n mono by (fastforce simp: numbered_def intro: less_le_trans)
  qed
  then show ?thesis using n c' fresh by (auto simp: numbered_def)
qed

lemma numbered_upload:
  "stores_key (s3_put_object env) keys \<Longrightarrow> numbered keys sc \<Longrightarrow> numbered keys (fst (upload_tables env bucket key ts sc))"
proof (induction ts arbitrary: sc)
  case (Cons t ts)
  let ?prefix = "object_prefix key t"
  let ?n = "dict_get_default (fst sc) ?prefix 0"
  let ?put = "s3_put_object env (snd sc) bucket (object_name ?prefix ?n) (st_data t)"
  have "numbered keys (fst sc, snd sc)" using Cons.prems(2) by simp
  moreover have "keys (fst ?put) \<in> {keys (snd sc), keys (snd sc) @ [object_name ?prefix ?n]}"
    using Cons.prems(1) unfolding stores_key_def by blast
  ultimately have "numbered keys (dict_set ?prefix (?n + 1) (fst sc), fst ?put)" by (rule numbered_put)
  then show ?case
    using Cons.IH [OF Cons.prems(1)] by (cases ?put) (auto simp: object_key_def Let_def split: sum.split)
qed simp

lemma flush_partitions_inv:
  assumes "\<And>w f. P w \<Longrightarrow> P (fst (on_flush w f))"
  shows "P (snd bw) \<Longrightarrow> P (snd (fst (flush_partitions on_flush bw ks)))"
proof (induction ks arbitrary: bw)
  case (Cons k ks)
  have "P (snd (fst (flush_partition on_flush bw k)))"
    using assms Cons.prems by (auto simp: flush_partition_def split: option.split prod.split sum.split) (metis fst_conv)+
  then show ?case using Cons.IH by (auto split: prod.split sum.split)
qed simp

lemma numbered_write:
  assumes "stores_key (s3_put_object env) keys" "numbered keys (snd st)"
  shows "numbered keys (snd (fst (s3_write env st r)))"
proof -
  have "numbered keys (fst (upload_flush env bucket sc f))" if "numbered keys sc" for bucket sc f
    using numbered_upload [OF assms(1) that] that by (auto simp: upload_flush_def split: sum.split)
  then have "numbered keys (snd (fst (absorb (upload_flush env bucket) st r)))" for bucket
    unfolding absorb_def Let_def by (rule flush_partitions_inv) (simp_all add: assms(2))
  then show ?thesis using assms(2) by (simp add: s3_write_def split: option.split)
qed

text \<open>
  C22: no uploaded object overwrites another. Over any sequence of results, uploads that
  raise included, the keys the client stored are pairwise different: each carries its
  table, its partition and the next number of that prefix.
\<close>

theorem object_keys_unique:
  assumes "stores_key (s3_put_object env) keys" and "keys c0 = []"
  shows "distinct (keys (snd (snd (foldl (\<lambda>st r. fst (s3_write env st r)) ([], [], c0) rs))))"
proof -
  have "numbered keys (snd st) \<Longrightarrow> numbered keys (snd (foldl (\<lambda>st r. fst (s3_write env st r)) st rs))" for st
    by (induction rs arbitrary: st) (use numbered_write [OF assms(1)] in auto)
  from this [of "([], [], c0)"] show ?thesis using assms(2) by (simp add: numbered_def)
qed

definition recording_store :: "(table, string list) s3_env" where
  "recording_store = \<lparr>s3_bucket = Some ''b'', s3_repr = type_name, s3_write_table = Inr,
     s3_put_object = (\<lambda>c bucket k bytes. (c @ [k], Inr ()))\<rparr>"

definition demo_result :: "window_emission list \<Rightarrow> processing_result" where
  "demo_result es = \<lparr>pr_event_id = ''e'', pr_partition_key = Some ''s'', pr_classification = Some ON_TIME,
     pr_handlers_invoked = 0, pr_handler_failures = 0, pr_emissions = es, pr_detections = [], pr_alerts = [],
     pr_extraction_failed = False, pr_features = []\<rparr>"

theorem object_keys_unique_witness:
  "distinct (snd (snd (foldl (\<lambda>st r. fst (s3_write recording_store st r)) ([], [], [])
     [demo_result [demo_report 1], demo_result [demo_report 1], demo_result [demo_report 2]])))"
  by (rule object_keys_unique) (simp_all add: stores_key_def recording_store_def)

end
