(* ===== verification/Deployment.thy ===== *)
theory Deployment
  imports Serialisation
begin

text \<open>
  The components together: a pipeline with a window aggregator, an anomaly detector on its
  emissions, acknowledgement-aware alerting and the in-memory dataset writer, all living in
  one world. The contract of windowed pipelines is discharged for it, and the chain from
  events to stored records is proved end to end.
\<close>

subsection \<open>Emissions can be bundled\<close>

definition bundleable :: "datetime \<Rightarrow> window_emission \<Rightarrow> bool" where
  "bundleable now em \<longleftrightarrow> we_partition_key em \<noteq> [] \<and> sep_words (we_partition_key em) \<and> feature_value_ok (we_value em) \<and>
     we_window_end em \<le> instant now + MAX_CLOCK_SKEW \<and> (\<exists>u. we_last_trace em = Some (str_uuid u))"

lemma feature_patterns: "SEMVER_PATTERN (sc_schema_version WindowedFeatureVectorEvent)"
    "EVENT_TYPE_PATTERN (sc_event_type WindowedFeatureVectorEvent)" "SOURCE_PATTERN FEATURE_EVENT_SOURCE" "v_dotted FEATURE_SCHEMA_VERSION"
  by code_simp+

lemma feature_values_ok:
  assumes "\<forall>em \<in> set ems. feature_value_ok (we_value em)"
  shows "list_all (feature_value_ok \<circ> snd) (feature_values_of ems)"
proof -
  have "\<forall>kv \<in> set d. feature_value_ok (snd kv) \<Longrightarrow> \<forall>em \<in> set ems. feature_value_ok (we_value em) \<Longrightarrow>
    \<forall>kv \<in> set (foldl (\<lambda>d em. dict_set (we_aggregation_name em) (we_value em) d) d ems). feature_value_ok (snd kv)" for d
  proof (induction ems arbitrary: d)
    case (Cons em ems)
    have "\<forall>kv \<in> set (dict_set (we_aggregation_name em) (we_value em) d). feature_value_ok (snd kv)"
      using Cons.prems set_dict_set [of "we_aggregation_name em" "we_value em" d] by auto
    then show ?case using Cons.IH Cons.prems(2) by simp
  qed simp
  from this [of "[]"] assms show ?thesis by (simp add: feature_values_of_def list_all_iff)
qed

lemma feature_event_ok:
  assumes g: "g \<noteq> []" "\<forall>em \<in> set g. bundleable now em \<and> we_partition_key em = k" and now: "aware now"
  shows "\<exists>f. feature_event_of now fresh ((k, s), g) = Inr f"
proof -
  obtain em es where e: "g = em # es" using g(1) by (cases g) auto
  then obtain u where u: "we_last_trace em = Some (str_uuid u)" using g(2) by (auto simp: bundleable_def)
  have t: "feature_trace fresh g = Inr (trace_context_init fresh (Some u) None INGESTION)"
    using u by (simp add: feature_trace_def e List.map_filter_def uuid_of_str_str)
  have k: "k \<noteq> []" "sep_words k" "we_window_end em \<le> instant now + MAX_CLOCK_SKEW" using g(2) by (auto simp: e bundleable_def)
  have v: "list_all (feature_value_ok \<circ> snd) (feature_values_of g)" using g(2) by (intro feature_values_ok) (auto simp: bundleable_def)
  let ?p = "\<lparr>wf_partition_key = k, wf_window_start = UTC s, wf_window_end = UTC (we_window_end em),
      wf_feature_values = feature_values_of g, wf_feature_version = FEATURE_SCHEMA_VERSION\<rparr>"
  have p: "windowed_feature_payload_init ?p = Inr ?p"
    using k v feature_patterns(4) by (simp add: windowed_feature_payload_init_Inr)
  obtain md where md: "event_metadata_init (sc_schema_version WindowedFeatureVectorEvent)
        (sc_event_type WindowedFeatureVectorEvent) FEATURE_EVENT_SOURCE = Inr md"
      "md_event_type md = sc_event_type WindowedFeatureVectorEvent" "md_schema_version md = sc_schema_version WindowedFeatureVectorEvent"
    using feature_patterns by (auto simp: event_metadata_init_Inr)
  show ?thesis
    using t p md k(3) now by (auto simp: feature_event_of_def Let_def e base_event_init_Inr inject_metadata_def)
qed

lemma group_members:
  assumes "((k, s), g) \<in> set (group_emissions ems)"
  shows "g = filter (\<lambda>em. (we_partition_key em, we_window_start em) = (k, s)) ems \<and> g \<noteq> []"
proof -
  let ?f = "\<lambda>em. (we_partition_key em, we_window_start em)"
  have ok: "dict_ok (group_emissions ems)" unfolding group_emissions_def by (rule dict_group_ok) simp
  then have "dict_get (group_emissions ems) (k, s) = Some g" using assms by (rule dict_in_get)
  then have "g = filter (\<lambda>em. ?f em = (k, s)) ems"
    using dict_group_get [of ?f "[]" ems "(k, s)"] by (simp add: group_emissions_def dict_get_default_def)
  moreover have "(k, s) \<in> ?f ` set ems"
    using assms dict_group_keys [of ?f "[]" ems] by (force simp: group_emissions_def)
  ultimately show ?thesis by (auto simp: filter_empty_conv)
qed

lemma bundle_ok:
  assumes "\<forall>em \<in> set ems. bundleable now em" and "aware now"
  shows "\<exists>fs. bundle_feature_events now fresh ems = Inr fs"
proof -
  have "\<exists>f. feature_event_of now fresh x = Inr f" if "x \<in> set (group_emissions ems)" for x
  proof -
    obtain k s g where x: "x = ((k, s), g)" by (metis surj_pair)
    show ?thesis unfolding x
      by (rule feature_event_ok) (use group_members [of k s g ems] that assms in \<open>auto simp: x\<close>)
  qed
  then obtain h where "\<And>x. x \<in> set (group_emissions ems) \<Longrightarrow> feature_event_of now fresh x = Inr (h x)" by metis
  then show ?thesis by (auto simp: bundle_feature_events_def map_res_total)
qed

subsection \<open>What the emissions of a run look like\<close>

lemma accepted_subset: "set (accepted m es) \<subseteq> set es"
  by (induction m es rule: accepted.induct) auto

lemma watermark_bound:
  assumes init: "watermark_manager_init n = Inr m" and es: "\<forall>x \<in> set es. instant (ob_time x) \<le> B"
    and B: "instant EPOCH_BASELINE \<le> B"
  shows "instant (watermark_for (mark m es) k) \<le> B"
proof -
  have "0 \<le> wm_lateness m" using wm_lateness_init [OF init] by simp
  moreover have "instant (high_for (mark m es) k) \<le> B"
    using es B high_for_init [OF init, of k]
    by (auto simp: mark_def instant_high_for_run fold_max_eq stamps_def)
  moreover have "wm_lateness (mark m es) = wm_lateness m" by (simp add: mark_def)
  ultimately show ?thesis using B by (auto simp: watermark_for_def instant_derive_watermark split: if_splits)
qed

lemma emission_facts:
  assumes su: "setup_ok n m a0" and inv: "run_inv a0 m es a" and es: "\<forall>x \<in> set es. event_ok n x" and x: "event_ok n x"
    and step: "stream_step (mark m es, a) x = (ma', Inr ems)" and em: "em \<in> set ems"
  obtains y xs where "y \<in> set (es @ [x])" "we_partition_key em = ob_key y" "we_last_trace em = ob_trace y"
    "we_value em = agg_finalise (wa_agg a0) (batch (wa_agg a0) xs)"
    "we_window_end em \<le> instant (watermark_for (mark m (es @ [x])) (we_partition_key em))"
proof -
  let ?k = "we_partition_key em" and ?s = "we_window_start em"
  obtain a' ems' where s: "stream_step (mark m es, a) x = ((mark m (es @ [x]), a'), Inr ems')"
      "\<forall>k s. filter (own k s) ems' = expected a0 m es x k s"
    using stream_step_spec [OF su inv es x] by blast
  have "em \<in> set (expected a0 m es x ?k ?s)" using s step em by (auto simp: own_def simp flip: s(2) [rule_format])
  then have d: "due (wa_spec a0) m (es @ [x]) ?k ?s"
      "em = emission_of a0 ?k ?s (due (wa_spec a0) m es ?k ?s) (window_of (wa_agg a0) (members (wa_spec a0) m (es @ [x]) ?k ?s) True)"
    by (auto simp: expected_def split: if_splits)
  let ?ms = "members (wa_spec a0) m (es @ [x]) ?k ?s"
  have ne: "?ms \<noteq> []" and passed: "?s + spec_size (wa_spec a0) \<le> instant (watermark_for (mark m (es @ [x])) ?k)"
    using d(1) by (auto simp: due_def passed_def)
  have l: "last ?ms \<in> set (accepted m (es @ [x]))" "ob_key (last ?ms) = ?k"
    using last_in_set [OF ne] by (auto simp: members_def in_window_def)
  have f: "we_last_trace em = ob_trace (last ?ms)" "we_value em = agg_finalise (wa_agg a0) (batch (wa_agg a0) ?ms)"
      "we_window_end em = ?s + spec_size (wa_spec a0)"
    by (subst d(2), simp add: emission_of_def window_of_def)+
  show thesis
    by (rule that [of "last ?ms" ?ms]) (use l f passed accepted_subset [of m "es @ [x]"] in auto)
qed

subsection \<open>The pipeline returns\<close>

text \<open>Observations an envelope of the contracts gives rise to, for a key the feature contract admits.\<close>

definition obs_ok :: "datetime \<Rightarrow> int \<Rightarrow> observation \<Rightarrow> bool" where
  "obs_ok now n x \<longleftrightarrow> event_ok n x \<and> sep_words (ob_key x) \<and> instant (ob_time x) \<le> instant now + MAX_CLOCK_SKEW \<and>
     (\<exists>u. ob_trace x = Some (str_uuid u))"

definition numeric :: "'st aggregation \<Rightarrow> bool" where
  "numeric ag \<longleftrightarrow> (\<forall>st. feature_value_ok (agg_finalise ag st))"

lemma emissions_bundleable:
  assumes su: "setup_ok n m a0" and inv: "run_inv a0 m es a" and x: "\<forall>y \<in> set (es @ [x]). obs_ok now n y"
    and num: "numeric (wa_agg a0)" and now: "instant EPOCH_BASELINE \<le> instant now + MAX_CLOCK_SKEW"
    and step: "stream_step (mark m es, a) x = (ma', Inr ems)"
  shows "\<forall>em \<in> set ems. bundleable now em"
proof
  fix em assume em: "em \<in> set ems"
  have ok: "\<forall>y \<in> set es. event_ok n y" "event_ok n x" using x by (auto simp: obs_ok_def)
  obtain y xs where y: "y \<in> set (es @ [x])" "we_partition_key em = ob_key y" "we_last_trace em = ob_trace y"
    "we_value em = agg_finalise (wa_agg a0) (batch (wa_agg a0) xs)"
    "we_window_end em \<le> instant (watermark_for (mark m (es @ [x])) (we_partition_key em))"
    using emission_facts [OF su inv ok step em] by metis
  have "instant (watermark_for (mark m (es @ [x])) (we_partition_key em)) \<le> instant now + MAX_CLOCK_SKEW"
    by (rule watermark_bound [of n]) (use su x now in \<open>auto simp: setup_ok_def obs_ok_def\<close>)
  then show "bundleable now em"
    using y x num by (auto simp: bundleable_def obs_ok_def numeric_def event_ok_def wm_event_ok_def)
qed

definition observation_of :: "string \<Rightarrow> event \<Rightarrow> observation" where
  "observation_of k ev = \<lparr>ob_key = k, ob_time = ev_event_timestamp ev, ob_value = ev_payload ev, ob_trace = Some (trace_id_of ev)\<rparr>"

lemma observations_Cons:
  "observations p (ev # evs) = (case extract_key p ev of Inl _ \<Rightarrow> [] | Inr k \<Rightarrow> [observation_of k ev]) @ observations p evs"
  by (simp add: observations_def observation_of_def List.map_filter_def split: sum.split)

context windowed_pipeline
begin

lemma process_returns:
  assumes key: "extract_key p0 ev = Inr k" and v: "parse_version (md_schema_version (ev_metadata ev)) = Inr v"
    and step: "stream_step (m, get w) (observation_of k ev) = ((m', a'), Inr ems)"
    and fs: "bundle_feature_events now fresh ems = Inr fs"
  shows "\<exists>w' ls r. process now fresh (p0\<lparr>pl_watermarks := m\<rparr>) w ev = ((p0\<lparr>pl_watermarks := m'\<rparr>, w', ls), Inr r)"
proof -
  let ?p = "p0\<lparr>pl_watermarks := m'\<rparr>"
  from step obtain ob where ob: "wm_observe m k (ev_event_timestamp ev) = (m', Inr ob)"
      "agg_observe (get w) k (ev_event_timestamp ev) (ev_payload ev) (wo_classification ob) (wo_watermark ob)
         (Some (trace_id_of ev)) = (a', Inr ems)"
    by (auto simp: stream_step_def observation_of_def split: prod.splits sum.splits)
  have agg: "aggregation_stage ?p ev k ob w = ((put a' w, []), Inr ems)"
    using ob(2) by (simp add: aggregation_stage_def aggregators call_aggregator_def slot_aggregator_def)
  obtain w2 ls dr where d: "dispatch (pl_router ?p) (put a' w) ev = ((w2, ls), Inr dr)"
    using dispatch_total [OF lenient_router v, of "put a' w"] by auto
  have l: "\<not> pl_strict ?p" using lenient by simp
  obtain w3 l3 ds where e: "event_detection_stage ?p ev w2 ls = ((w3, l3), Inr ds)"
    using lenient by (auto simp: event_detection_stage_def bulkhead_lenient)
  obtain w4 l4 ds' where e': "emission_detection_stage ?p ev ems ds w3 l3 = ((w4, l4), Inr ds')"
    using lenient by (auto simp: emission_detection_stage_def bulkhead_lenient)
  obtain w5 l5 as where r: "alert_stage ?p ev ds' w4 (l4 @ [processed_log ev k ob dr (length ems) (length ds')]) = ((w5, l5), Inr as)"
    using alert_stage_lenient [OF l] by metis
  have "\<exists>w6 l6 x. downstream now fresh ?p ev k ob ems (put a' w) [] = ((w6, l6), Inr x)"
    using writer_stage_lenient [OF l, of ev k _ w5 l5] d e e' r fs unfolding downstream_def by fastforce
  moreover have "extract_key (p0\<lparr>pl_watermarks := m\<rparr>) ev = Inr k" using key by (simp add: extract_key_def)
  ultimately show ?thesis using ob(1) agg by (auto simp: process_def Let_def)
qed

lemma batch_returns:
  assumes su: "setup_ok n m a0" and num: "numeric (wa_agg a0)" and now: "aware now" "instant EPOCH_BASELINE \<le> instant now + MAX_CLOCK_SKEW"
  shows "run_inv a0 m es (get w) \<Longrightarrow> \<forall>y \<in> set (es @ observations p0 evs). obs_ok now n y \<Longrightarrow>
    \<forall>ev \<in> set evs. \<exists>v. parse_version (md_schema_version (ev_metadata ev)) = Inr v \<Longrightarrow>
    \<exists>p' w' logs' x. batch_loop now fresh (p0\<lparr>pl_watermarks := mark m es\<rparr>) w logs evs rs c = ((p', w', logs'), Inr x)"
proof (induction evs arbitrary: es w logs rs c)
  case (Cons ev evs)
  show ?case
  proof (cases "extract_key p0 ev")
    case (Inl e)
    then have "extract_key (p0\<lparr>pl_watermarks := mark m es\<rparr>) ev = Inl e" by (simp add: extract_key_def)
    then have "process now fresh (p0\<lparr>pl_watermarks := mark m es\<rparr>) w ev =
        ((p0\<lparr>pl_watermarks := mark m es\<rparr>, w, [extraction_log ev e]), Inr (extraction_failure ev))"
      using lenient by (simp add: process_def)
    then show ?thesis using Cons.IH [of es w] Cons.prems Inl by (simp add: observations_Cons)
  next
    case (Inr k)
    let ?o = "observation_of k ev"
    have obs: "observations p0 (ev # evs) = ?o # observations p0 evs" using Inr by (simp add: observations_Cons)
    have ok: "\<forall>y \<in> set es. event_ok n y" "event_ok n ?o" "\<forall>y \<in> set (es @ [?o]). obs_ok now n y"
      using Cons.prems(2) by (auto simp: obs obs_ok_def)
    obtain a' ems where st: "stream_step (mark m es, get w) ?o = ((mark m (es @ [?o]), a'), Inr ems)" "run_inv a0 m (es @ [?o]) a'"
      using stream_step_spec [OF su Cons.prems(1) ok(1,2)] by blast
    obtain fs where fs: "bundle_feature_events now fresh ems = Inr fs"
      using bundle_ok [OF emissions_bundleable [OF su Cons.prems(1) ok(3) num now(2) st(1)] now(1)] by blast
    obtain v where v: "parse_version (md_schema_version (ev_metadata ev)) = Inr v" using Cons.prems(3) by auto
    obtain w1 ls r where pr: "process now fresh (p0\<lparr>pl_watermarks := mark m es\<rparr>) w ev =
        ((p0\<lparr>pl_watermarks := mark m (es @ [?o])\<rparr>, w1, ls), Inr r)"
      using process_returns [OF Inr v st(1) fs] by blast
    have "get w1 = a'" using process_slot [OF pr Inr st(1) [unfolded observation_of_def]] by simp
    then have "run_inv a0 m (es @ [?o]) (get w1)" using st(2) by simp
    from Cons.IH [OF this] Cons.prems(2,3) pr show ?thesis by (simp add: obs)
  qed
qed auto

end

subsection \<open>A deployment\<close>

record 'st analytics =
  ay_aggregator :: "'st window_aggregator"
  ay_anomaly :: anomaly_detector
  ay_acks :: acknowledgement_registry
  ay_writer :: in_memory_writer

definition ack_handler :: "'st analytics handler" where
  "ack_handler = \<lparr>h_qualname = ''AcknowledgementRegistry.observe_acknowledgement'',
     h_call = (\<lambda>w ev. case observe_acknowledgement (ay_acks w) ev of (r, res) \<Rightarrow> (w\<lparr>ay_acks := r\<rparr>, res))\<rparr>"

definition anomaly_observer :: "datetime \<Rightarrow> uuid \<Rightarrow> string \<Rightarrow> 'st analytics emission_observer" where
  "anomaly_observer now fresh aggregation = \<lparr>md_name = ''anomaly'', md_aggregation_name = aggregation,
     md_observe_emission = (\<lambda>w em. case anomaly_observe_emission now fresh (ay_anomaly w) em of
        (d, res) \<Rightarrow> (w\<lparr>ay_anomaly := d\<rparr>, res))\<rparr>"

definition analytics_pipeline ::
  "datetime \<Rightarrow> uuid \<Rightarrow> (event \<Rightarrow> string res) \<Rightarrow> watermark_manager \<Rightarrow> string \<Rightarrow> 'st analytics pipeline" where
  "analytics_pipeline now fresh extract m aggregation =
     (let r = fst (router_register (event_router_init False) (sc_event_type AlertAcknowledgementEvent)
                     (sc_schema_version AlertAcknowledgementEvent) True ack_handler);
          p1 = fst (register_aggregator (pipeline_init r m extract False) ''windows''
                     (slot_aggregator ay_aggregator (\<lambda>a w. w\<lparr>ay_aggregator := a\<rparr>)));
          p2 = register_emission_detector p1 (anomaly_observer now fresh aggregation);
          p3 = fst (register_alert_router p2 (\<lambda>w ds. (w, alert_route now (ay_acks w) ds)))
      in fst (register_dataset_writer p3 (\<lambda>w r. case in_memory_write (ay_writer w) r of (wr, res) \<Rightarrow> (w\<lparr>ay_writer := wr\<rparr>, res))))"

lemma analytics_pipeline_fields:
  "pl_watermarks (analytics_pipeline now fresh ex m ag) = m"
  "pl_extract (analytics_pipeline now fresh ex m ag) = ex"
  "\<not> pl_strict (analytics_pipeline now fresh ex m ag)" "\<not> er_strict (pl_router (analytics_pipeline now fresh ex m ag))"
  "pl_aggregators (analytics_pipeline now fresh ex m ag) =
     [(''windows'', slot_aggregator ay_aggregator (\<lambda>a w. w\<lparr>ay_aggregator := a\<rparr>))]"
  "snd ` set (er_handlers (pl_router (analytics_pipeline now fresh ex m ag))) = {[ack_handler]}"
  "pl_event_detectors (analytics_pipeline now fresh ex m ag) = []"
  "pl_emission_detectors (analytics_pipeline now fresh ex m ag) = [(ag, [anomaly_observer now fresh ag])]"
  "pl_alert_router (analytics_pipeline now fresh ex m ag) = Some (\<lambda>w ds. (w, alert_route now (ay_acks w) ds))"
  "pl_dataset_writer (analytics_pipeline now fresh ex m ag) =
     Some (\<lambda>w r. case in_memory_write (ay_writer w) r of (wr, res) \<Rightarrow> (w\<lparr>ay_writer := wr\<rparr>, res))"
  by (simp_all add: analytics_pipeline_def Let_def router_register_def event_router_init_def AlertAcknowledgementEvent_def
      register_aggregator_def pipeline_init_def register_emission_detector_def register_alert_router_def
      register_dataset_writer_def dict_append_def dict_get_default_def anomaly_observer_def)

interpretation analytics: windowed_pipeline ay_aggregator "\<lambda>a w. w\<lparr>ay_aggregator := a\<rparr>" "''windows''"
  "analytics_pipeline now fresh ex m ag" for now fresh ex m ag
proof unfold_locales
  fix key hs h w ev
  assume "(key, hs) \<in> set (er_handlers (pl_router (analytics_pipeline now fresh ex m ag)))" and h: "h \<in> set hs"
  then have "hs = [ack_handler]" using analytics_pipeline_fields(6) [of now fresh ex m ag] by (metis image_eqI singletonD snd_conv)
  then show "ay_aggregator (fst (h_call h w ev)) = ay_aggregator w" using h by (simp add: ack_handler_def split: prod.split)
qed (auto simp: analytics_pipeline_fields anomaly_observer_def split: prod.splits)

subsection \<open>From events to stored records\<close>

lemma wrote_nothing: "pr_emissions r = [] \<Longrightarrow> pr_detections r = [] \<Longrightarrow> pr_features r = [] \<Longrightarrow> wrote wr [r] wr"
  by (simp add: wrote_def)

text \<open>Up to the writer stage every object of the deployment leaves the writer as it is.\<close>

lemma analytics_dispatch_writer:
  fixes w :: "'st analytics"
  assumes "dispatch (pl_router (analytics_pipeline now fresh ex m0 ag :: 'st analytics pipeline)) w ev = ((w', ls), r)"
  shows "ay_writer w' = ay_writer w"
proof (cases "find_handlers (pl_router (analytics_pipeline now fresh ex m0 ag :: 'st analytics pipeline)) ev")
  case (Inr x)
  obtain hs k b l where x: "x = (hs, k, b, l)" by (cases x) auto
  have only: "hs' = [ack_handler]" if "(k', hs') \<in> set (er_handlers (pl_router (analytics_pipeline now fresh ex m0 ag :: 'st analytics pipeline)))" for k' hs'
    using imageI [OF that, of snd] by (simp add: analytics_pipeline_fields(6))
  have "\<exists>key hs'. (key, hs') \<in> set (er_handlers (pl_router (analytics_pipeline now fresh ex m0 ag :: 'st analytics pipeline))) \<and> set hs \<subseteq> set hs' \<or> hs = []"
    using Inr x by (auto simp: find_handlers_def Let_def dict_get_default_def split: option.splits dest!: map_of_SomeD)
  then have "set hs \<subseteq> {ack_handler}" using only by fastforce
  then have "ay_writer (fst (fst (run_handlers s q ev hs w l' i f))) = ay_writer w" for s q l' i f
    by (intro run_handlers_frame) (auto simp: ack_handler_def split: prod.split)
  from this [of "er_strict (pl_router (analytics_pipeline now fresh ex m0 ag :: 'st analytics pipeline))" "requested_key ev" l 0 0] show ?thesis
    using assms Inr x by (auto simp: dispatch_def Let_def split: if_splits prod.splits sum.splits)
qed (use assms in \<open>simp add: dispatch_def Let_def\<close>)

lemma analytics_calls_writer:
  "ay_writer (after_all call_emission_detector (emission_calls (analytics_pipeline now fresh ex m0 ag :: 'st analytics pipeline) ems) w) = ay_writer w"
  by (rule after_all_frame)
    (auto simp: call_emission_detector_def emission_calls_def dict_get_default_def analytics_pipeline_fields
      anomaly_observer_def split: option.splits if_splits prod.splits)

lemma analytics_downstream_writer:
  fixes w :: "'st analytics"
  assumes "downstream now fresh ((analytics_pipeline now fresh ex m0 ag :: 'st analytics pipeline)\<lparr>pl_watermarks := m\<rparr>) ev k ob ems w logs = ((w', ls), Inr r)"
  shows "\<exists>w2 l2. ay_writer w2 = ay_writer w \<and>
    writer_stage ((analytics_pipeline now fresh ex m0 ag :: 'st analytics pipeline)\<lparr>pl_watermarks := m\<rparr>) ev k r w2 l2 = ((w', ls), Inr r)"
proof -
  let ?p = "(analytics_pipeline now fresh ex m0 ag :: 'st analytics pipeline)\<lparr>pl_watermarks := m\<rparr>"
  have same: "ra = r" if "writer_stage ?p ev k ra w5 l5 = ((w', ls), Inr r)" for ra w5 l5
    using that writer_stage_lenient [of ?p ev k ra w5 l5] by (auto simp: analytics_pipeline_fields)
  obtain w1 l1 dr where d: "dispatch (pl_router ?p) w ev = ((w1, l1), Inr dr)"
    using assms by (auto simp: downstream_def split: prod.splits sum.splits)
  have w1: "ay_writer w1 = ay_writer w" using analytics_dispatch_writer d by fastforce
  have e: "event_detection_stage ?p ev w1 (logs @ l1) = ((w1, logs @ l1), Inr [])"
    by (simp add: event_detection_stage_def analytics_pipeline_fields)
  obtain w4 l4 ds where m: "emission_detection_stage ?p ev ems [] w1 (logs @ l1) = ((w4, l4), Inr ds)" "ay_writer w4 = ay_writer w1"
    using analytics_calls_writer [of now fresh ex m0 ag ems w1]
    by (auto simp: emission_detection_stage_def bulkhead_lenient analytics_pipeline_fields emission_calls_def)
  obtain l5 as where a: "alert_stage ?p ev ds w4 (l4 @ [processed_log ev k ob dr (length ems) (length ds)]) = ((w4, l5), Inr as)"
    by (cases "alert_route now (ay_acks w4) ds") (simp_all add: alert_stage_def Let_def analytics_pipeline_fields)
  obtain fs where f: "bundle_feature_events now fresh ems = Inr fs"
    using assms d e m a by (cases "bundle_feature_events now fresh ems") (simp_all add: downstream_def)
  then obtain ra where "writer_stage ?p ev k ra w4 l5 = ((w', ls), Inr r)"
    using assms d e m a by (simp add: downstream_def)
  then show ?thesis using same w1 m(2) by metis
qed

lemma analytics_process_writer:
  fixes w :: "'st analytics"
  assumes "process now fresh ((analytics_pipeline now fresh ex m0 ag :: 'st analytics pipeline)\<lparr>pl_watermarks := m\<rparr>) w ev = ((p', w', ls), Inr r)"
  shows "wrote (ay_writer w) [r] (ay_writer w') \<and> (idle (ay_writer w) \<longrightarrow> idle (ay_writer w'))"
proof (cases "extract_key ((analytics_pipeline now fresh ex m0 ag :: 'st analytics pipeline)\<lparr>pl_watermarks := m\<rparr>) ev")
  case (Inl e)
  then have "w' = w" "r = extraction_failure ev" using assms by (simp_all add: process_def analytics_pipeline_fields)
  then show ?thesis by (simp add: extraction_failure_def wrote_nothing)
next
  case (Inr k)
  let ?p = "(analytics_pipeline now fresh ex m0 ag :: 'st analytics pipeline)"
  from Inr assms obtain m1 ob w1 l1 ems where 1: "wm_observe m k (ev_event_timestamp ev) = (m1, Inr ob)"
      "aggregation_stage (?p\<lparr>pl_watermarks := m1\<rparr>) ev k ob w = ((w1, l1), Inr ems)"
      "downstream now fresh (?p\<lparr>pl_watermarks := m1\<rparr>) ev k ob ems w1 l1 = ((w', ls), Inr r)"
    by (auto simp: process_def Let_def split: prod.splits sum.splits)
  have w1: "ay_writer w1 = ay_writer w"
    using 1(2) by (auto simp: aggregation_stage_def analytics_pipeline_fields bulkhead_lenient call_aggregator_def
        slot_aggregator_def split: prod.splits sum.splits)
  obtain w2 l2 where 2: "ay_writer w2 = ay_writer w1" "writer_stage (?p\<lparr>pl_watermarks := m1\<rparr>) ev k r w2 l2 = ((w', ls), Inr r)"
    using analytics_downstream_writer [OF 1(3)] by blast
  obtain wr where wr: "in_memory_write (ay_writer w2) r = (wr, Inr ())" "wrote (ay_writer w2) [r] wr" "idle (ay_writer w2) \<Longrightarrow> idle wr"
    using write_step [of "ay_writer w2" r] by metis
  then have "ay_writer w' = wr" using 2(2) by (auto simp: writer_stage_def analytics_pipeline_fields)
  then show ?thesis using wr w1 2(1) by simp
qed

lemma process_pipeline: "process now fresh p w ev = ((p', w', ls), r) \<Longrightarrow> \<exists>m. p' = p\<lparr>pl_watermarks := m\<rparr>"
  by (auto simp: process_def Let_def intro: exI [of _ "pl_watermarks p"] split: sum.splits prod.splits)

lemma analytics_batch_writer:
  fixes w :: "'st analytics"
  shows "batch_loop now fresh ((analytics_pipeline now fresh ex m0 ag)\<lparr>pl_watermarks := m\<rparr>) w logs evs rs c = ((p', w', logs'), Inr (rs', c')) \<Longrightarrow>
    idle (ay_writer w) \<Longrightarrow> \<exists>new. rs' = rs @ new \<and> wrote (ay_writer w) new (ay_writer w') \<and> idle (ay_writer w')"
proof (induction evs arbitrary: m w logs rs c)
  case Nil
  then show ?case by (simp add: wrote_def)
next
  case (Cons ev evs)
  let ?p = "analytics_pipeline now fresh ex m0 ag :: 'st analytics pipeline"
  from Cons.prems(1) obtain p1 w1 ls r where s: "process now fresh (?p\<lparr>pl_watermarks := m\<rparr>) w ev = ((p1, w1, ls), Inr r)"
      "batch_loop now fresh p1 w1 (logs @ ls) evs (rs @ [r]) (tally c r) = ((p', w', logs'), Inr (rs', c'))"
    by (auto split: prod.splits sum.splits)
  obtain m1 where p1: "p1 = ?p\<lparr>pl_watermarks := m1\<rparr>" using process_pipeline [OF s(1)] by auto
  have wr: "wrote (ay_writer w) [r] (ay_writer w1)" "idle (ay_writer w1)"
    using analytics_process_writer [OF s(1)] Cons.prems(2) by simp_all
  from Cons.IH [OF s(2) [unfolded p1] wr(2)] obtain new
    where "rs' = (rs @ [r]) @ new" "wrote (ay_writer w1) new (ay_writer w')" "idle (ay_writer w')" by auto
  then show ?case using wrote_trans [OF wr(1)] by (intro exI [of _ "r # new"]) fastforce
qed

lemma wrote_from_init:
  assumes "wrote in_memory_writer_init rs wr" and "idle wr"
  shows "flushed_of fp_emissions (flushed_records wr) k = filter (\<lambda>e. partition_key_from_emission e = k) (concat (map pr_emissions rs))"
  using assms by (auto simp: wrote_def idle_def all_of_def in_memory_writer_init_def flushed_records_def buffer_for_def
      dict_get_default_def flushed_of_def empty_buffer_def)

lemma own_partition: "filter (own k s) (filter (\<lambda>e. partition_key_from_emission e = PartitionKey k (truncate_to_hour (UTC s))) ems) =
    filter (own k s) ems"
  by (auto simp: own_def partition_key_from_emission_def intro!: filter_cong)

text \<open>
  C5: the deployment end to end. A pipeline with the aggregator, the anomaly detector on
  its emissions, acknowledgement-aware alerting and the dataset writer processes any batch
  whose observations are well formed: it returns one result per event, and in the stored
  partition of every window the records of that window are exactly its reports: none
  until the watermark passed its end, then one closure followed by repairs, the last of
  which aggregates every accepted event of the window.
\<close>

theorem stored_reports_complete:
  fixes w :: "'st analytics" and p :: "'st analytics pipeline"
  assumes p: "p = analytics_pipeline now fresh ex m ag"
    and su: "setup_ok n m (ay_aggregator w)" and num: "numeric (wa_agg (ay_aggregator w))"
    and now: "aware now" "instant EPOCH_BASELINE \<le> instant now + MAX_CLOCK_SKEW"
    and obs: "\<forall>y \<in> set (observations p evs). obs_ok now n y"
    and vs: "\<forall>ev \<in> set evs. \<exists>v. parse_version (md_schema_version (ev_metadata ev)) = Inr v"
    and w: "ay_writer w = in_memory_writer_init"
  shows "\<exists>p' w' logs rs. process_batch now fresh p w evs = ((p', w', logs), Inr rs) \<and> length rs = length evs \<and>
     (\<forall>k s. reports (ay_aggregator w) m (observations p evs) k s
        (filter (own k s) (flushed_of fp_emissions (flushed_records (ay_writer w')) (PartitionKey k (truncate_to_hour (UTC s))))))"
proof -
  let ?a = "ay_aggregator w" and ?os = "observations p evs"
  have pm: "p\<lparr>pl_watermarks := m\<rparr> = p" by (simp add: p analytics_pipeline_def Let_def register_dataset_writer_def
      register_alert_router_def register_emission_detector_def register_aggregator_def pipeline_init_def)
  have ok: "\<forall>y \<in> set ?os. event_ok n y" using obs by (auto simp: obs_ok_def)
  obtain a ems where run: "stream_run (m, ?a) ?os = ((mark m ?os, a), Inr ems)"
      "\<forall>k s. reports ?a m ?os k s (filter (own k s) ems)"
    using stream_run_spec [OF su ok] by blast
  have "\<exists>p' w' logs x. batch_loop now fresh ((analytics_pipeline now fresh ex m ag)\<lparr>pl_watermarks := mark m []\<rparr>) w [] evs [] no_counts =
      ((p', w', logs), Inr x)"
    by (rule analytics.batch_returns [OF su num now run_inv_empty [OF su]]) (use obs vs p in auto)
  then obtain p' w' logs rs c where b: "batch_loop now fresh p w [] evs [] no_counts = ((p', w', logs), Inr (rs, c))"
    using pm by (auto simp: p mark_def)
  then have b': "batch_loop now fresh ((analytics_pipeline now fresh ex m ag)\<lparr>pl_watermarks := m\<rparr>) w [] evs [] no_counts =
      ((p', w', logs), Inr (rs, c))" using pm by (simp add: p)
  have e: "concat (map pr_emissions rs) = ems"
    using analytics.batch_windows [OF b' run(1) [unfolded p]] by simp
  have "idle (ay_writer w)" by (simp add: w idle_def in_memory_writer_init_def buffer_for_def dict_get_default_def empty_buffer_def)
  from analytics_batch_writer [OF b' this]
  have "wrote in_memory_writer_init rs (ay_writer w')" "idle (ay_writer w')" by (auto simp: w)
  then have f: "flushed_of fp_emissions (flushed_records (ay_writer w')) k = filter (\<lambda>x. partition_key_from_emission x = k) ems" for k
    using wrote_from_init e by simp
  have "length rs = length evs" using batch_loop_results [OF b] by auto
  with b run(2) show ?thesis by (simp add: process_batch_def f own_partition del: filter_filter)
qed

definition demo_call :: "int \<Rightarrow> event" where
  "demo_call t = demo_pipeline_event\<lparr>ev_event_timestamp := UTC (seconds t)\<rparr>"

definition demo_world :: "int analytics" where
  "demo_world = \<lparr>ay_aggregator = demo_aggregator, ay_anomaly = anomaly_detector_init 2 Above ''calls'', ay_acks = acknowledgement_registry_init,
     ay_writer = in_memory_writer_init\<rparr>"

theorem stored_reports_complete_witness:
  "\<exists>p' w' logs rs. process_batch (UTC (seconds 2000)) 7
       (analytics_pipeline (UTC (seconds 2000)) 7 by_event_source demo_manager ''count'') demo_world
       (map demo_call [965, 1100, 990, 970, 1011]) = ((p', w', logs), Inr rs) \<and> length rs = 5 \<and>
     filter (own ''s'' (seconds 960)) (flushed_of fp_emissions (flushed_records (ay_writer w'))
       (PartitionKey ''s'' (truncate_to_hour (UTC (seconds 960))))) \<noteq> []"
proof -
  let ?evs = "map demo_call [965, 1100, 990, 970, 1011]" and ?now = "UTC (seconds 2000)"
  let ?p = "analytics_pipeline ?now 7 by_event_source demo_manager ''count'' :: int analytics pipeline"
  have os: "observations ?p ?evs = map (observation_of ''s'' \<circ> demo_call) [965, 1100, 990, 970, 1011]"
    by (simp add: observations_Cons extract_key_def analytics_pipeline_fields by_event_source_def demo_call_def
        demo_pipeline_event_def) (simp add: observations_def List.map_filter_def)
  have sep: "sep_words ''s''" by code_simp
  have "obs_ok ?now 60 (observation_of ''s'' (demo_call t))" if "t \<in> {965, 1100, 990, 970, 1011}" for t
    using that by (auto simp: obs_ok_def observation_of_def demo_call_def event_ok_def wm_event_ok_def stamp_ok_def
        EPOCH_BASELINE_def datetime_min_utc_def MAX_CLOCK_SKEW_def trace_id_of_def sep)
  then have ok: "\<forall>y \<in> set (observations ?p ?evs). obs_ok ?now 60 y" unfolding os by simp
  have due: "due (wa_spec demo_aggregator) demo_manager (observations ?p ?evs) ''s'' (seconds 960)"
    unfolding os by code_simp
  have num: "numeric (wa_agg demo_aggregator)" by (simp add: numeric_def demo_aggregator_def CountAggregation_def)
  have "\<not> isl (parse_version ''v1.1'')" by code_simp
  then have vs: "\<forall>ev \<in> set ?evs. \<exists>v. parse_version (md_schema_version (ev_metadata ev)) = Inr v"
    by (auto simp: demo_call_def demo_pipeline_event_def isl_def) (metis sum.exhaust)+
  have w: "ay_aggregator demo_world = demo_aggregator" "ay_writer demo_world = in_memory_writer_init" by (simp_all add: demo_world_def)
  have now: "aware ?now" "instant EPOCH_BASELINE \<le> instant ?now + MAX_CLOCK_SKEW" by (simp_all add: EPOCH_BASELINE_def datetime_min_utc_def MAX_CLOCK_SKEW_def)
  obtain p' w' logs rs where "process_batch ?now 7 ?p demo_world ?evs = ((p', w', logs), Inr rs)" "length rs = length ?evs"
      "reports demo_aggregator demo_manager (observations ?p ?evs) ''s'' (seconds 960) (filter (own ''s'' (seconds 960))
         (flushed_of fp_emissions (flushed_records (ay_writer w')) (PartitionKey ''s'' (truncate_to_hour (UTC (seconds 960))))))"
    using stored_reports_complete [OF refl, where w = demo_world and m = demo_manager, unfolded w, OF demo_ok(1) num now ok vs refl]
    by metis
  then show ?thesis using due by (auto simp: reports_def)
qed

end
