(* ===== verification/Text.thy ===== *)
theory Text
  imports Identity
begin

text \<open>
  The \<^verbatim>\<open>str\<close> and \<^verbatim>\<open>bytes\<close> operations of the sources that the prelude does not have: blanks
  and words, case, substrings, \<^verbatim>\<open>repr\<close> and the decoding of UTF-8. A \<^verbatim>\<open>str\<close> is the list of
  its characters up to U+00FF, a \<^verbatim>\<open>bytes\<close> the list of its bytes. Case conversion is that
  of ASCII.
\<close>

subsection \<open>Blanks, words and case\<close>

text \<open>\<^verbatim>\<open>str.isspace\<close> of a character, \<^verbatim>\<open>str.strip()\<close> and \<^verbatim>\<open>str.split()\<close>.\<close>

definition is_space :: "char \<Rightarrow> bool" where
  "is_space c \<longleftrightarrow> (let n = of_char c :: nat in (9 \<le> n \<and> n \<le> 13) \<or> (28 \<le> n \<and> n \<le> 32) \<or> n = 0x85 \<or> n = 0xA0)"

definition strip :: "string \<Rightarrow> string" where
  "strip s = rev (dropWhile is_space (rev (dropWhile is_space s)))"

fun words_from :: "string \<Rightarrow> string \<Rightarrow> string list" where
  "words_from w [] = (if w = [] then [] else [w])"
| "words_from w (c # cs) =
     (if is_space c then (if w = [] then [] else [w]) @ words_from [] cs else words_from (w @ [c]) cs)"

definition words :: "string \<Rightarrow> string list" where "words s = words_from [] s"

definition lower :: "char \<Rightarrow> char" where
  "lower c = (let n = of_char c :: nat in if 65 \<le> n \<and> n \<le> 90 then char_of (n + 32) else c)"

definition upper :: "char \<Rightarrow> char" where
  "upper c = (let n = of_char c :: nat in if 97 \<le> n \<and> n \<le> 122 then char_of (n - 32) else c)"

lemma words_from_word: "\<forall>c \<in> set s. \<not> is_space c \<Longrightarrow> words_from w (s @ t) = words_from (w @ s) t"
  by (induction s arbitrary: w) auto

lemma words_step: "s \<noteq> [] \<Longrightarrow> \<forall>c \<in> set s. \<not> is_space c \<Longrightarrow> is_space d \<Longrightarrow> words (s @ d # t) = s # words t"
  by (simp add: words_def words_from_word)

lemma words_last: "s \<noteq> [] \<Longrightarrow> \<forall>c \<in> set s. \<not> is_space c \<Longrightarrow> words s = [s]"
  using words_from_word [of s "[]" "[]"] by (simp add: words_def)

lemma strip_id: "s = [] \<or> \<not> is_space (hd s) \<and> \<not> is_space (last s) \<Longrightarrow> strip s = s"
proof (cases "s = []")
  case False
  assume "s = [] \<or> \<not> is_space (hd s) \<and> \<not> is_space (last s)"
  with False have "dropWhile is_space s = s" "dropWhile is_space (rev s) = rev s"
    by (simp_all add: dropWhile_eq_self_iff hd_rev)
  then show ?thesis by (simp add: strip_def)
qed (simp add: strip_def)

lemma strip_blank: "is_space c \<Longrightarrow> strip (c # s) = strip s"
  by (simp add: strip_def)

subsection \<open>Substrings\<close>

text \<open>\<^verbatim>\<open>s.find(p)\<close>, \<^verbatim>\<open>p in s\<close> and \<^verbatim>\<open>s.split(p)\<close> for a non-empty \<open>p\<close>.\<close>

fun find_sub :: "string \<Rightarrow> string \<Rightarrow> nat option" where
  "find_sub p s =
     (if starts_with p s then Some 0 else case s of [] \<Rightarrow> None | _ # t \<Rightarrow> map_option Suc (find_sub p t))"

declare find_sub.simps [simp del]

definition has_sub :: "string \<Rightarrow> string \<Rightarrow> bool" where "has_sub p s \<longleftrightarrow> find_sub p s \<noteq> None"

function split_sub :: "string \<Rightarrow> string \<Rightarrow> string list" where
  "split_sub p s =
     (if p = [] then [s]
      else case find_sub p s of None \<Rightarrow> [s] | Some i \<Rightarrow> take i s # split_sub p (drop (i + length p) s))"
  by auto

lemma find_sub_bound: "find_sub p s = Some i \<Longrightarrow> i + length p \<le> length s \<and> starts_with p (drop i s)"
proof (induction s arbitrary: i)
  case Nil
  then show ?case by (simp add: find_sub.simps [of p "[]"] starts_with_def split: if_splits)
next
  case (Cons c s)
  show ?case
  proof (cases "starts_with p (c # s)")
    case True
    then have "length p \<le> length (c # s)" by (metis starts_with_def length_take min.cobounded1)
    with True Cons.prems show ?thesis by (simp add: find_sub.simps [of p "c # s"])
  next
    case False
    with Cons show ?thesis by (auto simp: find_sub.simps [of p "c # s"])
  qed
qed

termination split_sub
proof (relation "measure (length \<circ> snd)")
  fix p s :: string and i assume "p \<noteq> []" "find_sub p s = Some i"
  then show "((p, drop (i + length p) s), p, s) \<in> measure (length \<circ> snd)"
    using find_sub_bound [of p s i] by (cases p) auto
qed simp

declare split_sub.simps [simp del]

lemma starts_with_iff: "starts_with p s \<longleftrightarrow> (\<exists>t. s = p @ t)"
  by (auto simp: starts_with_def) (metis append_take_drop_id)

text \<open>The first occurrence does not move when text is appended, and a found one is the first.\<close>

lemma find_sub_append: "find_sub p s = Some i \<Longrightarrow> find_sub p (s @ t) = Some i"
proof (induction s arbitrary: i)
  case Nil
  then show ?case
    by (cases "p = []") (simp_all add: find_sub.simps [of "[]" t] find_sub.simps [of p "[]"] find_sub.simps [of "[]" "[]"] starts_with_def split: if_splits)
next
  case (Cons c s)
  have "starts_with p ((c # s) @ t)" if "starts_with p (c # s)"
    using that by (metis starts_with_iff append.assoc)
  moreover have "starts_with p (c # s)" if "starts_with p ((c # s) @ t)" "find_sub p s = Some j" for j
  proof -
    have "length p \<le> length (c # s)" using find_sub_bound [OF that(2)] by simp
    then have "take (length p) ((c # s) @ t) = take (length p) (c # s)"
      by (cases "length p") simp_all
    then show ?thesis using that(1) by (simp only: starts_with_def)
  qed
  ultimately show ?case
    using Cons by (auto simp: find_sub.simps [of p "c # s"] find_sub.simps [of p "c # s @ t"] split: if_splits)
qed

lemma find_sub_None_iff: "find_sub p s = None \<longleftrightarrow> (\<forall>i \<le> length s. \<not> starts_with p (drop i s))"
proof (induction s)
  case Nil
  then show ?case by (simp add: find_sub.simps [of p "[]"])
next
  case (Cons c s)
  have "(\<forall>i \<le> length (c # s). \<not> starts_with p (drop i (c # s))) \<longleftrightarrow>
      \<not> starts_with p (c # s) \<and> (\<forall>i \<le> length s. \<not> starts_with p (drop i s))"
    by (simp add: less_Suc_eq_le [symmetric] All_less_Suc2)
  with Cons show ?case by (simp add: find_sub.simps [of p "c # s"])
qed

text \<open>An occurrence of a pattern needs its first character.\<close>

lemma find_sub_first: "p \<noteq> [] \<Longrightarrow> hd p \<notin> set s \<Longrightarrow> find_sub p s = None"
proof (induction s)
  case Nil
  then show ?case by (simp add: find_sub.simps [of p "[]"] starts_with_def)
next
  case (Cons c s)
  then have "\<not> starts_with p (c # s)" by (cases p) (auto simp: starts_with_def)
  with Cons show ?case by (simp add: find_sub.simps [of p "c # s"])
qed

lemma find_sub_skip: "p \<noteq> [] \<Longrightarrow> hd p \<notin> set s \<Longrightarrow> find_sub p (s @ t) = map_option ((+) (length s)) (find_sub p t)"
proof (induction s)
  case Nil
  then show ?case by (cases "find_sub p t") auto
next
  case (Cons c s)
  then have "\<not> starts_with p (c # s @ t)" by (cases p) (auto simp: starts_with_def)
  with Cons show ?case by (cases "find_sub p t") (auto simp: find_sub.simps [of p "c # s @ t"])
qed

subsection \<open>Representations\<close>

text \<open>\<^verbatim>\<open>repr(s)\<close> in an error message.\<close>

definition repr_char :: "char \<Rightarrow> char \<Rightarrow> string" where
  "repr_char q c =
     (let n = of_char c :: int in
      if c = q \<or> c = CHR 0x5C then [CHR 0x5C, c]
      else if n = 10 then [CHR 0x5C, CHR ''n''] else if n = 13 then [CHR 0x5C, CHR ''r'']
      else if n = 9 then [CHR 0x5C, CHR ''t'']
      else if n < 32 \<or> (127 \<le> n \<and> n \<le> 160) \<or> n = 173 then [CHR 0x5C, CHR ''x''] @ hex_digits 2 n
      else [c])"

definition repr_str :: "string \<Rightarrow> string" where
  "repr_str s =
     (let q = (if CHR 0x27 \<in> set s \<and> CHR 0x22 \<notin> set s then CHR 0x22 else CHR 0x27)
      in [q] @ concat (map (repr_char q) s) @ [q])"

subsection \<open>Decoding\<close>

text \<open>
  \<^verbatim>\<open>bytes.decode(errors="ignore")\<close>: UTF-8 to code points; the bytes of a maximal ill-formed
  part are dropped.
\<close>

definition is_cont :: "nat \<Rightarrow> bool" where "is_cont b \<longleftrightarrow> 0x80 \<le> b \<and> b \<le> 0xBF"

definition second_ok :: "nat \<Rightarrow> nat \<Rightarrow> bool" where
  "second_ok a b \<longleftrightarrow> is_cont b \<and> (a = 0xE0 \<longrightarrow> 0xA0 \<le> b) \<and> (a = 0xED \<longrightarrow> b \<le> 0x9F) \<and>
     (a = 0xF0 \<longrightarrow> 0x90 \<le> b) \<and> (a = 0xF4 \<longrightarrow> b \<le> 0x8F)"

definition seq_length :: "nat \<Rightarrow> nat" where
  "seq_length a = (if a < 0x80 then 1 else if 0xC2 \<le> a \<and> a \<le> 0xDF then 2 else if 0xE0 \<le> a \<and> a \<le> 0xEF then 3
     else if 0xF0 \<le> a \<and> a \<le> 0xF4 then 4 else 0)"

text \<open>The well-formed continuation bytes that follow a lead byte, at most as many as it asks for.\<close>

definition follow :: "nat \<Rightarrow> nat list \<Rightarrow> nat list" where
  "follow a bs =
     (case bs of
        [] \<Rightarrow> []
      | b # bs' \<Rightarrow> if seq_length a \<le> 1 \<or> \<not> second_ok a b then [] else b # takeWhile is_cont (take (seq_length a - 2) bs'))"

definition code_point :: "nat \<Rightarrow> nat list \<Rightarrow> nat" where
  "code_point a bs = foldl (\<lambda>n b. 64 * n + (b - 0x80))
     (case seq_length a of Suc 0 \<Rightarrow> a | Suc (Suc 0) \<Rightarrow> a - 0xC0 | Suc (Suc (Suc 0)) \<Rightarrow> a - 0xE0 | _ \<Rightarrow> a - 0xF0) bs"

function decode_ignore :: "nat list \<Rightarrow> nat list" where
  "decode_ignore [] = []"
| "decode_ignore (a # bs) =
     (let fs = follow a bs; rest = drop (length fs) bs in
      if Suc (length fs) = seq_length a then code_point a fs # decode_ignore rest else decode_ignore rest)"
  by pat_completeness auto

termination decode_ignore
  by (relation "measure length") auto

definition text_of :: "string \<Rightarrow> nat list" where "text_of raw = decode_ignore (map of_char raw)"

lemma decode_ascii: "\<forall>b \<in> set bs. b < 0x80 \<Longrightarrow> decode_ignore bs = bs"
proof (induction bs)
  case (Cons b bs)
  then have "follow b bs = []" "seq_length b = 1" by (simp_all add: follow_def seq_length_def split: list.split)
  with Cons show ?case by (simp add: Let_def code_point_def)
qed simp

end
