(* ===== verification/Settings.thy ===== *)
theory Settings
  imports Detectors Text
begin

text \<open>
  \<^verbatim>\<open>stream_pipeline/config/platform_settings.py\<close>: the immutable settings, their validation,
  their construction from environment variables and the switch to replay targets.
\<close>

subsection \<open>Reading numbers\<close>

text \<open>The digits of a numeric literal with single underscores between digits.\<close>

definition digit_groups :: "string \<Rightarrow> string option" where
  "digit_groups s =
     (let gs = split_on (CHR ''_'') s in
      if list_all (\<lambda>g. g \<noteq> [] \<and> list_all is_digit g) gs then Some (concat gs) else None)"

definition signed :: "string \<Rightarrow> int \<times> string" where
  "signed s = (case s of
       [] \<Rightarrow> (1, s)
     | c # r \<Rightarrow> if c = CHR ''-'' then (-1, r) else if c = CHR ''+'' then (1, r) else (1, s))"

text \<open>\<^verbatim>\<open>int(s)\<close>; \<open>None\<close> is its \<^verbatim>\<open>ValueError\<close>.\<close>

definition py_int :: "string \<Rightarrow> int option" where
  "py_int s = (let (sg, body) = signed (strip s) in map_option (\<lambda>ds. sg * int (nat_of_digits ds)) (digit_groups body))"

definition opt_digits :: "string \<Rightarrow> string option" where
  "opt_digits s = (if s = [] then Some [] else digit_groups s)"

text \<open>The exact value of a decimal literal with an optional point and an optional exponent.\<close>

definition decimal_value :: "string \<Rightarrow> rat option" where
  "decimal_value s =
     (let mant = takeWhile (\<lambda>c. lower c \<noteq> CHR ''e'') s; rest = dropWhile (\<lambda>c. lower c \<noteq> CHR ''e'') s;
          ip = takeWhile (\<lambda>c. c \<noteq> CHR ''.'') mant; fp = drop (Suc (length ip)) mant
      in if ip = [] \<and> fp = [] then None
         else case (opt_digits ip, opt_digits fp) of
             (Some i, Some f) \<Rightarrow>
               (case (if rest = [] then Some 0
                      else let (sg, body) = signed (tl rest)
                           in map_option (\<lambda>ds. sg * int (nat_of_digits ds)) (digit_groups body)) of
                  None \<Rightarrow> None
                | Some e \<Rightarrow> Some (of_nat (nat_of_digits (i @ f)) * ten_power (e - int (length f))))
           | _ \<Rightarrow> None)"

text \<open>
  \<^verbatim>\<open>float(s)\<close>: \<open>None\<close> is its \<^verbatim>\<open>ValueError\<close>, \<open>Some None\<close> an infinity or not-a-number, which no
  setting accepts. A value below half the least subnormal rounds to zero.
\<close>

definition py_float :: "string \<Rightarrow> pyfloat option option" where
  "py_float s =
     (let (sg, body) = signed (strip s) in
      if map lower body \<in> {''inf'', ''infinity'', ''nan''} then Some None
      else map_option (\<lambda>r.
          let x = of_int sg * r in
          if \<bar>x\<bar> \<ge> 2 ^ 1024 - 2 ^ 970 then None
          else if \<bar>x\<bar> * 2 ^ 1075 \<le> 1 then Some 0 else Some (fl x)) (decimal_value body))"

subsection \<open>Names of external resources\<close>

definition lower_alnum :: "char \<Rightarrow> bool" where
  "lower_alnum c \<longleftrightarrow> (let n = of_char c :: nat in (97 \<le> n \<and> n \<le> 122) \<or> is_digit c)"

definition name_char :: "char \<Rightarrow> bool" where
  "name_char c \<longleftrightarrow> lower_alnum (lower c) \<or> c \<in> {CHR ''.'', CHR ''_'', CHR ''-''}"

text \<open>A pattern that ends in \<^verbatim>\<open>$\<close> and is used with \<^verbatim>\<open>match\<close> admits one trailing newline.\<close>

definition BUCKET_NAME_PATTERN :: "string \<Rightarrow> bool" where
  "BUCKET_NAME_PATTERN s =
     (let t = chop_newline s in
      t \<noteq> [] \<and> lower_alnum (hd t) \<and> lower_alnum (last t) \<and> list_all (\<lambda>c. lower_alnum c \<or> c = CHR ''-'') t)"

definition NAME_PATTERN :: "string \<Rightarrow> bool" where
  "NAME_PATTERN s = (let t = chop_newline s in t \<noteq> [] \<and> list_all name_char t)"

definition validate_bucket_name :: "string \<Rightarrow> string \<Rightarrow> unit res" where
  "validate_bucket_name name field_name =
     (if length name < 3 \<or> length name > 63
      then Inl (ValueError (field_name @ '' must be 3-63 chars, got '' @ show_nat (length name) @ '': '' @ repr_str name))
      else if \<not> BUCKET_NAME_PATTERN name
      then Inl (ValueError (field_name @
        '' must be lowercase alphanumeric or hyphens, not starting or ending with hyphen: '' @ repr_str name))
      else Inr ())"

definition validate_bus_name :: "string \<Rightarrow> string \<Rightarrow> unit res" where
  "validate_bus_name name field_name =
     (if length name < 1 \<or> length name > 256
      then Inl (ValueError (field_name @ '' must be 1-256 chars, got '' @ show_nat (length name) @ '': '' @ repr_str name))
      else if \<not> NAME_PATTERN name
      then Inl (ValueError (field_name @ '' must be alphanumeric, dot, hyphen or underscore: '' @ repr_str name))
      else Inr ())"

definition validate_table_name :: "string \<Rightarrow> string \<Rightarrow> unit res" where
  "validate_table_name name field_name =
     (if \<not> (3 \<le> length name \<and> length name \<le> 255)
      then Inl (ValueError (field_name @ '' must be 3-255 chars, got '' @ show_nat (length name) @ '': '' @ repr_str name))
      else if \<not> NAME_PATTERN name
      then Inl (ValueError (field_name @ '' must be alphanumeric, dot, dash or underscore: '' @ repr_str name))
      else Inr ())"

subsection \<open>Settings\<close>

record platform_settings =
  realtime_window_seconds :: int
  offline_threshold_seconds :: int
  outage_threshold_ratio :: "pyfloat option"
  late_event_tolerance_seconds :: int
  data_retention_days :: int
  service_name :: string
  environment :: string
  dataset_bucket :: "string option"
  replay_dataset_bucket :: "string option"
  alert_bus :: "string option"
  replay_alert_bus :: "string option"
  projection_table :: "string option"
  replay_projection_table :: "string option"

definition DEFAULT_REALTIME_WINDOW_SECONDS :: int where "DEFAULT_REALTIME_WINDOW_SECONDS = 5"
definition DEFAULT_OFFLINE_THRESHOLD_SECONDS :: int where "DEFAULT_OFFLINE_THRESHOLD_SECONDS = 300"
definition DEFAULT_OUTAGE_THRESHOLD_RATIO :: pyfloat where "DEFAULT_OUTAGE_THRESHOLD_RATIO = 1 / 2"
definition DEFAULT_LATE_EVENT_TOLERANCE_SECONDS :: int where "DEFAULT_LATE_EVENT_TOLERANCE_SECONDS = 60"
definition DEFAULT_DATA_RETENTION_DAYS :: int where "DEFAULT_DATA_RETENTION_DAYS = 730"

definition require :: "bool \<Rightarrow> string \<Rightarrow> unit res" where
  "require ok msg = (if ok then Inr () else Inl (ValueError msg))"

definition validate_opt :: "(string \<Rightarrow> string \<Rightarrow> unit res) \<Rightarrow> string option \<Rightarrow> string \<Rightarrow> unit res" where
  "validate_opt check v field_name = (case v of None \<Rightarrow> Inr () | Some name \<Rightarrow> check name field_name)"

text \<open>The ratio \<open>None\<close> is an infinity or not-a-number: every comparison with it fails.\<close>

definition settings_init :: "platform_settings \<Rightarrow> platform_settings res" where
  "settings_init s =
     bind_res (require (realtime_window_seconds s > 0) ''realtime_window_seconds must be > 0'') (\<lambda>_.
     bind_res (require (offline_threshold_seconds s > 0) ''offline_threshold_seconds must be > 0'') (\<lambda>_.
     bind_res (require (case outage_threshold_ratio s of None \<Rightarrow> False | Some x \<Rightarrow> 0 < x \<and> x \<le> 1)
       ''outage_threshold_ratio must be in (0.0, 1.0]'') (\<lambda>_.
     bind_res (require (late_event_tolerance_seconds s \<ge> 0) ''late_event_tolerance_seconds must be >= 0'') (\<lambda>_.
     bind_res (require (data_retention_days s > 0) ''data_retention_days must be > 0'') (\<lambda>_.
     bind_res (require (service_name s \<noteq> []) ''service_name must be non-empty'') (\<lambda>_.
     bind_res (require (environment s \<noteq> []) ''environment must be non-empty'') (\<lambda>_.
     bind_res (validate_opt validate_bucket_name (dataset_bucket s) ''dataset_bucket'') (\<lambda>_.
     bind_res (validate_opt validate_bucket_name (replay_dataset_bucket s) ''replay_dataset_bucket'') (\<lambda>_.
     bind_res (validate_opt validate_bus_name (alert_bus s) ''alert_bus'') (\<lambda>_.
     bind_res (validate_opt validate_bus_name (replay_alert_bus s) ''replay_alert_bus'') (\<lambda>_.
     bind_res (validate_opt validate_table_name (projection_table s) ''projection_table'') (\<lambda>_.
     bind_res (validate_opt validate_table_name (replay_projection_table s) ''replay_projection_table'') (\<lambda>_.
       Inr s)))))))))))))"

type_synonym env = "(string, string) dict"

definition env_int :: "env \<Rightarrow> string \<Rightarrow> int \<Rightarrow> int res" where
  "env_int env key fallback =
     (case dict_get env key of
        None \<Rightarrow> Inr fallback
      | Some raw \<Rightarrow>
          if raw = [] then Inr fallback
          else case py_int raw of
              Some i \<Rightarrow> Inr i
            | None \<Rightarrow> Inl (ValueError (key @ '' must be an integer, got '' @ repr_str raw)))"

definition env_float :: "env \<Rightarrow> string \<Rightarrow> pyfloat \<Rightarrow> pyfloat option res" where
  "env_float env key fallback =
     (case dict_get env key of
        None \<Rightarrow> Inr (Some fallback)
      | Some raw \<Rightarrow>
          if raw = [] then Inr (Some fallback)
          else case py_float raw of
              Some x \<Rightarrow> Inr x
            | None \<Rightarrow> Inl (ValueError (key @ '' must be a float, got '' @ repr_str raw)))"

text \<open>\<^verbatim>\<open>source.get(key) or None\<close>\<close>

definition env_opt :: "env \<Rightarrow> string \<Rightarrow> string option" where
  "env_opt env key = (case dict_get env key of Some v \<Rightarrow> if v = [] then None else Some v | None \<Rightarrow> None)"

definition from_env :: "env \<Rightarrow> platform_settings res" where
  "from_env source =
     bind_res (env_int source ''SF_REALTIME_WINDOW_SECONDS'' DEFAULT_REALTIME_WINDOW_SECONDS) (\<lambda>rw.
     bind_res (env_int source ''SF_OFFLINE_THRESHOLD_SECONDS'' DEFAULT_OFFLINE_THRESHOLD_SECONDS) (\<lambda>ot.
     bind_res (env_float source ''SF_OUTAGE_THRESHOLD_RATIO'' DEFAULT_OUTAGE_THRESHOLD_RATIO) (\<lambda>ratio.
     bind_res (env_int source ''SF_LATE_EVENT_TOLERANCE_SECONDS'' DEFAULT_LATE_EVENT_TOLERANCE_SECONDS) (\<lambda>lt.
     bind_res (env_int source ''SF_DATA_RETENTION_DAYS'' DEFAULT_DATA_RETENTION_DAYS) (\<lambda>dr.
       settings_init
         \<lparr>realtime_window_seconds = rw, offline_threshold_seconds = ot, outage_threshold_ratio = ratio,
          late_event_tolerance_seconds = lt, data_retention_days = dr,
          service_name = dict_get_default source ''SF_SERVICE_NAME'' ''stream-pipeline'',
          environment = dict_get_default source ''SF_ENV'' ''dev'',
          dataset_bucket = env_opt source ''SF_DATASET_BUCKET'',
          replay_dataset_bucket = env_opt source ''SF_REPLAY_DATASET_BUCKET'',
          alert_bus = env_opt source ''SF_ALERT_BUS'',
          replay_alert_bus = env_opt source ''SF_REPLAY_ALERT_BUS'',
          projection_table = env_opt source ''SF_PROJECTION_TABLE'',
          replay_projection_table = env_opt source ''SF_REPLAY_PROJECTION_TABLE''\<rparr>)))))"

text \<open>\<^verbatim>\<open>dataclasses.replace\<close> constructs again, so it validates again.\<close>

definition for_replay :: "platform_settings \<Rightarrow> string \<Rightarrow> platform_settings res" where
  "for_replay s replay_environment =
     settings_init (s\<lparr>environment := replay_environment, dataset_bucket := replay_dataset_bucket s,
       alert_bus := replay_alert_bus s, projection_table := replay_projection_table s\<rparr>)"

subsection \<open>Valid settings\<close>

definition valid_ratio :: "pyfloat option \<Rightarrow> bool" where
  "valid_ratio r = (case r of None \<Rightarrow> False | Some x \<Rightarrow> 0 < x \<and> x \<le> 1)"

definition names_ok :: "(string \<Rightarrow> string \<Rightarrow> unit res) \<Rightarrow> string option \<Rightarrow> bool" where
  "names_ok check v \<longleftrightarrow> (case v of None \<Rightarrow> True | Some name \<Rightarrow> \<not> isl (check name []))"

definition settings_valid :: "platform_settings \<Rightarrow> bool" where
  "settings_valid s \<longleftrightarrow> realtime_window_seconds s > 0 \<and> offline_threshold_seconds s > 0 \<and>
     valid_ratio (outage_threshold_ratio s) \<and> late_event_tolerance_seconds s \<ge> 0 \<and> data_retention_days s > 0 \<and>
     service_name s \<noteq> [] \<and> environment s \<noteq> [] \<and>
     names_ok validate_bucket_name (dataset_bucket s) \<and> names_ok validate_bucket_name (replay_dataset_bucket s) \<and>
     names_ok validate_bus_name (alert_bus s) \<and> names_ok validate_bus_name (replay_alert_bus s) \<and>
     names_ok validate_table_name (projection_table s) \<and> names_ok validate_table_name (replay_projection_table s)"

lemma require_Inr [simp]: "require b m = Inr u \<longleftrightarrow> b"
  by (simp add: require_def)

lemma validate_opt_Inr:
  "validate_opt validate_bucket_name v f = Inr u \<longleftrightarrow> names_ok validate_bucket_name v"
  "validate_opt validate_bus_name v f = Inr u \<longleftrightarrow> names_ok validate_bus_name v"
  "validate_opt validate_table_name v f = Inr u \<longleftrightarrow> names_ok validate_table_name v"
  by (auto simp: validate_opt_def names_ok_def validate_bucket_name_def validate_bus_name_def validate_table_name_def
      split: option.split)

lemma settings_init_Inr: "settings_init s = Inr s' \<longleftrightarrow> s' = s \<and> settings_valid s"
proof -
  have "(case outage_threshold_ratio s of None \<Rightarrow> False | Some x \<Rightarrow> 0 < x \<and> x \<le> 1) = valid_ratio (outage_threshold_ratio s)"
    by (simp add: valid_ratio_def)
  then show ?thesis by (auto simp: settings_init_def settings_valid_def validate_opt_Inr)
qed


lemma default_settings:
  "from_env [] = Inr \<lparr>realtime_window_seconds = 5, offline_threshold_seconds = 300, outage_threshold_ratio = Some (1 / 2),
     late_event_tolerance_seconds = 60, data_retention_days = 730, service_name = ''stream-pipeline'',
     environment = ''dev'', dataset_bucket = None, replay_dataset_bucket = None, alert_bus = None,
     replay_alert_bus = None, projection_table = None, replay_projection_table = None\<rparr>"
  by (simp add: from_env_def env_int_def env_float_def env_opt_def dict_get_default_def settings_init_Inr settings_valid_def
      valid_ratio_def names_ok_def DEFAULT_REALTIME_WINDOW_SECONDS_def DEFAULT_OFFLINE_THRESHOLD_SECONDS_def
      DEFAULT_OUTAGE_THRESHOLD_RATIO_def DEFAULT_LATE_EVENT_TOLERANCE_SECONDS_def DEFAULT_DATA_RETENTION_DAYS_def)




end
