(* ===== verification/FloatText.thy ===== *)
theory FloatText
  imports Settings
begin

text \<open>
  The text of a float determines it: \<^verbatim>\<open>float(repr(x)) == x\<close> for every normal double, as the settings,
  the configuration files and the structured log lines rely on. The digits \<open>show_float\<close> writes
  round back to \<open>x\<close>, since seventeen of them always do, and \<open>py_float\<close> reads the notation \<open>show_float\<close>
  chooses as the number those digits denote.
\<close>

subsection \<open>Digits that round back\<close>

text \<open>Zero and the normal doubles.\<close>

definition is_double :: "pyfloat \<Rightarrow> bool" where
  "is_double x \<longleftrightarrow> x = 0 \<or> fl x = x \<and> 1 \<le> \<bar>x\<bar> * 2 ^ 1022 \<and> \<bar>x\<bar> < 2 ^ 1024"

lemma is_double_minus [simp]: "is_double (- x) \<longleftrightarrow> is_double x"
  by (simp add: is_double_def)

lemma is_double_abs: "is_double x \<Longrightarrow> is_double \<bar>x\<bar>"
  by (cases "x < 0") simp_all

lemma ten_power_powi: "ten_power e = 10 powi e"
  by (simp add: ten_power_def power_int_def inverse_eq_divide power_one_over)

lemma ten_power_pos [simp]: "0 < ten_power e"
  by (simp add: ten_power_def)

lemma ten_power_nonzero [simp]: "ten_power e \<noteq> 0" "0 \<le> ten_power e"
  using ten_power_pos [of e] by linarith+

lemma ten_power_add: "ten_power (a + b) = ten_power a * ten_power b"
  unfolding ten_power_powi by (rule power_int_add) simp

lemma ten_power_simps [simp]: "ten_power 0 = 1" "ten_power 1 = 10" "ten_power (- 1) = 1 / 10"
  by (simp_all add: ten_power_def)

lemma ten_power_of_nat: "ten_power (int k) = 10 ^ k" "ten_power (- int k) = 1 / 10 ^ k"
  unfolding ten_power_powi by (simp_all only: power_int_of_nat power_int_minus inverse_eq_divide)

lemma dec_exp_bounds:
  "1 \<le> x * 10 ^ n \<Longrightarrow> x < 10 ^ Suc n \<Longrightarrow> ten_power (dec_exp n x) \<le> x \<and> x < ten_power (dec_exp n x) * 10"
proof (induction n arbitrary: x)
  case (Suc n)
  have one: "(1::rat) \<le> 10 ^ n" by simp
  consider "x \<ge> 10" | "x < 1" | "1 \<le> x" "x < 10" by linarith
  then show ?case
  proof cases
    case 1
    have "1 * 1 \<le> x / 10 * 10 ^ n" using 1 one by (intro mult_mono) simp_all
    then show ?thesis using Suc.IH [of "x / 10"] Suc.prems 1 by (simp add: ten_power_add)
  next
    case 2
    have "x * 10 < 10 ^ Suc n" using 2 one by (simp del: one_le_power)
    then show ?thesis using Suc.IH [of "x * 10"] Suc.prems 2 ten_power_add [of "dec_exp n (x * 10)" "- 1"] by simp
  qed simp
qed simp

lemma round_half_even_near: "\<bar>y - of_int m\<bar> < 1 / 2 \<Longrightarrow> round_half_even y = m"
proof -
  assume "\<bar>y - of_int m\<bar> < 1 / 2"
  then have "\<bar>of_int (round_half_even y) - of_int m\<bar> < (1::rat)" using round_half_even_error [of y] by linarith
  then have "\<bar>of_int (round_half_even y - m)\<bar> < (1::rat)" by simp
  then show ?thesis by linarith
qed

lemma fl_near_ulps:
  assumes "2 powi b \<le> y" "y < 2 powi (b + 1)" "\<bar>y - of_int m * 2 powi (b - 52)\<bar> < 2 powi (b - 52) / 2"
  shows "fl y = of_int m * 2 powi (b - 52)"
proof -
  let ?u = "2 powi (b - 52) :: rat"
  have u: "0 < ?u" by simp
  have "y - of_int m * ?u = (y / ?u - of_int m) * ?u" using u by (simp add: left_diff_distrib)
  then have "\<bar>y - of_int m * ?u\<bar> = \<bar>y / ?u - of_int m\<bar> * ?u" using u by (simp add: abs_mult)
  then have "\<bar>y / ?u - of_int m\<bar> < 1 / 2" using assms(3) u by (simp add: field_simps)
  then have "round_half_even (y / ?u) = m" by (rule round_half_even_near)
  moreover have "y > 0" using assms(1) powi_2_pos [of b] by linarith
  ultimately show ?thesis using binade_unique [OF assms(1,2)] by (simp add: fl_def)
qed

lemma of_int_scale: "i \<le> j \<Longrightarrow> 0 < u \<Longrightarrow> of_int i * u \<le> of_int j * (u :: rat)"
  by (intro mult_right_mono) simp_all

text \<open>A number within a quarter of a unit in the last place of a double rounds to it.\<close>

lemma fl_near:
  assumes x: "0 < x" "fl x = x" and near: "\<bar>y - x\<bar> * 2 ^ 54 < x"
  shows "fl y = x"
proof -
  define b where "b = binade x"
  define u :: rat where "u = 2 powi (b - 52)"
  define m where "m = round_half_even (x / u)"
  have u: "0 < u" by (simp add: u_def)
  have xm: "x = of_int m * u" using x by (simp add: fl_def b_def u_def m_def Let_def)
  have p: "2 powi b = 2 ^ 52 * u" "2 powi (b + 1) = 2 ^ 53 * u" "2 powi (b - 53) = u / 2"
    using powi_2_add [of "b - 52" 52] powi_2_add [of "b - 52" 53] powi_2_add [of "b - 52" "- 1"] by (simp_all add: u_def add.commute)
  have "2 ^ 52 * u \<le> of_int m * u" "of_int m * u < 2 ^ 53 * u"
    using binade_bounds [OF x(1)] by (simp_all add: p(1,2) b_def [symmetric] xm [symmetric])
  then have m: "2 ^ 52 \<le> m" "m < 2 ^ 53"
    using u by (simp_all only: mult_le_cancel_right_pos mult_less_cancel_right_pos) (metis of_int_le_iff of_int_less_iff of_int_numeral of_int_power)+
  have d: "\<bar>y - x\<bar> < u / 2"
    using near \<open>of_int m * u < 2 ^ 53 * u\<close> xm by simp
  have "x + u \<le> 2 ^ 53 * u"
    using of_int_scale [of "m + 1" "2 ^ 53" u] m(2) u by (simp add: distrib_right xm del: mult_le_cancel_right)
  then have up: "y < 2 powi (b + 1)" using d u p(2) by linarith
  show ?thesis
  proof (cases "2 powi b \<le> y")
    case True
    then show ?thesis using fl_near_ulps [OF True up, of m] d xm by (simp add: u_def)
  next
    case False
    have "m = 2 ^ 52"
    proof (rule ccontr)
      assume "m \<noteq> 2 ^ 52"
      then have "2 ^ 52 * u + u \<le> x"
        using of_int_scale [of "2 ^ 52 + 1" m u] m(1) u by (simp add: distrib_right xm del: mult_le_cancel_right)
      then show False using False d u p(1) by linarith
    qed
    then have x2: "x = 2 ^ 52 * u" using xm by simp
    have "\<bar>y - x\<bar> < u / 4" using near x2 by simp
    then have "fl y = of_int (2 ^ 53) * 2 powi ((b - 1) - 52)"
      using False x2 p u by (intro fl_near_ulps) (simp_all add: abs_less_iff algebra_simps powi_2_add [of "b - 1" 1, simplified])
    then show ?thesis using x2 p(3) by simp
  qed
qed

lemma seventeen_digits_read:
  assumes x: "0 < x" "fl x = x" and e: "ten_power e \<le> x"
  shows "fl (of_int (short_digits x e 17) * ten_power (e - 16)) = x"
proof (rule fl_near [OF x])
  have gap: "a * 2 ^ 54 < x" if "a \<le> 1 / 2 * u" "10 ^ 16 * u \<le> x" "0 < u" for a u :: rat using that by simp
  let ?u = "ten_power (e - 16)" and ?d = "of_int (short_digits x e 17) :: rat"
  have u: "0 < ?u" "ten_power e = 10 ^ 16 * ?u" using ten_power_add [of "e - 16" 16] by (simp_all add: ten_power_def [of 16])
  have "?d * ?u - x = (?d - x / ?u) * ?u" using u(1) by (simp add: left_diff_distrib)
  then have "\<bar>?d * ?u - x\<bar> = \<bar>?d - x / ?u\<bar> * ?u" using u(1) by (simp add: abs_mult)
  also have "\<dots> \<le> 1 / 2 * ?u"
    using round_half_even_error [of "x / ?u"] u(1) by (intro mult_right_mono) (simp_all add: short_digits_def)
  finally show "\<bar>?d * ?u - x\<bar> * 2 ^ 54 < x" using e u(2) by (intro gap [OF _ _ u(1)]) simp_all
qed

lemma shortest_reads:
  assumes "0 < x" "fl x = x" "ten_power e \<le> x" "n + k = 17"
  shows "shortest x e n k = (d, r) \<Longrightarrow> fl (of_int d * ten_power r) = x"
  using assms(4)
proof (induction k arbitrary: n)
  case 0
  then show ?case using seventeen_digits_read [OF assms(1-3)] by auto
next
  case (Suc k)
  then show ?case by (auto simp: Let_def split: if_splits)
qed

lemma carry_value: "carry (d, r) = (d', r') \<Longrightarrow> of_int d' * ten_power r' = of_int d * ten_power r"
  by (auto simp: carry_def ten_power_add split: if_splits)

text \<open>The digits and the exponent that \<open>show_float\<close> writes for the absolute value of a float.\<close>

definition float_digits :: "pyfloat \<Rightarrow> int \<times> int" where
  "float_digits x = carry (shortest \<bar>x\<bar> (dec_exp 400 \<bar>x\<bar>) 1 16)"

lemma float_digits_read:
  assumes x: "is_double x" "x \<noteq> 0" and d: "float_digits x = (d, r)"
  shows "fl (of_int d * ten_power r) = \<bar>x\<bar>" "0 < d"
proof -
  have a: "0 < \<bar>x\<bar>" "fl \<bar>x\<bar> = \<bar>x\<bar>" "1 \<le> \<bar>x\<bar> * 2 ^ 1022" "\<bar>x\<bar> < 2 ^ 1024"
    using is_double_abs [OF x(1)] x(2) by (auto simp: is_double_def)
  have "\<bar>x\<bar> * 2 ^ 1022 \<le> \<bar>x\<bar> * (10 ^ 400 :: rat)" by (intro mult_left_mono) simp_all
  moreover have "(2 ^ 1024 :: rat) \<le> 10 ^ Suc 400" by simp
  ultimately have e: "ten_power (dec_exp 400 \<bar>x\<bar>) \<le> \<bar>x\<bar>" using a dec_exp_bounds [of "\<bar>x\<bar>" 400] by linarith
  obtain d' r' where s: "shortest \<bar>x\<bar> (dec_exp 400 \<bar>x\<bar>) 1 16 = (d', r')" by (rule prod.exhaust)
  have "of_int d * ten_power r = of_int d' * ten_power r'" using carry_value d by (simp only: float_digits_def s)
  then show r: "fl (of_int d * ten_power r) = \<bar>x\<bar>" using shortest_reads [OF a(1,2) e _ s] by simp
  show "0 < d"
  proof (rule ccontr)
    assume "\<not> 0 < d"
    then have "of_int d * ten_power r \<le> 0" using ten_power_pos [of r] by (simp add: mult_le_0_iff)
    then show False using fl_mono [of "of_int d * ten_power r" 0] r a(1) by simp
  qed
qed

subsection \<open>The notation\<close>

text \<open>A decimal literal: digits, digits after a point and a power of ten, the last two optional.\<close>

definition point_part :: "string \<Rightarrow> string" where
  "point_part f = (if f = [] then [] else CHR ''.'' # f)"

definition power_part :: "int option \<Rightarrow> string" where
  "power_part ex = (case ex of None \<Rightarrow> [] | Some k \<Rightarrow> CHR ''e'' # (if k < 0 then CHR ''-'' else CHR ''+'') # show_pad 2 (nat \<bar>k\<bar>))"

definition literal_power :: "int option \<Rightarrow> int" where
  "literal_power ex = (case ex of None \<Rightarrow> 0 | Some k \<Rightarrow> k)"

definition is_literal :: "string \<Rightarrow> string \<Rightarrow> int option \<Rightarrow> bool" where
  "is_literal i f ex \<longleftrightarrow> i \<noteq> [] \<and> list_all is_digit i \<and> (hd i = CHR ''0'' \<longrightarrow> tl i = []) \<and> list_all is_digit f \<and> (f = [] \<longrightarrow> ex \<noteq> None)"

lemma digit_groups_digits: "list_all is_digit s \<Longrightarrow> s \<noteq> [] \<Longrightarrow> digit_groups s = Some s"
proof -
  assume s: "list_all is_digit s" "s \<noteq> []"
  then have "CHR ''_'' \<notin> set s" by (auto simp: list_all_iff is_digit_iff)
  then show ?thesis using s by (simp add: digit_groups_def split_on_no_sep)
qed

lemma opt_digits_digits: "list_all is_digit s \<Longrightarrow> opt_digits s = Some s"
  by (simp add: opt_digits_def digit_groups_digits)

lemma show_pad_literal: "list_all is_digit (show_pad w n)" "show_pad w n \<noteq> []" "nat_of_digits (show_pad w n) = n"
  using show_nat_digits [of n] by (auto simp: show_pad_def Let_def list_all_iff is_digit_def nat_of_digits_zeros nat_of_digits_show)

lemma lower_digit: "is_digit c \<Longrightarrow> lower c \<noteq> CHR ''e''" "lower (CHR ''.'') \<noteq> CHR ''e''" "lower (CHR ''e'') = CHR ''e''"
  by (auto simp: lower_def Let_def is_digit_iff)

lemma digits_no_point: "list_all is_digit s \<Longrightarrow> \<forall>c \<in> set s. c \<noteq> CHR ''.''"
  by (auto simp: list_all_iff is_digit_iff)

lemma mantissa_chars: "is_literal i f ex \<Longrightarrow> c \<in> set (i @ point_part f) \<Longrightarrow> lower c \<noteq> CHR ''e''"
  using lower_digit by (auto simp: is_literal_def point_part_def list_all_iff split: if_splits)

lemma decimal_value_literal:
  assumes "is_literal i f ex"
  shows "decimal_value (i @ point_part f @ power_part ex) =
    Some (of_nat (nat_of_digits (i @ f)) * ten_power (literal_power ex - int (length f)))"
proof -
  let ?e = "\<lambda>c. lower c \<noteq> CHR ''e''" and ?m = "i @ point_part f"
  have i: "i \<noteq> []" "list_all is_digit i" "list_all is_digit f" using assms by (simp_all add: is_literal_def)
  have "\<forall>c \<in> set ?m. ?e c" using mantissa_chars [OF assms] by blast
  moreover have "takeWhile ?e (power_part ex) = []" "dropWhile ?e (power_part ex) = power_part ex"
    by (simp_all add: power_part_def lower_digit split: option.split)
  ultimately have m: "takeWhile ?e (?m @ power_part ex) = ?m" "dropWhile ?e (?m @ power_part ex) = power_part ex"
    by (simp_all add: takeWhile_append2 dropWhile_append2)
  have p: "takeWhile (\<lambda>c. c \<noteq> CHR ''.'') ?m = i" "drop (Suc (length i)) ?m = f"
    using digits_no_point [OF i(2)] by (simp_all add: point_part_def takeWhile_append2 takeWhile_eq_all_conv)
  have "(if power_part ex = [] then Some 0
     else let (sg, body) = signed (tl (power_part ex)) in map_option (\<lambda>ds. sg * int (nat_of_digits ds)) (digit_groups body)) = Some (literal_power ex)"
    by (auto simp: power_part_def literal_power_def signed_def digit_groups_digits show_pad_literal split: option.split)
  then show ?thesis
    using m p i by (simp add: decimal_value_def Let_def opt_digits_digits)
qed

lemma strip_literal:
  assumes "is_literal i f ex" "sg = [] \<or> sg = ''-''"
  shows "strip (sg @ i @ point_part f @ power_part ex) = sg @ i @ point_part f @ power_part ex"
proof (rule strip_id)
  let ?t = "sg @ i @ point_part f @ power_part ex"
  have sp: "\<not> is_space c" if "is_digit c \<or> c \<in> {CHR ''-'', CHR ''+'', CHR ''.'', CHR ''e''}" for c
    using that by (auto simp: is_digit_iff is_space_def Let_def)
  have "\<forall>c \<in> set ?t. is_digit c \<or> c \<in> {CHR ''-'', CHR ''+'', CHR ''.'', CHR ''e''}"
    using assms show_pad_literal(1) by (auto simp: is_literal_def list_all_iff point_part_def power_part_def split: if_splits option.splits)
  moreover have "?t \<noteq> []" using assms(1) by (simp add: is_literal_def)
  ultimately show "?t = [] \<or> \<not> is_space (hd ?t) \<and> \<not> is_space (last ?t)" using sp by (meson hd_in_set last_in_set)
qed

lemma py_float_literal:
  assumes l: "is_literal i f ex" and sg: "sg = [] \<or> sg = ''-''"
    and r: "of_nat (nat_of_digits (i @ f)) * ten_power (literal_power ex - int (length f)) = (r :: rat)"
    and b: "0 < r" "r < 2 ^ 1024 - 2 ^ 970" "1 < r * 2 ^ 1075"
  shows "py_float (sg @ i @ point_part f @ power_part ex) = Some (Some (if sg = [] then fl r else - fl r))"
proof -
  let ?b = "i @ point_part f @ power_part ex"
  have h: "is_digit (hd ?b)" "?b \<noteq> []" using l by (cases i; simp add: is_literal_def)+
  have s: "signed (sg @ ?b) = (if sg = [] then 1 else - 1, ?b)"
    using sg h by (cases ?b) (auto simp: signed_def is_digit_iff)
  have "map lower ?b \<noteq> CHR ''i'' # u" "map lower ?b \<noteq> CHR ''n'' # u" for u
    using h by (cases ?b; auto simp: lower_def Let_def is_digit_iff)+
  then have "map lower ?b \<notin> {''inf'', ''infinity'', ''nan''}" by (simp del: map_append)
  then show ?thesis
    using b by (simp add: py_float_def strip_literal [OF l sg] s decimal_value_literal [OF l] r not_le del: append_assoc map_append)
qed

lemma nat_of_digits_trailing: "nat_of_digits (s @ replicate k (CHR ''0'')) = nat_of_digits s * 10 ^ k"
proof (induction k)
  case (Suc k)
  have "s @ replicate (Suc k) (CHR ''0'') = (s @ replicate k (CHR ''0'')) @ ''0''" by (simp add: replicate_append_same)
  then show ?case using Suc by (simp only: nat_of_digits_snoc) simp
qed simp

lemma show_nat_head: "0 < n \<Longrightarrow> hd (show_nat n) \<noteq> CHR ''0''"
proof
  assume n: "0 < n" and h: "hd (show_nat n) = CHR ''0''"
  then have "show_nat n = ''0''" using show_nat_leading [of n] show_nat_ne [of n] by (cases "show_nat n" rule: remdups_adj.cases) auto
  then have "nat_of_digits (show_nat n) = 0" by (simp add: nat_of_digits_def)
  then show False using n by (simp add: nat_of_digits_show)
qed

lemma show_float_literal:
  assumes "x \<noteq> 0" and d: "float_digits x = (d, r)" "0 < d"
  obtains i f ex where "is_literal i f ex" "show_float x = (if x < 0 then ''-'' else []) @ i @ point_part f @ power_part ex"
    "of_nat (nat_of_digits (i @ f)) * ten_power (literal_power ex - int (length f)) = of_int d * ten_power r"
proof -
  define ds where "ds = show_nat (nat d)"
  define p where "p = r + int (length ds)"
  have ds: "list_all is_digit ds" "ds \<noteq> []" "nat_of_digits ds = nat d" "hd ds \<noteq> CHR ''0''"
    using show_nat_digits [of "nat d"] show_nat_head [of "nat d"] d(2) by (simp_all add: ds_def list_all_iff nat_of_digits_show)
  have dd: "of_nat (nat d) = (of_int d :: rat)" using d(2) by simp
  have sf: "show_float x = (if x < 0 then ''-'' else []) @
      (if - 4 < p \<and> p \<le> 16 then
         (if p \<le> 0 then ''0.'' @ replicate (nat (- p)) (CHR ''0'') @ ds
          else if p \<ge> int (length ds) then ds @ replicate (nat (p - int (length ds))) (CHR ''0'') @ ''.0''
          else take (nat p) ds @ ''.'' @ drop (nat p) ds)
       else take 1 ds @ (if int (length ds) > 1 then ''.'' @ drop 1 ds else []) @ ''e'' @ (if p - 1 < 0 then ''-'' else ''+'') @ show_pad 2 (nat \<bar>p - 1\<bar>))"
    using assms(1) d(1) unfolding show_float_def float_digits_def by (simp add: Let_def ds_def p_def)
  note value_rules = ds(3) dd p_def literal_power_def nat_of_digits_trailing
  consider "- 4 < p" "p \<le> 0" | "p \<le> 16" "int (length ds) \<le> p" "0 < p" | "p \<le> 16" "0 < p" "p < int (length ds)" | "\<not> (- 4 < p \<and> p \<le> 16)" by linarith
  then show thesis
  proof cases
    case 1
    let ?f = "replicate (nat (- p)) (CHR ''0'') @ ds"
    have "nat_of_digits (''0'' @ ?f) = nat d" using nat_of_digits_zeros [of "Suc (nat (- p))" ds] ds(3) by simp
    then show thesis using 1 ds sf by (intro that [of "''0''" ?f None]) (auto simp: is_literal_def value_rules point_part_def power_part_def list_all_iff is_digit_def)
  next
    case 2
    let ?k = "nat (p - int (length ds))"
    have "nat_of_digits ((ds @ replicate ?k (CHR ''0'')) @ ''0'') = nat d * 10 ^ Suc ?k"
      using nat_of_digits_trailing [of ds "Suc ?k"] ds(3) by (simp add: replicate_append_same)
    moreover have "ten_power r = 10 ^ ?k" using 2 by (simp add: p_def ten_power_def)
    ultimately show thesis using 2 ds sf dd
      by (intro that [of "ds @ replicate ?k (CHR ''0'')" "''0''" None])
        (auto simp: is_literal_def literal_power_def point_part_def power_part_def list_all_iff is_digit_def)
  next
    case 3
    then show thesis using ds sf
      by (intro that [of "take (nat p) ds" "drop (nat p) ds" None])
        (auto simp: is_literal_def value_rules point_part_def power_part_def list_all_iff dest: in_set_takeD in_set_dropD)
  next
    case 4
    obtain c cs where c: "ds = c # cs" using ds(2) by (cases ds) auto
    show thesis using 4 ds sf c
      by (intro that [of "[c]" cs "Some (p - 1)"])
        (auto simp: is_literal_def value_rules point_part_def power_part_def)
  qed
qed

subsection \<open>Reading back\<close>

lemma fl_overflow: "2 ^ 1024 - 2 ^ 970 \<le> r \<Longrightarrow> 2 ^ 1024 \<le> fl r"
proof -
  define m :: rat where "m = 2 ^ 1024 - 2 ^ 970"
  assume "2 ^ 1024 - 2 ^ 970 \<le> r"
  then have r: "fl m \<le> fl r" unfolding m_def by (rule fl_mono)
  have b: "binade m = 1023" unfolding m_def by (rule binade_unique) simp_all
  have q: "m / 2 powi (1023 - 52) = of_int (2 ^ 53 - 1) + 1 / 2" unfolding m_def by simp
  have "\<lfloor>of_int (2 ^ 53 - 1) + 1 / 2 :: rat\<rfloor> = 2 ^ 53 - 1" by (intro floor_unique) simp_all
  then have h: "round_half_even (of_int (2 ^ 53 - 1) + 1 / 2) = 2 ^ 53" by (simp add: round_half_even_def Let_def)
  have "m \<noteq> 0" "\<bar>m\<bar> = m" unfolding m_def by simp_all
  then have "fl m = of_int (2 ^ 53) * 2 powi (1023 - 52)" by (simp only: fl_def Let_def b q h if_False)
  also have "\<dots> = 2 ^ 1024" by simp
  finally show ?thesis using r by simp
qed

lemma double_range:
  assumes x: "is_double x" "x \<noteq> 0" and r: "fl r = \<bar>x\<bar>"
  shows "0 < r" "r < 2 ^ 1024 - 2 ^ 970" "1 < r * 2 ^ 1075"
proof -
  have a: "0 < \<bar>x\<bar>" "1 \<le> \<bar>x\<bar> * 2 ^ 1022" "\<bar>x\<bar> < 2 ^ 1024" using x by (auto simp: is_double_def)
  show "0 < r" using fl_mono [of r 0] r a(1) by (cases "0 < r") auto
  show "r < 2 ^ 1024 - 2 ^ 970" using fl_overflow [of r] r a(3) by linarith
  have "fl r \<le> r + r / 2 ^ 53" using fl_error [of r] \<open>0 < r\<close> by linarith
  then have "\<bar>x\<bar> < 2 * r" using \<open>0 < r\<close> r by simp
  then have "\<bar>x\<bar> * 2 ^ 1022 < 2 * r * 2 ^ 1022" by (intro mult_strict_right_mono) simp_all
  then have "1 < r * 2 ^ 1023" using a(2) by simp
  then show "1 < r * 2 ^ 1075" using \<open>0 < r\<close> by simp
qed

lemma zero_literal: "is_literal ''0'' ''0'' None" "show_float 0 = ''0'' @ point_part ''0'' @ power_part None"
  by (simp_all add: is_literal_def is_digit_def show_float_def point_part_def power_part_def)

lemma show_double_literal:
  assumes "is_double x"
  obtains sg i f ex where "sg = [] \<or> sg = ''-''" "is_literal i f ex" "show_float x = sg @ i @ point_part f @ power_part ex"
proof (cases "x = 0")
  case True
  then show thesis using zero_literal by (intro that [of "[]" "''0''" "''0''" None]) simp_all
next
  case False
  obtain d r where d: "float_digits x = (d, r)" by (rule prod.exhaust)
  show thesis
    by (rule show_float_literal [OF False d float_digits_read(2) [OF assms False d]])
      (rule that [of "if x < 0 then ''-'' else []"], simp_all)
qed

theorem py_float_show: "is_double x \<Longrightarrow> py_float (show_float x) = Some (Some x)"
proof (cases "x = 0")
  case True
  have "py_float (show_float 0) = Some (Some 0)"
    using decimal_value_literal [OF zero_literal(1)] strip_literal [OF zero_literal(1), of "[]"] unfolding zero_literal(2)
    by (simp add: py_float_def point_part_def power_part_def signed_def nat_of_digits_def lower_def)
  then show ?thesis using True by simp
next
  case False
  assume x: "is_double x"
  obtain d r where d: "float_digits x = (d, r)" by (rule prod.exhaust)
  note fd = float_digits_read [OF x False d]
  obtain i f ex where l: "is_literal i f ex" "show_float x = (if x < 0 then ''-'' else []) @ i @ point_part f @ power_part ex"
    "of_nat (nat_of_digits (i @ f)) * ten_power (literal_power ex - int (length f)) = of_int d * ten_power r"
    by (rule show_float_literal [OF False d fd(2)])
  show ?thesis
    using py_float_literal [OF l(1) _ l(3) double_range [OF x False fd(1)], of "if x < 0 then ''-'' else []"] fd(1)
    by (simp add: l(2))
qed

end
