(* ===== verification/Json.thy ===== *)
theory Json
  imports Serialisation FloatText
begin

text \<open>
  Python's \<^verbatim>\<open>json\<close>: the compact form of \<^verbatim>\<open>json.dumps\<close> that the log formatter asks for, and
  \<^verbatim>\<open>json.loads\<close>, which reads the configuration of a replay and the recorded count of tests.
  The scanner follows the library function by function: blanks, string escapes, numbers,
  the constants, arrays and objects with the last of equal keys winning. The message of a
  \<^verbatim>\<open>JSONDecodeError\<close> is kept without its position. An escape beyond U+00FF makes a text foreign
  to the model, and its value the parameter \<open>foreign\<close>; nesting beyond the recursion limit is
  not modelled. What is written reads back as it was.
\<close>

subsection \<open>Writing\<close>

definition not_serialisable :: "pyval \<Rightarrow> exn" where
  "not_serialisable v = TypeError (''Object of type '' @ type_name v @ '' is not JSON serializable'')"

text \<open>\<^verbatim>\<open>json.dumps(v, separators=(",", ":"))\<close>\<close>

fun dumps :: "pyval \<Rightarrow> string res" and dumps_list :: "pyval list \<Rightarrow> string list res"
  and dumps_fields :: "(string \<times> pyval) list \<Rightarrow> string list res" where
  "dumps PyNone = Inr ''null''"
| "dumps (PyBool b) = Inr (if b then ''true'' else ''false'')"
| "dumps (PyInt i) = Inr (show_int i)"
| "dumps (PyFloat x) = Inr (show_float x)"
| "dumps (PyStr s) = Inr (json_string s)"
| "dumps (PyUUID u) = Inl (not_serialisable (PyUUID u))"
| "dumps (PyDT d) = Inl (not_serialisable (PyDT d))"
| "dumps (PyObj cls as) = Inl (not_serialisable (PyObj cls as))"
| "dumps (PyList vs) = bind_res (dumps_list vs) (\<lambda>ss. Inr (''['' @ join_with (CHR '','') ss @ '']''))"
| "dumps (PyDict kvs) = bind_res (dumps_fields kvs) (\<lambda>ss. Inr (''{'' @ join_with (CHR '','') ss @ ''}''))"
| "dumps_list [] = Inr []"
| "dumps_list (v # vs) = bind_res (dumps v) (\<lambda>s. bind_res (dumps_list vs) (\<lambda>ss. Inr (s # ss)))"
| "dumps_fields [] = Inr []"
| "dumps_fields (kv # kvs) =
     bind_res (dumps (snd kv)) (\<lambda>s. bind_res (dumps_fields kvs) (\<lambda>ss. Inr ((json_string (fst kv) @ '':'' @ s) # ss)))"

subsection \<open>Reading\<close>

definition decode_error :: "string \<Rightarrow> exn" where "decode_error m = Exn ''JSONDecodeError'' m"

definition foreign_text :: exn where "foreign_text = Exn ''ForeignText'' []"

definition skip_blank :: "string \<Rightarrow> string" where
  "skip_blank s = dropWhile (\<lambda>c. c \<in> {CHR 32, CHR 9, CHR 10, CHR 13}) s"

definition BACKSLASH :: "(char, char) dict" where
  "BACKSLASH = [(CHR 0x22, CHR 0x22), (CHR 0x5C, CHR 0x5C), (CHR ''/'', CHR ''/''), (CHR ''b'', CHR 8), (CHR ''f'', CHR 12),
     (CHR ''n'', CHR 10), (CHR ''r'', CHR 13), (CHR ''t'', CHR 9)]"

definition prefixed :: "char \<Rightarrow> (string \<times> string) res \<Rightarrow> (string \<times> string) res" where
  "prefixed c r = (case r of Inl e \<Rightarrow> Inl e | Inr (s, rest) \<Rightarrow> Inr (c # s, rest))"

text \<open>The string after its opening quote, and what follows the closing one.\<close>

fun scanstring :: "string \<Rightarrow> (string \<times> string) res" where
  "scanstring [] = Inl (decode_error ''Unterminated string starting at'')"
| "scanstring (c # cs) =
     (if c = CHR 0x22 then Inr ([], cs)
      else if c = CHR 0x5C then
        (case cs of
           [] \<Rightarrow> Inl (decode_error ''Unterminated string starting at'')
         | e # r \<Rightarrow>
             if e = CHR ''u'' then
               (case if length (take 4 r) = 4 then hex_value 0 (take 4 r) else None of
                  None \<Rightarrow> Inl (decode_error (''Invalid '' @ [CHR 0x5C] @ ''uXXXX escape''))
                | Some n \<Rightarrow> if n > 255 then Inl foreign_text else prefixed (char_of n) (scanstring (drop 4 r)))
             else (case dict_get BACKSLASH e of
                     None \<Rightarrow> Inl (decode_error (''Invalid '' @ [CHR 0x5C] @ ''escape''))
                   | Some x \<Rightarrow> prefixed x (scanstring r)))
      else if (of_char c :: nat) < 32 then Inl (decode_error ''Invalid control character at'')
      else prefixed c (scanstring cs))"

text \<open>The three groups of the number pattern; a group that does not match is empty.\<close>

definition scan_integer :: "string \<Rightarrow> (string \<times> string) option" where
  "scan_integer s =
     (let sg = takeWhile (\<lambda>c. c = CHR ''-'') (take 1 s); r = drop (length sg) s in
      case r of
        [] \<Rightarrow> None
      | c # cs \<Rightarrow>
          if c = CHR ''0'' then Some (sg @ [c], cs)
          else if is_digit c then Some (sg @ takeWhile is_digit r, dropWhile is_digit r) else None)"

definition scan_fraction :: "string \<Rightarrow> string \<times> string" where
  "scan_fraction s =
     (case s of c # d # r \<Rightarrow> if c = CHR ''.'' \<and> is_digit d then (c # takeWhile is_digit (d # r), dropWhile is_digit (d # r)) else ([], s)
      | _ \<Rightarrow> ([], s))"

definition scan_exponent :: "string \<Rightarrow> string \<times> string" where
  "scan_exponent s =
     (case s of
        [] \<Rightarrow> ([], s)
      | c # r \<Rightarrow>
          let sg = takeWhile (\<lambda>x. x = CHR ''-'' \<or> x = CHR ''+'') (take 1 r); ds = takeWhile is_digit (drop (length sg) r) in
          if (c = CHR ''e'' \<or> c = CHR ''E'') \<and> ds \<noteq> [] then (c # sg @ ds, drop (length sg + length ds) r) else ([], s))"

text \<open>An infinity or not-a-number is an object of class \<^verbatim>\<open>float\<close> of which only the name is kept.\<close>

definition special_float :: "string \<Rightarrow> pyval" where "special_float name = PyObj ''float'' [(''repr'', PyStr name)]"

definition number_value :: "string \<Rightarrow> string \<Rightarrow> string \<Rightarrow> pyval" where
  "number_value i f e =
     (if f = [] \<and> e = [] then PyInt (the (py_int i))
      else case the (py_float (i @ f @ e)) of
          Some x \<Rightarrow> PyFloat x
        | None \<Rightarrow> special_float (if take 1 i = ''-'' then ''-inf'' else ''inf''))"

definition scan_number :: "string \<Rightarrow> (pyval \<times> string) option" where
  "scan_number s =
     (case scan_integer s of
        None \<Rightarrow> None
      | Some (i, r) \<Rightarrow> (case scan_fraction r of (f, r) \<Rightarrow> case scan_exponent r of (e, r) \<Rightarrow> Some (number_value i f e, r)))"

text \<open>Numbers and the constants.\<close>

definition CONSTANTS :: "(string \<times> pyval) list" where
  "CONSTANTS = [(''null'', PyNone), (''true'', PyBool True), (''false'', PyBool False), (''NaN'', special_float ''nan''),
     (''Infinity'', special_float ''inf''), (''-Infinity'', special_float ''-inf'')]"

definition scan_atom :: "string \<Rightarrow> (pyval \<times> string) res" where
  "scan_atom s =
     (case scan_number s of
        Some x \<Rightarrow> Inr x
      | None \<Rightarrow>
          (case find (\<lambda>(name, v). starts_with name s) CONSTANTS of
             Some (name, v) \<Rightarrow> Inr (v, drop (length name) s)
           | None \<Rightarrow> Inl (decode_error ''Expecting value'')))"

abbreviation EXPECTING_NAME :: exn where "EXPECTING_NAME \<equiv> decode_error ''Expecting property name enclosed in double quotes''"
abbreviation EXPECTING_COMMA :: exn where "EXPECTING_COMMA \<equiv> decode_error ''Expecting , delimiter''"

lemma length_skip_blank: "length (skip_blank s) \<le> length s"
  by (simp add: skip_blank_def length_dropWhile_le)

lemma skip_blank_less: "length s < n \<Longrightarrow> length (skip_blank s) < n"
  using length_skip_blank [of s] by simp

lemma less_skip_blank: "n < length (skip_blank s) \<Longrightarrow> n < length s"
  using length_skip_blank [of s] by simp

lemma skip_blank_shorter: "skip_blank s = c # r \<Longrightarrow> length r < length s"
  using length_skip_blank [of s] by simp

lemma prefixed_Inr: "prefixed c r = Inr (s, t) \<longleftrightarrow> (\<exists>s'. r = Inr (s', t) \<and> s = c # s')"
  by (auto simp: prefixed_def split: sum.split)

lemma scanstring_shorter: "scanstring s = Inr (x, r) \<Longrightarrow> length r < length s"
proof (induction s arbitrary: x rule: scanstring.induct)
  case (2 c cs)
  show ?case
  proof (cases "c = CHR 0x5C")
    case True
    then show ?thesis using 2 by (auto simp: prefixed_Inr split: list.splits option.splits if_splits) fastforce+
  next
    case False
    then show ?thesis using 2 by (fastforce simp: prefixed_Inr split: if_splits)
  qed
qed simp

lemma scan_integer_split: "scan_integer s = Some (i, r) \<Longrightarrow> s = i @ r \<and> i \<noteq> []"
  by (cases s) (auto simp: scan_integer_def Let_def split: list.splits if_splits)

lemma scan_fraction_split: "scan_fraction s = (f, r) \<Longrightarrow> s = f @ r"
  by (auto simp: scan_fraction_def split: list.splits if_splits)

lemma scan_exponent_split:
  assumes "scan_exponent s = (e, r)"
  shows "s = e @ r"
proof (cases s)
  case (Cons c t)
  define sg where "sg = takeWhile (\<lambda>x. x = CHR ''-'' \<or> x = CHR ''+'') (take (Suc 0) t)"
  define ds where "ds = takeWhile is_digit (drop (length sg) t)"
  have "t = sg @ drop (length sg) t" unfolding sg_def by (cases t) auto
  moreover have "drop (length sg) t = ds @ drop (length ds) (drop (length sg) t)"
    unfolding ds_def by (metis dropWhile_eq_drop takeWhile_dropWhile_id)
  ultimately have "t = sg @ ds @ drop (length sg + length ds) t" by (metis add.commute drop_drop)
  then show ?thesis using assms by (auto simp: scan_exponent_def Cons Let_def sg_def [symmetric] ds_def [symmetric] split: if_splits)
qed (use assms in \<open>simp add: scan_exponent_def\<close>)

lemma scan_number_shorter: "scan_number s = Some (v, r) \<Longrightarrow> length r < length s"
  by (auto simp: scan_number_def split: option.splits prod.splits dest!: scan_integer_split scan_fraction_split scan_exponent_split)

lemma scan_atom_shorter:
  assumes "scan_atom s = Inr (v, r)"
  shows "length r < length s"
proof (cases "scan_number s")
  case None
  then obtain name where f: "find (\<lambda>(name, v). starts_with name s) CONSTANTS = Some (name, v)" and r: "r = drop (length name) s"
    using assms by (auto simp: scan_atom_def split: option.splits)
  from f have "(name, v) \<in> set CONSTANTS" "starts_with name s" by (auto simp: find_Some_iff) (metis nth_mem)
  moreover have "\<forall>x \<in> set CONSTANTS. fst x \<noteq> []" by (simp add: CONSTANTS_def)
  ultimately have "name \<noteq> []" "length name \<le> length s" by (fastforce, metis starts_with_def length_take min.cobounded1)
  then show ?thesis using r by (cases s) auto
qed (use assms scan_number_shorter in \<open>auto simp: scan_atom_def\<close>)

function (sequential) scan_once :: "string \<Rightarrow> (pyval \<times> string) res"
  and scan_items :: "string \<Rightarrow> (pyval list \<times> string) res"
  and scan_pairs :: "(string, pyval) dict \<Rightarrow> string \<Rightarrow> ((string, pyval) dict \<times> string) res" where
  "scan_once s =
     (case s of
        [] \<Rightarrow> Inl (decode_error ''Expecting value'')
      | c # cs \<Rightarrow>
          if c = CHR 0x22 then (case scanstring cs of Inl e \<Rightarrow> Inl e | Inr (x, r) \<Rightarrow> Inr (PyStr x, r))
          else if c = CHR ''{'' then
            (case skip_blank cs of
               [] \<Rightarrow> Inl EXPECTING_NAME
             | d # r \<Rightarrow>
                 if d = CHR ''}'' then Inr (PyDict [], r)
                 else if d = CHR 0x22 then (case scan_pairs [] r of Inl e \<Rightarrow> Inl e | Inr (kvs, r) \<Rightarrow> Inr (PyDict kvs, r))
                 else Inl EXPECTING_NAME)
          else if c = CHR ''['' then
            (case skip_blank cs of
               [] \<Rightarrow> Inl (decode_error ''Expecting value'')
             | d # r \<Rightarrow>
                 if d = CHR '']'' then Inr (PyList [], r)
                 else (case scan_items (d # r) of Inl e \<Rightarrow> Inl e | Inr (vs, r) \<Rightarrow> Inr (PyList vs, r)))
          else scan_atom s)"
| "scan_items s =
     (case scan_once s of
        Inl e \<Rightarrow> Inl e
      | Inr (v, r) \<Rightarrow>
          (case skip_blank r of
             [] \<Rightarrow> Inl EXPECTING_COMMA
           | d # r \<Rightarrow>
               if d = CHR '']'' then Inr ([v], r)
               else if d = CHR '','' then
                 (case scan_items (skip_blank r) of Inl e \<Rightarrow> Inl e | Inr (vs, r) \<Rightarrow> Inr (v # vs, r))
               else Inl EXPECTING_COMMA))"
| "scan_pairs kvs s =
     (case scanstring s of
        Inl e \<Rightarrow> Inl e
      | Inr (k, r) \<Rightarrow>
          (case skip_blank r of
             [] \<Rightarrow> Inl (decode_error ''Expecting : delimiter'')
           | d # r \<Rightarrow>
               if d \<noteq> CHR '':'' then Inl (decode_error ''Expecting : delimiter'')
               else (case scan_once (skip_blank r) of
                       Inl e \<Rightarrow> Inl e
                     | Inr (v, r) \<Rightarrow>
                         (case skip_blank r of
                            [] \<Rightarrow> Inl EXPECTING_COMMA
                          | d # r \<Rightarrow>
                              if d = CHR ''}'' then Inr (dict_set k v kvs, r)
                              else if d = CHR '','' then
                                (case skip_blank r of
                                   [] \<Rightarrow> Inl EXPECTING_NAME
                                 | q # r \<Rightarrow> if q = CHR 0x22 then scan_pairs (dict_set k v kvs) r else Inl EXPECTING_NAME)
                              else Inl EXPECTING_COMMA))))"
  by pat_completeness auto

lemma scan_shorter:
  "scan_once_scan_items_scan_pairs_dom (Inl s) \<Longrightarrow> scan_once s = Inr (v, r) \<Longrightarrow> length r < length s"
  "scan_once_scan_items_scan_pairs_dom (Inr (Inl s)) \<Longrightarrow> scan_items s = Inr (vs, r) \<Longrightarrow> length r < length s"
  "scan_once_scan_items_scan_pairs_dom (Inr (Inr (kvs, s))) \<Longrightarrow> scan_pairs kvs s = Inr (d, r) \<Longrightarrow> length r < length s"
proof (induction s and s and kvs s arbitrary: v r and vs r and d r rule: scan_once_scan_items_scan_pairs.pinduct)
  case (1 s)
  show ?case using 1(4) scan_once.psimps [OF 1(1)] 1(2,3)
    by (fastforce split: list.splits if_splits sum.splits dest: scan_atom_shorter scanstring_shorter skip_blank_shorter)
next
  case (2 s)
  note eq = 2(4) [unfolded scan_items.psimps [OF 2(1)]]
  obtain v1 r1 where o: "scan_once s = Inr (v1, r1)" using eq by (auto split: sum.splits)
  obtain d r2 where b: "skip_blank r1 = d # r2" using eq o by (auto split: list.splits)
  have l: "length r2 < length s" using 2(2) [OF o] skip_blank_shorter [OF b] by simp
  show ?case
  proof (cases "d = CHR '']''")
    case False
    then obtain vs' where i: "d = CHR '',''" "scan_items (skip_blank r2) = Inr (vs', r)"
      using eq o b by (auto split: if_splits sum.splits)
    show ?thesis using 2(3) [OF o refl b False i] l length_skip_blank [of r2] by simp
  qed (use eq o b l in simp)
next
  case (3 kvs s)
  note eq = 3(4) [unfolded scan_pairs.psimps [OF 3(1)]]
  obtain k r1 where o: "scanstring s = Inr (k, r1)" using eq by (auto split: sum.splits)
  obtain r2 where b: "skip_blank r1 = CHR '':'' # r2" using eq o by (auto split: list.splits if_splits)
  obtain v r3 where w: "scan_once (skip_blank r2) = Inr (v, r3)" using eq o b by (auto split: sum.splits)
  obtain c r4 where e: "skip_blank r3 = c # r4" using eq o b w by (auto split: list.splits)
  have l: "length r4 < length s"
    using scanstring_shorter [OF o] skip_blank_shorter [OF b] 3(2) [OF o refl b _ w] length_skip_blank [of r2] skip_blank_shorter [OF e] by simp
  show ?case
  proof (cases "c = CHR ''}''")
    case False
    then obtain r5 where i: "c = CHR '',''" "skip_blank r4 = CHR 0x22 # r5" "scan_pairs (dict_set k v kvs) r5 = Inr (d, r)"
      using eq o b w e by (auto split: if_splits list.splits)
    show ?thesis using 3(3) [OF o refl b _ w refl e False i(1,2) _ i(3)] l skip_blank_shorter [OF i(2)] by simp
  qed (use eq o b w e l in simp)
qed

termination scan_once
proof (relation "measure (\<lambda>x. case x of Inl s \<Rightarrow> 2 * length s | Inr (Inl s) \<Rightarrow> 2 * length s + 1 | Inr (Inr (_, s)) \<Rightarrow> 2 * length s)", goal_cases)
  case 1
  show ?case by simp
next
  case 2
  then show ?case by (auto dest: skip_blank_shorter)
next
  case 3
  then show ?case by (auto dest: skip_blank_shorter)
next
  case 4
  then show ?case by simp
next
  case 5
  then show ?case by (auto intro!: skip_blank_less dest!: scan_shorter(1) skip_blank_shorter)
next
  case 6
  then show ?case by (auto intro!: skip_blank_less dest!: scanstring_shorter skip_blank_shorter)
next
  case 7
  then show ?case by (auto intro!: skip_blank_less dest!: scanstring_shorter scan_shorter(1) skip_blank_shorter less_skip_blank)
qed

declare scan_once.simps [simp del] scan_items.simps [simp del] scan_pairs.simps [simp del]

definition raw_loads :: "string \<Rightarrow> pyval res" where
  "raw_loads s =
     (case scan_once (skip_blank s) of
        Inl e \<Rightarrow> Inl e
      | Inr (v, r) \<Rightarrow> if skip_blank r = [] then Inr v else Inl (decode_error ''Extra data''))"

text \<open>\<^verbatim>\<open>json.loads(s)\<close>\<close>

definition loads :: "(string \<Rightarrow> pyval res) \<Rightarrow> string \<Rightarrow> pyval res" where
  "loads foreign s = (case raw_loads s of Inl e \<Rightarrow> if e = foreign_text then foreign s else Inl e | Inr v \<Rightarrow> Inr v)"

subsection \<open>What is written reads back\<close>

lemma scanstring_char: "scanstring (json_char c @ s) = prefixed c (scanstring s)"
proof -
  define n :: int where "n = of_char c"
  have n: "0 \<le> n" "n < 256" unfolding n_def by (simp_all flip: of_nat_of_char [where ?'a = int])
  have h: "hex_value 0 (hex_digits 4 n) = Some n" using n by (intro hex_value_digits) simp_all
  have c: "char_of n = c" by (simp add: n_def)
  have lt: "(of_char c :: nat) < 32 \<longleftrightarrow> n < 32" by (simp add: n_def flip: of_nat_of_char [where ?'a = int])
  have d: "n = of_char d \<Longrightarrow> c = d" for d by (simp add: n_def)
  note e = d [of "CHR 10", simplified] d [of "CHR 13", simplified] d [of "CHR 9", simplified] d [of "CHR 8", simplified] d [of "CHR 12", simplified]
  show ?thesis
    unfolding json_char_def n_def [symmetric] Let_def
    using h n lt by (auto simp: c BACKSLASH_def e)
qed

lemma scanstring_json: "scanstring (concat (map json_char s) @ CHR 0x22 # r) = Inr (s, r)"
  by (induction s) (simp_all add: scanstring_char prefixed_def)

text \<open>A character at which a number ends.\<close>

definition ends_number :: "string \<Rightarrow> bool" where
  "ends_number r \<longleftrightarrow> r = [] \<or> (\<not> is_digit (hd r) \<and> hd r \<notin> {CHR ''.'', CHR ''e'', CHR ''E''})"

lemma takeWhile_ends: "ends_number r \<Longrightarrow> takeWhile is_digit (xs @ r) = takeWhile is_digit xs"
  and dropWhile_ends: "ends_number r \<Longrightarrow> dropWhile is_digit (xs @ r) = dropWhile is_digit xs @ r"
  by (induction xs; cases r; auto simp: ends_number_def)+

lemma scan_integer_ends:
  assumes "scan_integer t = Some (i, u)" "ends_number r"
  shows "scan_integer (t @ r) = Some (i, u @ r)"
proof (cases t)
  case (Cons c t')
  then show ?thesis using assms takeWhile_ends [OF assms(2), of t'] dropWhile_ends [OF assms(2), of t']
    takeWhile_ends [OF assms(2), of "tl t'"] dropWhile_ends [OF assms(2), of "tl t'"]
    by (auto simp: scan_integer_def Let_def split: list.splits if_splits)
qed (use assms in \<open>simp add: scan_integer_def\<close>)

lemma scan_fraction_ends:
  assumes "scan_fraction t = (f, u)" "ends_number r"
  shows "scan_fraction (t @ r) = (f, u @ r)"
proof (cases t)
  case Nil
  then show ?thesis using assms by (auto simp: scan_fraction_def ends_number_def split: list.splits if_splits)
next
  case (Cons c t')
  show ?thesis
  proof (cases t')
    case Nil
    then show ?thesis using assms Cons by (cases r) (auto simp: scan_fraction_def ends_number_def split: list.splits if_splits)
  qed (use assms Cons takeWhile_ends [OF assms(2)] dropWhile_ends [OF assms(2)] in \<open>auto simp: scan_fraction_def split: if_splits\<close>)
qed

lemma scan_exponent_ends:
  assumes "scan_exponent t = (e, [])" "ends_number r"
  shows "scan_exponent (t @ r) = (e, r)"
proof (cases t)
  case Nil
  then show ?thesis using assms by (cases r) (auto simp: scan_exponent_def ends_number_def)
next
  case (Cons c t')
  define sg where "sg = takeWhile (\<lambda>x. x = CHR ''-'' \<or> x = CHR ''+'') (take (Suc 0) t')"
  define ds where "ds = takeWhile is_digit (drop (length sg) t')"
  have m: "c = CHR ''e'' \<or> c = CHR ''E''" "ds \<noteq> []" "e = c # sg @ ds" "length t' \<le> length sg + length ds"
    using assms(1) by (auto simp: scan_exponent_def Cons Let_def sg_def [symmetric] ds_def [symmetric] split: if_splits)
  have "t' \<noteq> []" using m(2) by (auto simp: ds_def)
  then have sg: "takeWhile (\<lambda>x. x = CHR ''-'' \<or> x = CHR ''+'') (take (Suc 0) (t' @ r)) = sg" by (cases t') (simp_all add: sg_def)
  have len: "length sg \<le> length t'" unfolding sg_def by (metis length_takeWhile_le length_take min.boundedE)
  then have ds: "takeWhile is_digit (drop (length sg) (t' @ r)) = ds" using takeWhile_ends [OF assms(2)] by (simp add: ds_def)
  have "length ds \<le> length t' - length sg" unfolding ds_def by (metis length_takeWhile_le length_drop)
  then have "drop (length sg + length ds) (t' @ r) = r" using m(4) len by simp
  then show ?thesis using m sg ds by (auto simp: scan_exponent_def Cons Let_def)
qed

lemma scan_number_ends:
  assumes "scan_number t = Some (v, [])" "ends_number r"
  shows "scan_number (t @ r) = Some (v, r)"
proof -
  obtain i u f w e where s: "scan_integer t = Some (i, u)" "scan_fraction u = (f, w)" "scan_exponent w = (e, [])" "v = number_value i f e"
    using assms(1) by (auto simp: scan_number_def split: option.splits prod.splits)
  show ?thesis
    using scan_integer_ends [OF s(1) assms(2)] scan_fraction_ends [OF s(2) assms(2)] scan_exponent_ends [OF s(3) assms(2)] s(4)
    by (simp add: scan_number_def)
qed

lemma digit_not_space: "is_digit c \<Longrightarrow> \<not> is_space c"
  by (auto simp: is_digit_iff is_space_def Let_def)

lemma py_int_show: "py_int (show_int i) = Some i"
proof -
  have d: "digit_groups (show_nat n) = Some (show_nat n)" for n
  proof -
    have "CHR ''_'' \<notin> set (show_nat n)" using show_nat_digits [of n] by (auto simp: list_all_iff is_digit_iff)
    then show ?thesis using show_nat_digits [of n] show_nat_ne [of n] by (simp add: digit_groups_def split_on_no_sep list_all_iff Let_def)
  qed
  have st: "strip (show_int i) = show_int i"
    using show_nat_digits [of "nat (- i)"] show_nat_digits [of "nat i"] show_nat_ne [of "nat (- i)"] show_nat_ne [of "nat i"] digit_not_space
    by (intro strip_id) (auto simp: show_int_def list_all_iff is_space_def Let_def)
  have sg: "signed (show_nat n) = (1, show_nat n)" for n
    using show_nat_digits [of n] by (cases "show_nat n") (auto simp: signed_def is_digit_iff)
  show ?thesis using d sg by (auto simp: py_int_def st nat_of_digits_show) (auto simp: show_int_def signed_def nat_of_digits_show d)
qed

lemma scan_number_int: "scan_number (show_int i) = Some (PyInt i, [])"
proof -
  have n: "\<exists>c cs. show_nat n = c # cs \<and> c \<noteq> CHR ''-'' \<and> is_digit c \<and> takeWhile is_digit (show_nat n) = show_nat n \<and> (c = CHR ''0'' \<longrightarrow> cs = [])" for n
  proof -
    obtain c cs where c: "show_nat n = c # cs" using show_nat_ne [of n] by (cases "show_nat n") auto
    have "takeWhile is_digit (show_nat n) = show_nat n" using show_nat_digits by (simp add: takeWhile_eq_all_conv)
    then show ?thesis using c show_nat_digits [of n] show_nat_leading [of n] by (auto simp: is_digit_iff)
  qed
  have "scan_integer (show_int i) = Some (show_int i, [])"
  proof (cases "i < 0")
    case True
    with n [of "nat (- i)"] show ?thesis by (auto simp: show_int_def scan_integer_def Let_def)
  next
    case False
    with n [of "nat i"] show ?thesis by (auto simp: show_int_def scan_integer_def Let_def)
  qed
  then show ?thesis using py_int_show by (simp add: scan_number_def scan_fraction_def scan_exponent_def number_value_def)
qed

lemma scan_exponent_power: "scan_exponent (power_part ex) = (power_part ex, [])"
proof -
  have tw: "takeWhile is_digit (show_pad 2 n) = show_pad 2 n" for n using show_pad_literal(1) [of 2 n] by (simp add: takeWhile_eq_all_conv list_all_iff)
  show ?thesis using show_pad_literal(2) by (cases ex) (simp_all add: scan_exponent_def power_part_def Let_def tw)
qed

lemma scan_literal:
  assumes "is_literal i f ex" "sg = [] \<or> sg = ''-''"
  shows "scan_number (sg @ i @ point_part f @ power_part ex) = Some (number_value (sg @ i) (point_part f) (power_part ex), [])"
proof -
  let ?r = "point_part f @ power_part ex"
  obtain c cs where i: "i = c # cs" using assms(1) by (cases i) (auto simp: is_literal_def)
  have d: "is_digit c" "c \<noteq> CHR ''-''" "\<forall>c \<in> set cs. is_digit c" "c = CHR ''0'' \<longrightarrow> cs = []" "\<forall>c \<in> set f. is_digit c"
    using assms(1) i by (auto simp: is_literal_def list_all_iff is_digit_iff)
  have e: "takeWhile is_digit (power_part ex) = []" "dropWhile is_digit (power_part ex) = power_part ex" by (auto simp: power_part_def is_digit_iff split: option.split)
  then have r: "takeWhile is_digit ?r = []" "dropWhile is_digit ?r = ?r" by (auto simp: point_part_def is_digit_iff)
  have "takeWhile is_digit (i @ ?r) = i" "dropWhile is_digit (i @ ?r) = ?r" using d r i by (simp_all add: takeWhile_append2 dropWhile_append2)
  then have "scan_integer (sg @ i @ ?r) = Some (sg @ i, ?r)" using assms(2) d(1,2,4) i by (auto simp: scan_integer_def Let_def)
  moreover have "scan_fraction ?r = (point_part f, power_part ex)"
  proof (cases f)
    case Nil
    then show ?thesis by (auto simp: scan_fraction_def point_part_def power_part_def split: list.split option.split)
  next
    case (Cons a u)
    then show ?thesis using d(5) e by (simp add: scan_fraction_def point_part_def takeWhile_append2 dropWhile_append2)
  qed
  ultimately show ?thesis using scan_exponent_power by (simp add: scan_number_def)
qed

lemma scan_number_float:
  assumes "is_double x"
  shows "scan_number (show_float x) = Some (PyFloat x, [])"
proof -
  obtain sg i f ex where l: "sg = [] \<or> sg = ''-''" "is_literal i f ex" "show_float x = sg @ i @ point_part f @ power_part ex"
    by (rule show_double_literal [OF assms])
  have "py_float (sg @ i @ point_part f @ power_part ex) = Some (Some x)"
    using FloatText.py_float_show [OF assms] by (simp only: l(3))
  moreover have "\<not> (point_part f = [] \<and> power_part ex = [])"
    using l(2) by (auto simp: is_literal_def point_part_def power_part_def split: option.splits if_splits)
  ultimately have "number_value (sg @ i) (point_part f) (power_part ex) = PyFloat x" by (simp add: number_value_def)
  then show ?thesis using scan_literal [OF l(2,1)] by (simp only: l(3))
qed

text \<open>
  Values of which the written form determines them: the keys of a dictionary are distinct,
  and the floats are zero and the normal doubles.
\<close>

fun readable :: "pyval \<Rightarrow> bool" where
  "readable (PyFloat x) \<longleftrightarrow> is_double x"
| "readable (PyList vs) \<longleftrightarrow> (\<forall>v \<in> set vs. readable v)"
| "readable (PyDict kvs) \<longleftrightarrow> distinct (map fst kvs) \<and> (\<forall>kv \<in> set kvs. readable (snd kv))"
| "readable (PyUUID u) \<longleftrightarrow> False"
| "readable (PyDT d) \<longleftrightarrow> False"
| "readable (PyObj cls as) \<longleftrightarrow> False"
| "readable v \<longleftrightarrow> True"

lemma skip_blank_Cons: "c \<notin> {CHR 32, CHR 9, CHR 10, CHR 13} \<Longrightarrow> skip_blank (c # r) = c # r"
  by (simp add: skip_blank_def)

lemma skip_blank_quote [simp]:
  "skip_blank (CHR 0x22 # r) = CHR 0x22 # r" "skip_blank (CHR '','' # r) = CHR '','' # r" "skip_blank (CHR '':'' # r) = CHR '':'' # r"
  "skip_blank (CHR '']'' # r) = CHR '']'' # r" "skip_blank (CHR ''}'' # r) = CHR ''}'' # r" "skip_blank (CHR ''['' # r) = CHR ''['' # r"
  "skip_blank (CHR ''{'' # r) = CHR ''{'' # r" "skip_blank [] = []"
  by (simp_all add: skip_blank_def)

lemma ends_number_simps [simp]:
  "ends_number []" "ends_number (CHR '','' # r)" "ends_number (CHR '']'' # r)" "ends_number (CHR ''}'' # r)"
  by (simp_all add: ends_number_def is_digit_def less_eq_char_def)

text \<open>The text of a value starts with a character that is no blank and closes nothing.\<close>

definition opens :: "string \<Rightarrow> bool" where
  "opens s \<longleftrightarrow> s \<noteq> [] \<and> hd s \<notin> {CHR 32, CHR 9, CHR 10, CHR 13, CHR '']'', CHR ''}''}"

lemma scan_number_first: "scan_number t = Some (v, r) \<Longrightarrow> t \<noteq> [] \<and> (hd t = CHR ''-'' \<or> is_digit (hd t))"
  by (cases t) (auto simp: scan_number_def scan_integer_def Let_def is_digit_def less_eq_char_def split: option.splits list.splits if_splits)

lemma scan_once_number:
  assumes "scan_number t = Some (v, [])" "ends_number r"
  shows "scan_once (t @ r) = Inr (v, r)" "opens t"
proof -
  from scan_number_first [OF assms(1)] obtain c cs where t: "t = c # cs" "c = CHR ''-'' \<or> is_digit c" by (cases t) auto
  then have "c \<notin> {CHR 0x22, CHR ''{'', CHR ''['', CHR 32, CHR 9, CHR 10, CHR 13, CHR '']'', CHR ''}''}" by (auto simp: is_digit_def less_eq_char_def)
  then show "scan_once (t @ r) = Inr (v, r)" "opens t"
    using scan_number_ends [OF assms] t by (auto simp: scan_once.simps scan_atom_def opens_def)
qed

lemma scan_once_constant:
  "scan_once (''null'' @ r) = Inr (PyNone, r)" "scan_once (''true'' @ r) = Inr (PyBool True, r)" "scan_once (''false'' @ r) = Inr (PyBool False, r)"
  by (simp_all add: scan_once.simps scan_atom_def scan_number_def scan_integer_def is_digit_def less_eq_char_def CONSTANTS_def starts_with_def)

lemma dict_set_new: "k \<notin> set (dict_keys d) \<Longrightarrow> dict_set k v d = d @ [(k, v)]"
  by (induction d) auto

lemma scan_dumps:
  "dumps v = Inr s \<Longrightarrow> readable v \<Longrightarrow> ends_number r \<Longrightarrow> scan_once (s @ r) = Inr (v, r) \<and> opens s"
  "dumps_list vs = Inr ss \<Longrightarrow> \<forall>v \<in> set vs. readable v \<Longrightarrow> vs \<noteq> [] \<Longrightarrow>
     scan_items (join_with (CHR '','') ss @ CHR '']'' # r) = Inr (vs, r) \<and> opens (join_with (CHR '','') ss)"
  "dumps_fields kvs = Inr ts \<Longrightarrow> \<forall>kv \<in> set kvs. readable (snd kv) \<Longrightarrow> kvs \<noteq> [] \<Longrightarrow> distinct (map fst (pre @ kvs)) \<Longrightarrow>
     \<exists>t. join_with (CHR '','') ts = CHR 0x22 # t \<and> scan_pairs pre (t @ CHR ''}'' # r) = Inr (pre @ kvs, r)"
proof (induction v and vs and kvs arbitrary: s r and ss r and ts r pre rule: dumps_dumps_list_dumps_fields.induct)
  case 1
  then show ?case using scan_once_constant(1) by (auto simp: opens_def)
next
  case (2 b)
  then show ?case using scan_once_constant(2,3) by (cases b) (auto simp: opens_def)
next
  case (3 i)
  then show ?case using scan_once_number [OF scan_number_int [of i]] by simp
next
  case (4 x)
  then show ?case using scan_once_number [OF scan_number_float [of x]] by simp
next
  case (5 x)
  then show ?case by (auto simp: json_string_def scan_once.simps scanstring_json opens_def)
next
  case (9 vs)
  then obtain ss where ss: "dumps_list vs = Inr ss" "s = CHR ''['' # join_with (CHR '','') ss @ '']''" by auto
  show ?case
  proof (cases "vs = []")
    case False
    then have i: "scan_items (join_with (CHR '','') ss @ CHR '']'' # r) = Inr (vs, r)" "opens (join_with (CHR '','') ss)"
      using 9(1) [OF ss(1)] 9(3) by auto
    then obtain c u where "join_with (CHR '','') ss = c # u" "c \<notin> {CHR 32, CHR 9, CHR 10, CHR 13, CHR '']'', CHR ''}''}"
      by (cases "join_with (CHR '','') ss") (auto simp: opens_def)
    then show ?thesis using i(1) ss(2) by (simp add: scan_once.simps skip_blank_Cons opens_def)
  qed (use ss in \<open>simp add: scan_once.simps opens_def\<close>)
next
  case (10 kvs)
  then obtain ts where ts: "dumps_fields kvs = Inr ts" "s = CHR ''{'' # join_with (CHR '','') ts @ ''}''" by auto
  show ?case
  proof (cases "kvs = []")
    case False
    then obtain t where "join_with (CHR '','') ts = CHR 0x22 # t" "scan_pairs [] (t @ CHR ''}'' # r) = Inr (kvs, r)"
      using 10(1) [OF ts(1), of "[]" r] 10(3) by auto
    then show ?thesis using ts(2) by (simp add: scan_once.simps opens_def)
  qed (use ts in \<open>simp add: scan_once.simps opens_def\<close>)
next
  case (12 v vs)
  then obtain s us where s: "dumps v = Inr s" "dumps_list vs = Inr us" "ss = s # us" by auto
  show ?case
  proof (cases vs)
    case Nil
    then show ?thesis using 12(1) [OF s(1), of "CHR '']'' # r"] 12(4) s by (simp add: scan_items.simps)
  next
    case (Cons w ws)
    then obtain x xs where us: "us = x # xs" using s(2) by auto
    have i: "scan_items (join_with (CHR '','') us @ CHR '']'' # r) = Inr (vs, r)" "opens (join_with (CHR '','') us)"
      using 12(2) [OF s(2), of r] 12(4) Cons by auto
    have "skip_blank (join_with (CHR '','') us @ CHR '']'' # r) = join_with (CHR '','') us @ CHR '']'' # r"
      using i(2) by (cases "join_with (CHR '','') us") (auto simp: opens_def skip_blank_Cons)
    then show ?thesis using 12(1) [OF s(1), of "CHR '','' # join_with (CHR '','') us @ CHR '']'' # r"] 12(4) i(1) s(3) us
      by (simp add: scan_items.simps [of "s @ _"] opens_def)
  qed
next
  case (14 kv kvs)
  obtain k v where kv: "kv = (k, v)" by (rule prod.exhaust)
  then obtain s us where s: "dumps v = Inr s" "dumps_fields kvs = Inr us" "ts = (json_string k @ '':'' @ s) # us" using 14(3) by auto
  have new: "dict_set k v pre = pre @ [(k, v)]" using 14(6) kv by (intro dict_set_new) auto
  have k: "scanstring (concat (map json_char k) @ CHR 0x22 # CHR '':'' # u) = Inr (k, CHR '':'' # u)" for u by (rule scanstring_json)
  have v: "scan_once (skip_blank (s @ u)) = Inr (v, u)" if "ends_number u" for u
  proof -
    have "scan_once (s @ u) = Inr (v, u)" "opens s" using 14(1) [of s u] s(1) 14(4) that kv by auto
    then show ?thesis by (cases s) (auto simp: opens_def skip_blank_Cons)
  qed
  show ?case
  proof (cases kvs)
    case Nil
    then show ?thesis using s kv new v [of "CHR ''}'' # r"]
      by (intro exI [of _ "concat (map json_char k) @ CHR 0x22 # CHR '':'' # s"]) (simp add: json_string_def scan_pairs.simps k)
  next
    case (Cons w ws)
    then obtain x xs where us: "us = x # xs" using s(2) by auto
    have "distinct (map fst (dict_set k v pre @ kvs))" using 14(6) kv new by simp
    then obtain t where t: "join_with (CHR '','') us = CHR 0x22 # t" "scan_pairs (dict_set k v pre) (t @ CHR ''}'' # r) = Inr (dict_set k v pre @ kvs, r)"
      using 14(2) [OF s(2), of "dict_set k v pre" r] 14(4) Cons kv by auto
    have j: "join_with (CHR '','') ts = CHR 0x22 # concat (map json_char k) @ CHR 0x22 # CHR '':'' # s @ CHR '','' # CHR 0x22 # t"
      using s(3) us t(1) by (simp add: json_string_def)
    show ?thesis unfolding j using t(2) new kv v [of "CHR '','' # CHR 0x22 # t @ CHR ''}'' # r"]
      by (intro exI [of _ "concat (map json_char k) @ CHR 0x22 # CHR '':'' # s @ CHR '','' # CHR 0x22 # t"]) (simp add: scan_pairs.simps [of pre] k)
  qed
qed simp_all

lemma readable_dumps:
  "readable v \<Longrightarrow> \<exists>s. dumps v = Inr s"
  "\<forall>v \<in> set vs. readable v \<Longrightarrow> \<exists>ss. dumps_list vs = Inr ss"
  "\<forall>kv \<in> set kvs. readable (snd kv) \<Longrightarrow> \<exists>ts. dumps_fields kvs = Inr ts"
  by (induction v and vs and kvs rule: dumps_dumps_list_dumps_fields.induct) auto

text \<open>Whatever \<^verbatim>\<open>json.dumps\<close> writes, \<^verbatim>\<open>json.loads\<close> gives back.\<close>

lemma loads_dumps:
  assumes "dumps v = Inr s" "readable v"
  shows "loads foreign s = Inr v"
proof -
  have "scan_once s = Inr (v, [])" "opens s" using scan_dumps(1) [OF assms, of "[]"] by simp_all
  moreover from this(2) have "skip_blank s = s" by (cases s) (auto simp: opens_def skip_blank_Cons)
  ultimately show ?thesis by (simp add: loads_def raw_loads_def)
qed

end
