(* ===== verification/Replay.thy ===== *)
theory Replay
  imports Pipeline Json
begin

text \<open>
  \<^verbatim>\<open>stream_pipeline/replay\<close>: the production pipeline builder, the replay driver and the
  command line. The world of the production pipeline holds the two objects its handlers
  and its detector share: the device registry and the offline detector.
\<close>

subsection \<open>The production pipeline\<close>

record control_plane =
  cp_registry :: device_registry
  cp_offline :: offline_detector

definition DEVICE_REGISTRATION :: "string \<times> string" where "DEVICE_REGISTRATION = (''device.registration'', ''v1'')"

definition SIP_REGISTRATION :: "string \<times> string" where "SIP_REGISTRATION = (''sip.registration'', ''v1'')"

definition registry_handler :: "control_plane handler" where
  "registry_handler = \<lparr>h_qualname = ''DeviceRegistry.observe_registration'',
     h_call = (\<lambda>w ev. case observe_registration (cp_registry w) ev of (r, res) \<Rightarrow> (w\<lparr>cp_registry := r\<rparr>, res))\<rparr>"

text \<open>\<^verbatim>\<open>getattr(event.payload, "device_id", None)\<close>; a device id is a UUID in every contract that has one.\<close>

definition payload_device_id :: "event \<Rightarrow> uuid option res" where
  "payload_device_id ev = (case get_attr (ev_payload ev) ''device_id'' of Some (PyUUID u) \<Rightarrow> Inr (Some u) | _ \<Rightarrow> Inr None)"

definition offline_observer :: "datetime \<Rightarrow> control_plane event_observer" where
  "offline_observer now = \<lparr>ed_name = ''offline'',
     ed_observe_event = (\<lambda>w ev.
       case offline_observe_event now payload_device_id (store_for (cp_registry w)) (cp_offline w) ev of
         (d, res) \<Rightarrow> (w\<lparr>cp_offline := d\<rparr>, res))\<rparr>"

definition production_build_pipeline ::
  "datetime \<Rightarrow> (pyval \<Rightarrow> string) \<Rightarrow> platform_settings \<Rightarrow> (control_plane pipeline \<times> control_plane) res" where
  "production_build_pipeline now repr settings =
     bind_res (watermark_manager_init (late_event_tolerance_seconds settings)) (\<lambda>watermarks.
     let r0 = event_router_init False;
         (r1, x1) = router_register r0 (fst DEVICE_REGISTRATION) (snd DEVICE_REGISTRATION) True registry_handler;
         (r2, x2) = router_register r1 (fst SIP_REGISTRATION) (snd SIP_REGISTRATION) True registry_handler
     in bind_res x1 (\<lambda>_. bind_res x2 (\<lambda>_.
        bind_res (offline_detector_init (offline_threshold_seconds settings)) (\<lambda>det.
          Inr (register_event_detector (pipeline_init r2 watermarks (by_payload_field repr ''store_id'') False)
                 (offline_observer now),
               \<lparr>cp_registry = device_registry_init, cp_offline = det\<rparr>)))))"

subsection \<open>The driver\<close>

definition replay_log :: "platform_settings \<Rightarrow> nat \<Rightarrow> processing_result list \<Rightarrow> log_line" where
  "replay_log replay_settings n_events results =
     \<lparr>lg_level = ''INFO'', lg_message = ''replay completed'', lg_event_type = ''replay.completed'', lg_trace_id = None,
      lg_metadata = [(''environment'', PyStr (environment replay_settings)), (''events'', PyInt (int n_events)),
        (''results'', PyInt (int (length results))),
        (''detections'', PyInt (int (sum_list (map (length \<circ> pr_detections) results)))),
        (''emissions'', PyInt (int (sum_list (map (length \<circ> pr_emissions) results))))]\<rparr>"

definition run_replay ::
  "datetime \<Rightarrow> uuid \<Rightarrow> (platform_settings \<Rightarrow> ('w pipeline \<times> 'w) res) \<Rightarrow> platform_settings \<Rightarrow> event list \<Rightarrow>
     (processing_result list \<times> log_line list) res" where
  "run_replay now fresh build_pipeline settings events =
     bind_res (for_replay settings ''replay'') (\<lambda>replay_settings.
     bind_res (build_pipeline replay_settings) (\<lambda>(p, w).
       case process_batch now fresh p w events of
         (_, Inl e) \<Rightarrow> Inl e
       | ((_, _, logs), Inr results) \<Rightarrow>
           Inr (results, logs @ [replay_log replay_settings (length events) results])))"

subsection \<open>The command line\<close>

text \<open>A parsed configuration: the optional block of environment variables and the optional window.\<close>

record replay_config =
  rc_settings :: "env option"
  rc_window :: "pyval option"

text \<open>The archive reader of this package is deliberately absent (the dash of the message is written in ASCII).\<close>

definition build_event_source :: "pyval \<Rightarrow> event list res" where
  "build_event_source window = Inl (Exn ''NotImplementedError''
     (''The production EventBridge-archive reader lives in aws-event-pipeline-infra, not this package - see this '' @
      ''function'' @ [CHR 0x27] @ ''s own docstring. Inject an event source via build_event_source= to run a replay without it.''))"

definition run_from_config ::
  "datetime \<Rightarrow> uuid \<Rightarrow> (pyval \<Rightarrow> event list res) \<Rightarrow> (platform_settings \<Rightarrow> ('w pipeline \<times> 'w) res) \<Rightarrow> replay_config \<Rightarrow>
     (processing_result list \<times> log_line list) res" where
  "run_from_config now fresh event_source build_pipeline config =
     bind_res (from_env (case rc_settings config of None \<Rightarrow> [] | Some env \<Rightarrow> env)) (\<lambda>settings.
     bind_res (event_source (case rc_window config of None \<Rightarrow> PyDict [] | Some window \<Rightarrow> window)) (\<lambda>events.
       run_replay now fresh build_pipeline settings events))"

text \<open>
  Reading the configuration: \<open>read_text\<close> opens the file, which may raise. The settings block is
  declared to map strings to strings; what a block of other values does is the parameter \<open>untyped\<close>.
\<close>

definition config_of :: "(pyval \<Rightarrow> replay_config res) \<Rightarrow> pyval \<Rightarrow> replay_config res" where
  "config_of untyped v =
     (case v of
        PyDict d \<Rightarrow>
          (case dict_get d ''settings'' of
             None \<Rightarrow> Inr \<lparr>rc_settings = None, rc_window = dict_get d ''window''\<rparr>
           | Some (PyDict kvs) \<Rightarrow>
               if list_all (\<lambda>kv. case snd kv of PyStr _ \<Rightarrow> True | _ \<Rightarrow> False) kvs
               then Inr \<lparr>rc_settings = Some (map (\<lambda>(k, v). (k, case v of PyStr s \<Rightarrow> s | _ \<Rightarrow> [])) kvs), rc_window = dict_get d ''window''\<rparr>
               else untyped v
           | Some _ \<Rightarrow> untyped v)
      | _ \<Rightarrow> Inl (AttributeError (repr_str (type_name v) @ '' object has no attribute '' @ repr_str ''get'')))"

definition load_config ::
  "(string \<Rightarrow> string res) \<Rightarrow> (string \<Rightarrow> pyval res) \<Rightarrow> (pyval \<Rightarrow> replay_config res) \<Rightarrow> string \<Rightarrow> replay_config res" where
  "load_config read_text foreign untyped path =
     bind_res (read_text path) (\<lambda>text. bind_res (loads foreign text) (config_of untyped))"

text \<open>The process exit code; \<open>load\<close> reads and parses the named file.\<close>

definition replay_main ::
  "datetime \<Rightarrow> uuid \<Rightarrow> (string \<Rightarrow> replay_config res) \<Rightarrow> (pyval \<Rightarrow> event list res) \<Rightarrow> (platform_settings \<Rightarrow> ('w pipeline \<times> 'w) res) \<Rightarrow>
     string list \<Rightarrow> nat res" where
  "replay_main now fresh load event_source build_pipeline args =
     (case args of
        [path] \<Rightarrow>
          bind_res (load path) (\<lambda>config.
          bind_res (run_from_config now fresh event_source build_pipeline config) (\<lambda>_. Inr 0))
      | _ \<Rightarrow> Inr 2)"

subsection \<open>Replay reproduces the live run\<close>

lemma build_depends_on:
  "late_event_tolerance_seconds s = late_event_tolerance_seconds s' \<Longrightarrow> offline_threshold_seconds s = offline_threshold_seconds s' \<Longrightarrow>
   production_build_pipeline now repr s = production_build_pipeline now repr s'"
  by (simp add: production_build_pipeline_def)

definition production_pipeline :: "datetime \<Rightarrow> (pyval \<Rightarrow> string) \<Rightarrow> platform_settings \<Rightarrow> control_plane pipeline" where
  "production_pipeline now repr s =
     \<lparr>pl_router = \<lparr>er_handlers = [(RouteKey ''device.registration'' ''v1'', [registry_handler]),
          (RouteKey ''sip.registration'' ''v1'', [registry_handler])], er_strict = False\<rparr>,
      pl_watermarks = \<lparr>wm_lateness = seconds (late_event_tolerance_seconds s), wm_high_event_ts = []\<rparr>,
      pl_extract = by_payload_field repr ''store_id'', pl_strict = False, pl_aggregators = [],
      pl_event_detectors = [offline_observer now], pl_emission_detectors = [], pl_dataset_writer = None,
      pl_alert_router = None\<rparr>"

definition production_world :: "platform_settings \<Rightarrow> control_plane" where
  "production_world s = \<lparr>cp_registry = device_registry_init,
     cp_offline = \<lparr>od_threshold_seconds = offline_threshold_seconds s, od_last_seen = [], od_state = []\<rparr>\<rparr>"

lemma build_ok:
  "settings_valid s \<Longrightarrow> production_build_pipeline now repr s = Inr (production_pipeline now repr s, production_world s)"
  by (simp add: production_build_pipeline_def settings_valid_def watermark_manager_init_def offline_detector_init_def
      router_register_def event_router_init_def DEVICE_REGISTRATION_def SIP_REGISTRATION_def register_event_detector_def
      pipeline_init_def dict_append_def dict_get_default_def production_pipeline_def production_world_def)

lemma run_replay_live:
  assumes "settings_valid s"
  shows "\<exists>p w. production_build_pipeline now repr s = Inr (p, w) \<and>
     (case process_batch now fresh p w evs of
        (_, Inl e) \<Rightarrow> run_replay now fresh (production_build_pipeline now repr) s evs = Inl e
      | ((_, _, logs), Inr results) \<Rightarrow>
          (\<exists>r. for_replay s ''replay'' = Inr r \<and>
             run_replay now fresh (production_build_pipeline now repr) s evs =
               Inr (results, logs @ [replay_log r (length evs) results])))"
proof -
  let ?r = "s\<lparr>environment := ''replay'', dataset_bucket := replay_dataset_bucket s, alert_bus := replay_alert_bus s,
      projection_table := replay_projection_table s\<rparr>"
  have r: "for_replay s ''replay'' = Inr ?r"
    using assms by (auto simp: for_replay_def settings_init_Inr settings_valid_def)
  have b: "production_build_pipeline now repr ?r = production_build_pipeline now repr s"
    by (rule build_depends_on) simp_all
  show ?thesis
    using build_ok [OF assms, of now repr] r b
    by (auto simp: run_replay_def split: prod.split sum.split)
qed



subsection \<open>The command\<close>

definition config_value :: "env \<Rightarrow> pyval \<Rightarrow> pyval" where
  "config_value env window = PyDict [(''settings'', PyDict (map (\<lambda>(k, v). (k, PyStr v)) env)), (''window'', window)]"

lemma config_of_value: "config_of untyped (config_value env window) = Inr \<lparr>rc_settings = Some env, rc_window = Some window\<rparr>"
  by (induction env) (auto simp: config_of_def config_value_def list_all_iff split: if_splits)

text \<open>
  C15: the replay command from its file to its exit code. Given the path of a file that holds
  the JSON of a settings block and a window, the command reads both back, fetches the
  events of that window, and exits with 0 exactly when the live pipeline of these settings
  processes them; otherwise it ends with the error the live pipeline raises.
\<close>

theorem replay_command:
  assumes "dumps (config_value env window) = Inr content" "distinct (map fst env)" "readable window"
    and "read_text path = Inr content" "from_env env = Inr s" "event_source window = Inr evs"
  shows "\<exists>p w. production_build_pipeline now repr s = Inr (p, w) \<and>
     replay_main now fresh (load_config read_text foreign untyped) event_source (production_build_pipeline now repr) [path] =
       (case snd (process_batch now fresh p w evs) of Inl e \<Rightarrow> Inl e | Inr _ \<Rightarrow> Inr 0)"
proof -
  have "readable (config_value env window)" using assms(2,3) by (auto simp: config_value_def comp_def case_prod_beta)
  with assms(1) have "loads foreign content = Inr (config_value env window)" by (rule loads_dumps)
  then have l: "load_config read_text foreign untyped path = Inr \<lparr>rc_settings = Some env, rc_window = Some window\<rparr>"
    using assms(4) config_of_value by (simp add: load_config_def)
  have v: "settings_valid s" using assms(5) by (auto simp: from_env_def settings_init_Inr)
  obtain p w where b: "production_build_pipeline now repr s = Inr (p, w)"
    and run: "case process_batch now fresh p w evs of
        (_, Inl e) \<Rightarrow> run_replay now fresh (production_build_pipeline now repr) s evs = Inl e
      | ((_, _, logs), Inr results) \<Rightarrow> (\<exists>r. for_replay s ''replay'' = Inr r \<and>
          run_replay now fresh (production_build_pipeline now repr) s evs = Inr (results, logs @ [replay_log r (length evs) results]))"
    using run_replay_live [OF v, of now repr fresh evs] by (elim exE conjE) (rule that)
  obtain p' w' logs r where pb: "process_batch now fresh p w evs = ((p', w', logs), r)" by (metis prod_cases4 surj_pair)
  then have "bind_res (run_replay now fresh (production_build_pipeline now repr) s evs) (\<lambda>_. Inr 0) = (case r of Inl e \<Rightarrow> Inl e | Inr _ \<Rightarrow> Inr 0)"
    using run by (cases r) auto
  then show ?thesis using l assms(5,6) b pb by (auto simp: replay_main_def run_from_config_def)
qed

theorem replay_command_witness:
  "\<exists>content. dumps (config_value [(''SF_ENV'', ''prod'')] (PyDict [(''start'', PyInt 0)])) = Inr content \<and>
     replay_main (UTC 0) 7 (load_config (\<lambda>_. Inr content) (\<lambda>_. Inl foreign_text) (\<lambda>_. Inl foreign_text)) (\<lambda>_. Inr [])
       (production_build_pipeline (UTC 0) type_name) [''replay.json''] = Inr 0"
proof -
  let ?w = "PyDict [(''start'', PyInt 0)]" and ?env = "[(''SF_ENV'', ''prod'')]"
  have "\<exists>content. dumps (config_value ?env ?w) = Inr content" by (simp add: config_value_def)
  then obtain content where t: "dumps (config_value ?env ?w) = Inr content" ..
  have "\<not> isl (from_env ?env)" by code_simp
  then obtain s where s: "from_env ?env = Inr s" by (cases "from_env ?env") auto
  have d: "distinct (map fst ?env)" "readable ?w" by simp_all
  obtain p and w :: control_plane where "replay_main (UTC 0) 7 (load_config (\<lambda>_. Inr content) (\<lambda>_. Inl foreign_text) (\<lambda>_. Inl foreign_text)) (\<lambda>_. Inr [])
       (production_build_pipeline (UTC 0) type_name) [''replay.json''] =
       (case snd (process_batch (UTC 0) 7 p w []) of Inl e \<Rightarrow> Inl e | Inr _ \<Rightarrow> Inr 0)"
    using replay_command [where read_text = "\<lambda>_. Inr content" and event_source = "\<lambda>_. Inr []" and path = "''replay.json''" and now = "UTC 0"
        and repr = type_name and fresh = 7 and foreign = "\<lambda>_. Inl foreign_text" and untyped = "\<lambda>_. Inl foreign_text", OF t d refl s refl]
    by (elim exE conjE) (rule that)
  then show ?thesis using t by (auto simp: process_batch_def)
qed

subsection \<open>What the production pipeline detects\<close>

definition device_of :: "event \<Rightarrow> uuid option" where
  "device_of ev = (case get_attr (ev_payload ev) ''device_id'' of Some (PyUUID u) \<Rightarrow> Some u | _ \<Rightarrow> None)"

lemma payload_device_id_of: "payload_device_id ev = Inr (device_of ev)"
  by (simp add: payload_device_id_def device_of_def split: option.split pyval.split)

text \<open>A registration event that the contracts admit, of either type the builder wires.\<close>

definition registration :: "datetime \<Rightarrow> event \<Rightarrow> bool" where
  "registration now ev \<longleftrightarrow> event_fits now ev \<and> device_of ev \<noteq> None \<and>
     requested_key ev \<in> {RouteKey ''device.registration'' ''v1'', RouteKey ''sip.registration'' ''v1''} \<and>
     (\<exists>k. get_attr (ev_payload ev) ''store_id'' = Some (PyStr k) \<and> k \<noteq> [])"

text \<open>The history of a device: its last event, and the events of others since then.\<close>

definition since :: "event list \<Rightarrow> uuid \<Rightarrow> event list" where
  "since evs d = takeWhile (\<lambda>e. device_of e \<noteq> Some d) (rev evs)"

definition last_sighting :: "event list \<Rightarrow> uuid \<Rightarrow> datetime option" where
  "last_sighting evs d =
     (case dropWhile (\<lambda>e. device_of e \<noteq> Some d) (rev evs) of [] \<Rightarrow> None | e # _ \<Rightarrow> Some (ev_event_timestamp e))"

definition device_state_of :: "int \<Rightarrow> event list \<Rightarrow> uuid \<Rightarrow> device_state option" where
  "device_state_of threshold evs d =
     map_option (\<lambda>t. if \<exists>e \<in> set (since evs d). seconds threshold < instant (ev_event_timestamp e) - instant t
                     then Offline else Seen) (last_sighting evs d)"

lemma since_snoc: "since (evs @ [e]) d = (if device_of e = Some d then [] else e # since evs d)"
  by (simp add: since_def)

lemma last_sighting_snoc:
  "last_sighting (evs @ [e]) d = (if device_of e = Some d then Some (ev_event_timestamp e) else last_sighting evs d)"
  by (simp add: last_sighting_def)

definition tracks :: "int \<Rightarrow> event list \<Rightarrow> control_plane \<Rightarrow> bool" where
  "tracks threshold evs w \<longleftrightarrow> registry_inv (cp_registry w) \<and> offline_inv (cp_offline w) \<and>
     od_threshold_seconds (cp_offline w) = threshold \<and>
     (\<forall>d. dict_get (od_last_seen (cp_offline w)) d = last_sighting evs d) \<and>
     (\<forall>d. dict_get (od_state (cp_offline w)) d = device_state_of threshold evs d) \<and>
     (\<forall>d. last_sighting evs d \<noteq> None \<longrightarrow> located (store_for (cp_registry w)) d)"

lemma offline_scan_threshold:
  "od_threshold_seconds (fst (offline_scan now lk ev known det acc)) = od_threshold_seconds det"
proof (induction known arbitrary: det acc)
  case (Cons p known)
  then show ?case by (cases p) (auto simp: Let_def split: option.split sum.split)
qed simp

lemma offline_observe_threshold:
  "od_threshold_seconds (fst (offline_observe_event now ex lk det ev)) = od_threshold_seconds det"
proof -
  have "od_threshold_seconds (fst (offline_scan now lk ev known (det\<lparr>od_last_seen := a, od_state := b\<rparr>) acc)) =
      od_threshold_seconds det" for known a b acc
    by (simp add: offline_scan_threshold)
  then show ?thesis
    by (auto simp: offline_observe_event_def Let_def split: sum.split option.split prod.split) (metis fst_conv)+
qed

lemma silent_devices:
  assumes t: "tracks threshold evs w" and d: "d \<noteq> u"
    and loc: "last_sighting evs d \<noteq> None \<Longrightarrow> located lk d"
  shows "d \<in> set (overdue (sighted (cp_offline w) u ts) lk ts (od_last_seen (sighted (cp_offline w) u ts))) \<longleftrightarrow>
     (\<exists>t. last_sighting evs d = Some t \<and> device_state_of threshold evs d = Some Seen \<and> seconds threshold < instant ts - instant t)"
proof -
  let ?ls = "od_last_seen (sighted (cp_offline w) u ts)"
  have ok: "dict_ok ?ls" using t by (simp add: tracks_def offline_inv_def sighted_def)
  have "dict_get ?ls d = last_sighting evs d" using t d by (simp add: tracks_def sighted_def)
  then have mem: "(d, x) \<in> set ?ls \<longleftrightarrow> last_sighting evs d = Some x" for x
    using dict_in_get [OF ok, of d x] dict_get_in [of ?ls d x] by auto
  have st: "dict_get (od_state (sighted (cp_offline w) u ts)) d = device_state_of threshold evs d"
      "od_threshold_seconds (sighted (cp_offline w) u ts) = threshold"
    using t d by (simp_all add: tracks_def sighted_def)
  have "d \<in> set (overdue (sighted (cp_offline w) u ts) lk ts ?ls) \<longleftrightarrow> (\<exists>x. (d, x) \<in> set ?ls \<and>
      device_state_of threshold evs d = Some Seen \<and> seconds threshold < instant ts - instant x \<and> located lk d)"
    using st by (auto simp: overdue_def)
  then show ?thesis unfolding mem using loc by auto
qed

lemma registration_effect:
  assumes inv: "registry_inv r" and ev: "registration now ev"
  obtains u k where "device_of ev = Some u" "k \<noteq> []" "payload_device_id ev = Inr (Some u)"
    "get_attr (ev_payload ev) ''store_id'' = Some (PyStr k)"
    "observe_registration r ev = (fst (bind_device r u k), Inr ())" "registry_inv (fst (bind_device r u k))"
    "store_for (fst (bind_device r u k)) = (store_for r)(u \<mapsto> k)"
proof -
  obtain u k where u: "device_of ev = Some u" and k: "get_attr (ev_payload ev) ''store_id'' = Some (PyStr k)" "k \<noteq> []"
    using ev by (auto simp: registration_def)
  have attr: "get_attr (ev_payload ev) ''device_id'' = Some (PyUUID u)"
    using u by (simp add: device_of_def split: option.splits pyval.splits)
  show thesis
    by (rule that [OF u k(2) _ k(1)])
      (use bind_device_spec [OF inv, of u k] attr k(1) u in \<open>auto simp: payload_device_id_of observe_registration_def
        attr_uuid_def attr_str_def prod_eq_iff\<close>)
qed

lemma observe_step:
  assumes t: "tracks threshold evs w" and ev: "registration now ev"
  obtains reg det ds where "observe_registration (cp_registry w) ev = (reg, Inr ())"
    "offline_observe_event now payload_device_id (store_for reg) (cp_offline w) ev = (det, Inr ds)"
    "tracks threshold (evs @ [ev]) \<lparr>cp_registry = reg, cp_offline = det\<rparr>"
    "\<And>d. alternating (device_state_of threshold evs d = Some Offline) (map is_offline (filter (of_device d) ds))
         (device_state_of threshold (evs @ [ev]) d = Some Offline)"
proof -
  have inv: "registry_inv (cp_registry w)" "offline_inv (cp_offline w)" and fits: "event_fits now ev"
    using t ev by (simp_all add: tracks_def registration_def)
  obtain u k where u: "device_of ev = Some u" "k \<noteq> []" "payload_device_id ev = Inr (Some u)"
      "observe_registration (cp_registry w) ev = (fst (bind_device (cp_registry w) u k), Inr ())"
      "registry_inv (fst (bind_device (cp_registry w) u k))"
      "store_for (fst (bind_device (cp_registry w) u k)) = (store_for (cp_registry w))(u \<mapsto> k)"
    using registration_effect [OF inv(1) ev] by metis
  let ?reg = "fst (bind_device (cp_registry w) u k)" and ?ts = "ev_event_timestamp ev" and ?det = "cp_offline w"
  let ?silent = "overdue (sighted ?det u ?ts) (store_for ?reg) ?ts (od_last_seen (sighted ?det u ?ts))"
  have loc: "last_sighting (evs @ [ev]) d \<noteq> None \<Longrightarrow> located (store_for ?reg) d" for d
    using t u(1,2) by (auto simp: tracks_def last_sighting_snoc u(6) located_def)
  obtain det ds where o: "offline_observe_event now payload_device_id (store_for ?reg) ?det ev = (det, Inr ds)" "offline_inv det"
      "od_last_seen det = dict_set u ?ts (od_last_seen ?det)"
      "\<And>e. dict_get (od_state det) e = (if e = u then Some Seen else if e \<in> set ?silent then Some Offline else dict_get (od_state ?det) e)"
      "map report ds = (if dict_get (od_state ?det) u = Some Offline \<and> located (store_for ?reg) u
         then [(DETECTION_TYPE_DEVICE_ONLINE, Some u, the (store_for ?reg u))] else []) @
        map (\<lambda>e. (DETECTION_TYPE_DEVICE_OFFLINE, Some e, the (store_for ?reg e))) ?silent"
    using offline_observe_spec [where extractor = payload_device_id and lk = "store_for ?reg", OF inv(2) fits u(3)] by auto
  have th: "od_threshold_seconds det = threshold"
    using offline_observe_threshold [of now payload_device_id "store_for ?reg" ?det ev] o(1) t by (simp add: tracks_def)
  have ls: "dict_get (od_last_seen det) d = last_sighting (evs @ [ev]) d" for d
    using t u(1) by (auto simp: o(3) tracks_def last_sighting_snoc)
  have st: "dict_get (od_state det) d = device_state_of threshold (evs @ [ev]) d" for d
  proof (cases "d = u")
    case True
    then show ?thesis using u(1) by (simp add: o(4) device_state_of_def last_sighting_snoc since_snoc)
  next
    case False
    have "last_sighting evs d \<noteq> None \<Longrightarrow> located (store_for ?reg) d" using loc [of d] u(1) False by (simp add: last_sighting_snoc)
    note silent = silent_devices [OF t False this, of ?ts]
    have old: "dict_get (od_state ?det) d = device_state_of threshold evs d" using t by (simp add: tracks_def)
    show ?thesis
      using False u(1) silent old
      by (cases "last_sighting evs d") (auto simp: o(4) device_state_of_def last_sighting_snoc since_snoc)
  qed
  show thesis
  proof (rule that [OF u(4) o(1)])
    show "tracks threshold (evs @ [ev]) \<lparr>cp_registry = ?reg, cp_offline = det\<rparr>"
      using u(5) o(2) th ls st loc by (simp add: tracks_def)
    show "alternating (device_state_of threshold evs d = Some Offline) (map is_offline (filter (of_device d) ds))
        (device_state_of threshold (evs @ [ev]) d = Some Offline)" for d
    proof (cases "last_sighting (evs @ [ev]) d")
      case None
      then have d: "d \<noteq> u" "last_sighting evs d = None" using u(1) by (auto simp: last_sighting_snoc split: if_splits)
      then have "d \<notin> set ?silent" using silent_devices [OF t d(1), of "store_for ?reg" ?ts] by simp
      then have "map is_offline (filter (of_device d) ds) = []"
        unfolding reports_of_device o(5) using d(1) by (auto simp: filter_empty_conv)
      then show ?thesis using None d(2) by (simp add: device_state_of_def)
    next
      case (Some x)
      then have "located (store_for ?reg) d" using loc by simp
      from offline_step_device [where extractor = payload_device_id, OF inv(2) fits u(3) this] o(1) st [of d] t
      show ?thesis by (auto simp: tracks_def)
    qed
  qed
qed

lemma production_process:
  assumes t: "tracks threshold evs w" and ev: "registration now ev"
  obtains m' w' logs r where
    "process now fresh ((production_pipeline now repr s)\<lparr>pl_watermarks := m\<rparr>) w ev =
       (((production_pipeline now repr s)\<lparr>pl_watermarks := m'\<rparr>, w', logs), Inr r)"
    "tracks threshold (evs @ [ev]) w'"
    "\<And>d. alternating (device_state_of threshold evs d = Some Offline) (map is_offline (filter (of_device d) (pr_detections r)))
         (device_state_of threshold (evs @ [ev]) d = Some Offline)"
proof -
  let ?p = "\<lambda>m. (production_pipeline now repr s)\<lparr>pl_watermarks := m\<rparr>"
  obtain reg det ds where st: "observe_registration (cp_registry w) ev = (reg, Inr ())"
      "offline_observe_event now payload_device_id (store_for reg) (cp_offline w) ev = (det, Inr ds)"
      "tracks threshold (evs @ [ev]) \<lparr>cp_registry = reg, cp_offline = det\<rparr>"
      "\<And>d. alternating (device_state_of threshold evs d = Some Offline) (map is_offline (filter (of_device d) ds))
         (device_state_of threshold (evs @ [ev]) d = Some Offline)"
    using observe_step [OF t ev] by metis
  obtain k where k: "get_attr (ev_payload ev) ''store_id'' = Some (PyStr k)" "k \<noteq> []" using ev by (auto simp: registration_def)
  have key: "extract_key (?p m) ev = Inr k" for m
    using k by (cases "ev_payload ev") (simp_all add: extract_key_def production_pipeline_def by_payload_field_def)
  have "aware (ev_event_timestamp ev)" using ev by (simp add: registration_def event_fits_def stamp_fits_def utc_ok_aware)
  then obtain m' ob where wm: "wm_observe m k (ev_event_timestamp ev) = (m', Inr ob)"
    using wm_observe_ok [OF k(2), of "ev_event_timestamp ev" m] by (metis prod.collapse)
  have agg: "aggregation_stage (?p m') ev k ob w = ((w, []), Inr [])"
    by (simp add: aggregation_stage_def production_pipeline_def)
  have call: "h_call registry_handler w ev = (w\<lparr>cp_registry := reg\<rparr>, Inr ())" by (simp add: registry_handler_def st(1))
  obtain ls dr where disp: "dispatch (pl_router (?p m')) w ev = ((w\<lparr>cp_registry := reg\<rparr>, ls), Inr dr)"
    using ev call by (auto simp: registration_def dispatch_def find_handlers_def production_pipeline_def Let_def)
  have det: "event_detection_stage (?p m') ev (w\<lparr>cp_registry := reg\<rparr>) ls = ((\<lparr>cp_registry = reg, cp_offline = det\<rparr>, ls), Inr ds)"
    by (simp add: event_detection_stage_def production_pipeline_def call_event_detector_def offline_observer_def st(2))
  have rest: "emission_detection_stage (?p m') ev [] ds w l = ((w, l), Inr ds)" "alert_stage (?p m') ev ds w l = ((w, l), Inr [])"
      "writer_stage (?p m') ev k r w l = ((w, l), Inr r)" for r w l
    by (simp_all add: emission_detection_stage_def emission_calls_def alert_stage_def writer_stage_def production_pipeline_def)
  have "downstream now fresh (?p m') ev k ob [] w [] = ((\<lparr>cp_registry = reg, cp_offline = det\<rparr>,
      ls @ [processed_log ev k ob dr 0 (length ds)]), Inr \<lparr>pr_event_id = event_id_of ev, pr_partition_key = Some k,
        pr_classification = Some (wo_classification ob), pr_handlers_invoked = handlers_invoked dr,
        pr_handler_failures = handler_failures dr, pr_emissions = [], pr_detections = ds, pr_alerts = [],
        pr_extraction_failed = False, pr_features = []\<rparr>)"
    unfolding downstream_def disp by (simp add: det rest bundle_feature_events_def)
  then show thesis
    using that [of m' "\<lparr>cp_registry = reg, cp_offline = det\<rparr>"] key [of m] wm agg st(3,4) by (simp add: process_def Let_def)
qed

lemma production_batch:
  "tracks threshold evs w \<Longrightarrow> \<forall>ev \<in> set es. registration now ev \<Longrightarrow>
   \<exists>p' w' logs' new c'. batch_loop now fresh ((production_pipeline now repr s)\<lparr>pl_watermarks := m\<rparr>) w logs es rs c =
       ((p', w', logs'), Inr (rs @ new, c')) \<and> length new = length es \<and> tracks threshold (evs @ es) w' \<and>
     (\<forall>d. alternating (device_state_of threshold evs d = Some Offline)
          (map is_offline (filter (of_device d) (concat (map pr_detections new))))
          (device_state_of threshold (evs @ es) d = Some Offline))"
proof (induction es arbitrary: evs w m logs rs c)
  case (Cons ev es)
  have ev: "registration now ev" using Cons.prems(2) by simp
  obtain m1 w1 ls r where s: "process now fresh ((production_pipeline now repr s)\<lparr>pl_watermarks := m\<rparr>) w ev =
       (((production_pipeline now repr s)\<lparr>pl_watermarks := m1\<rparr>, w1, ls), Inr r)"
    "tracks threshold (evs @ [ev]) w1"
    "\<And>d. alternating (device_state_of threshold evs d = Some Offline) (map is_offline (filter (of_device d) (pr_detections r)))
         (device_state_of threshold (evs @ [ev]) d = Some Offline)"
    using production_process [OF Cons.prems(1) ev, where fresh = fresh and repr = repr and s = s and m = m] by metis
  obtain p2 w2 l2 new c2 where b: "batch_loop now fresh ((production_pipeline now repr s)\<lparr>pl_watermarks := m1\<rparr>) w1 (logs @ ls) es
        (rs @ [r]) (tally c r) = ((p2, w2, l2), Inr ((rs @ [r]) @ new, c2))" "length new = length es"
      "tracks threshold ((evs @ [ev]) @ es) w2"
      "\<forall>d. alternating (device_state_of threshold (evs @ [ev]) d = Some Offline)
          (map is_offline (filter (of_device d) (concat (map pr_detections new))))
          (device_state_of threshold ((evs @ [ev]) @ es) d = Some Offline)"
    using Cons.IH [OF s(2), of m1 "logs @ ls" "rs @ [r]" "tally c r"] Cons.prems(2) by auto
  have "alternating (device_state_of threshold evs d = Some Offline)
      (map is_offline (filter (of_device d) (concat (map pr_detections (r # new)))))
      (device_state_of threshold (evs @ ev # es) d = Some Offline)" for d
    using s(3) [of d] b(4) by (auto simp: alternating_append)
  moreover have "batch_loop now fresh ((production_pipeline now repr s)\<lparr>pl_watermarks := m\<rparr>) w logs (ev # es) rs c =
      ((p2, w2, l2), Inr (rs @ (r # new), c2))"
    using s(1) b(1) by simp
  moreover have "length (r # new) = length (ev # es)" "tracks threshold (evs @ ev # es) w2" using b(2,3) by simp_all
  ultimately show ?case by blast
qed simp

lemma alternating_length: "alternating b xs b' \<Longrightarrow> b' = (odd (length xs) \<noteq> b)"
  by (induction xs arbitrary: b) auto

lemma production_reports:
  assumes "settings_valid s" and "\<forall>ev \<in> set evs. registration now ev"
  shows "\<exists>p w p' w' logs rs. production_build_pipeline now repr s = Inr (p, w) \<and>
     process_batch now fresh p w evs = ((p', w', logs), Inr rs) \<and> length rs = length evs \<and>
     (\<forall>d. dict_get (od_state (cp_offline w')) d = device_state_of (offline_threshold_seconds s) evs d \<and>
        (let ds = filter (of_device d) (concat (map pr_detections rs)) in
         (\<forall>i < length ds. is_offline (ds ! i) = even i) \<and>
         (device_state_of (offline_threshold_seconds s) evs d = Some Offline \<longleftrightarrow> odd (length ds))))"
proof -
  let ?th = "offline_threshold_seconds s" and ?p = "production_pipeline now repr s"
  have t: "tracks ?th [] (production_world s)"
    using assms(1) registry_inv_init
    by (simp add: tracks_def production_world_def offline_inv_def settings_valid_def last_sighting_def device_state_of_def)
  obtain p' w' logs rs c where b: "batch_loop now fresh ?p (production_world s) [] evs [] no_counts = ((p', w', logs), Inr (rs, c))"
      "length rs = length evs" "tracks ?th evs w'"
      "\<And>d. alternating False (map is_offline (filter (of_device d) (concat (map pr_detections rs))))
          (device_state_of ?th evs d = Some Offline)"
    using production_batch [OF t assms(2), where fresh = fresh and repr = repr and s = s and m = "pl_watermarks ?p"
      and logs = "[]" and rs = "[]" and c = no_counts]
    by (auto simp: device_state_of_def last_sighting_def)
  have "\<forall>i < length ds. is_offline (ds ! i) = even i" "device_state_of ?th evs d = Some Offline \<longleftrightarrow> odd (length ds)"
    if "ds = filter (of_device d) (concat (map pr_detections rs))" for d ds
    using alternating_nth [OF b(4) [of d]] alternating_length [OF b(4) [of d]] unfolding that by auto
  then show ?thesis
    using build_ok [OF assms(1), of now repr] b(1-3) by (auto simp: process_batch_def tracks_def Let_def)
qed

text \<open>
  C6: the production pipeline reports silence, completely and without repetition. Fed any
  sequence of registration events, it returns one result per event; afterwards a device is
  held offline exactly when some event since its last one is stamped more than the
  configured threshold later than it; and the detections of every device alternate between
  offline and online, beginning with offline, so each silence is reported once and each
  return once.
\<close>

theorem production_reports_silence:
  assumes "settings_valid s" and "\<forall>ev \<in> set evs. registration now ev"
  shows "\<exists>p w p' w' logs rs. production_build_pipeline now repr s = Inr (p, w) \<and>
     process_batch now fresh p w evs = ((p', w', logs), Inr rs) \<and> length rs = length evs \<and>
     (\<forall>d. dict_get (od_state (cp_offline w')) d = device_state_of (offline_threshold_seconds s) evs d \<and>
        (let ds = filter (of_device d) (concat (map pr_detections rs)) in
         (\<forall>i < length ds. is_offline (ds ! i) = even i) \<and>
         (device_state_of (offline_threshold_seconds s) evs d = Some Offline \<longleftrightarrow> odd (length ds))))"
  by (rule production_reports [OF assms])

definition demo_registration :: "uuid \<Rightarrow> int \<Rightarrow> event" where
  "demo_registration u t = \<lparr>ev_event_id = derive ''event'' [], ev_metadata = \<lparr>md_schema_version = ''v1'',
       md_event_type = ''sip.registration'', md_source = ''parser''\<rparr>, ev_trace = trace_context_init 7 None None INGESTION,
     ev_event_timestamp = UTC (seconds t), ev_ingest_timestamp = UTC (seconds t),
     ev_payload = PyObj ''SipRegistrationPayload'' [(''device_id'', PyUUID u), (''store_id'', PyStr ''s'')]\<rparr>"

theorem production_reports_silence_witness:
  "\<exists>s p w p' w' logs rs. from_env [] = Inr s \<and> production_build_pipeline (UTC (seconds 1000)) type_name s = Inr (p, w) \<and>
     process_batch (UTC (seconds 1000)) 7 p w [demo_registration 1 0, demo_registration 2 301] = ((p', w', logs), Inr rs) \<and>
     length rs = 2 \<and> dict_get (od_state (cp_offline w')) 1 = Some Offline"
proof -
  let ?evs = "[demo_registration 1 0, demo_registration 2 301]"
  obtain s where s: "from_env [] = Inr s" "settings_valid s" "offline_threshold_seconds s = 300"
    using default_settings by (auto simp: from_env_def settings_init_Inr)
  have "\<forall>ev \<in> set ?evs. registration (UTC (seconds 1000)) ev"
    by (auto simp: registration_def event_fits_def stamp_fits_def demo_registration_def device_of_def requested_key_def
        derive_version MAX_CLOCK_SKEW_def)
  moreover have "device_state_of 300 ?evs 1 = Some Offline"
    by (simp add: device_state_of_def last_sighting_def since_def demo_registration_def device_of_def)
  ultimately show ?thesis
    using production_reports_silence [OF s(2), of ?evs "UTC (seconds 1000)" type_name 7] s(1,3) by auto
qed

end
