(* ===== verification/Dashboards.thy ===== *)
theory Dashboards
  imports Detectors
begin

text \<open>
  \<^verbatim>\<open>stream_pipeline/dashboards\<close>: the projection store and its two backends, the three
  projections that fold detections into it, and the fan-out of a result's detections. A
  backend is a record of its four operations on a state \<open>'s\<close>; the laws of the
  \<^verbatim>\<open>ProjectionStore\<close> protocol are a locale, and the projections are verified against the
  laws only.
\<close>

subsection \<open>Stores\<close>

record 's pstore =
  ps_get :: "'s \<Rightarrow> string \<Rightarrow> string \<Rightarrow> string option"
  ps_put :: "'s \<Rightarrow> string \<Rightarrow> string \<Rightarrow> string \<Rightarrow> 's"
  ps_delete :: "'s \<Rightarrow> string \<Rightarrow> string \<Rightarrow> 's"
  ps_keys :: "'s \<Rightarrow> string \<Rightarrow> string list"

locale projection_store =
  fixes st :: "'s pstore" and valid :: "'s \<Rightarrow> bool"
  assumes get_put: "valid s \<Longrightarrow> ps_get st (ps_put st s v k x) v' k' = (if v' = v \<and> k' = k then Some x else ps_get st s v' k')"
    and get_delete: "valid s \<Longrightarrow> ps_get st (ps_delete st s v k) v' k' = (if v' = v \<and> k' = k then None else ps_get st s v' k')"
    and keys_spec: "valid s \<Longrightarrow> set (ps_keys st s v) = {k. ps_get st s v k \<noteq> None} \<and> sorted (ps_keys st s v) \<and> distinct (ps_keys st s v)"
    and valid_put: "valid s \<Longrightarrow> valid (ps_put st s v k x)"
    and valid_delete: "valid s \<Longrightarrow> valid (ps_delete st s v k)"

text \<open>The in-memory store.\<close>

type_synonym memory_store = "(string, (string, string) dict) dict"

definition mem_get :: "memory_store \<Rightarrow> string \<Rightarrow> string \<Rightarrow> string option" where
  "mem_get s view key = dict_get (dict_get_default s view []) key"

definition mem_put :: "memory_store \<Rightarrow> string \<Rightarrow> string \<Rightarrow> string \<Rightarrow> memory_store" where
  "mem_put s view key val = dict_set view (dict_set key val (dict_get_default s view [])) s"

definition mem_delete :: "memory_store \<Rightarrow> string \<Rightarrow> string \<Rightarrow> memory_store" where
  "mem_delete s view key =
     (case dict_get s view of None \<Rightarrow> s | Some view_data \<Rightarrow> dict_set view (dict_del key view_data) s)"

definition mem_keys :: "memory_store \<Rightarrow> string \<Rightarrow> string list" where
  "mem_keys s view = sort (dict_keys (dict_get_default s view []))"

definition InMemoryProjectionStore :: "memory_store pstore" where
  "InMemoryProjectionStore = \<lparr>ps_get = mem_get, ps_put = mem_put, ps_delete = mem_delete, ps_keys = mem_keys\<rparr>"

definition mem_valid :: "memory_store \<Rightarrow> bool" where
  "mem_valid s \<longleftrightarrow> (\<forall>view d. dict_get s view = Some d \<longrightarrow> dict_ok d)"

interpretation memory: projection_store InMemoryProjectionStore mem_valid
proof unfold_locales
  fix s v k x v' k' assume "mem_valid s"
  show "ps_get InMemoryProjectionStore (ps_put InMemoryProjectionStore s v k x) v' k' =
      (if v' = v \<and> k' = k then Some x else ps_get InMemoryProjectionStore s v' k')"
    by (simp add: InMemoryProjectionStore_def mem_get_def mem_put_def dict_get_default_def)
  show "ps_get InMemoryProjectionStore (ps_delete InMemoryProjectionStore s v k) v' k' =
      (if v' = v \<and> k' = k then None else ps_get InMemoryProjectionStore s v' k')"
    by (auto simp: InMemoryProjectionStore_def mem_get_def mem_delete_def dict_get_default_def split: option.split)
next
  fix s v assume v: "mem_valid s"
  have "dict_ok (dict_get_default s v [])" using v by (auto simp: mem_valid_def dict_get_default_def split: option.split)
  moreover have "set (dict_keys d) = {k. dict_get d k \<noteq> None}" for d :: "(string, string) dict"
    using dict_get_None_iff [of d] by auto
  ultimately show "set (ps_keys InMemoryProjectionStore s v) = {k. ps_get InMemoryProjectionStore s v k \<noteq> None} \<and>
      sorted (ps_keys InMemoryProjectionStore s v) \<and> distinct (ps_keys InMemoryProjectionStore s v)"
    by (simp add: InMemoryProjectionStore_def mem_keys_def mem_get_def)
next
  fix s v k x assume "mem_valid s"
  then show "mem_valid (ps_put InMemoryProjectionStore s v k x)" "mem_valid (ps_delete InMemoryProjectionStore s v k)"
    by (auto simp: InMemoryProjectionStore_def mem_valid_def mem_put_def mem_delete_def dict_get_default_def
        split: option.splits if_splits)
qed

subsection \<open>Serialised sets\<close>

text \<open>
  \<^verbatim>\<open>json.dumps\<close> of a sorted list of UUID strings and \<^verbatim>\<open>json.loads\<close> of such a text. UUID
  strings need no escapes; other JSON texts are outside the domain of the projections.
\<close>

definition QUOTE :: char where "QUOTE = CHR 0x22"

fun json_items :: "string list \<Rightarrow> string" where
  "json_items [] = '']''"
| "json_items [s] = QUOTE # s @ [QUOTE] @ '']''"
| "json_items (s # t # ss) = QUOTE # s @ [QUOTE] @ '', '' @ json_items (t # ss)"

definition json_dumps :: "string list \<Rightarrow> string" where "json_dumps ss = ''['' @ json_items ss"

definition JSONDecodeError :: exn where "JSONDecodeError = Exn ''JSONDecodeError'' ''Expecting value''"

function json_parse :: "string \<Rightarrow> string list res" where
  "json_parse s =
     (if s \<noteq> [] \<and> hd s = QUOTE
      then let item = takeWhile (\<lambda>c. c \<noteq> QUOTE) (tl s); rest = dropWhile (\<lambda>c. c \<noteq> QUOTE) (tl s) in
        if rest = [] then Inl JSONDecodeError
        else if tl rest = '']'' then Inr [item]
        else if take 2 (tl rest) = '', '' then bind_res (json_parse (drop 2 (tl rest))) (\<lambda>ss. Inr (item # ss))
        else Inl JSONDecodeError
      else Inl JSONDecodeError)"
  by auto
termination
proof (relation "measure length")
  fix s :: string and item rest
  assume a: "s \<noteq> [] \<and> hd s = QUOTE" "rest = dropWhile (\<lambda>c. c \<noteq> QUOTE) (tl s)" "rest \<noteq> []"
  have "length rest \<le> length (tl s)" unfolding a(2) by (rule length_dropWhile_le)
  then show "(drop 2 (tl rest), s) \<in> measure length" using a(1,3) by (cases s) auto
qed simp

declare json_parse.simps [simp del]

definition json_loads :: "string \<Rightarrow> string list res" where
  "json_loads s = (if s = ''[]'' then Inr [] else if s \<noteq> [] \<and> hd s = CHR ''['' then json_parse (tl s) else Inl JSONDecodeError)"

lemma takeWhile_quote: "QUOTE \<notin> set s \<Longrightarrow> takeWhile (\<lambda>c. c \<noteq> QUOTE) (s @ QUOTE # t) = s"
  by (induction s) auto

lemma dropWhile_quote: "QUOTE \<notin> set s \<Longrightarrow> dropWhile (\<lambda>c. c \<noteq> QUOTE) (s @ QUOTE # t) = QUOTE # t"
  by (induction s) auto

lemma json_parse_items: "ss \<noteq> [] \<Longrightarrow> \<forall>s \<in> set ss. QUOTE \<notin> set s \<Longrightarrow> json_parse (json_items ss) = Inr ss"
proof (induction ss rule: json_items.induct)
  case (2 s)
  then show ?case by (subst json_parse.simps) (simp add: takeWhile_quote dropWhile_quote)
next
  case (3 s t ss)
  then show ?case by (subst json_parse.simps) (simp add: takeWhile_quote dropWhile_quote)
qed simp

lemma json_roundtrip: "\<forall>s \<in> set ss. QUOTE \<notin> set s \<Longrightarrow> json_loads (json_dumps ss) = Inr ss"
proof (cases ss rule: json_items.cases)
  case 1
  then show ?thesis by (simp add: json_dumps_def json_loads_def)
qed (use json_parse_items [of ss] in \<open>simp_all add: json_dumps_def json_loads_def\<close>)

lemma hex_digits_hex: "c \<in> set (hex_digits k n) \<Longrightarrow> hex_val c \<noteq> None"
  by (induction k arbitrary: n) (auto simp: hex_val_char)

lemma str_uuid_no_quote: "QUOTE \<notin> set (str_uuid u)"
proof -
  have "hex_val QUOTE = None" by code_simp
  then have "QUOTE \<notin> set (hex_digits 32 (uint u))" using hex_digits_hex by blast
  moreover have "QUOTE \<noteq> CHR ''-''" by (simp add: QUOTE_def)
  ultimately show ?thesis
    by (auto simp: str_uuid_def Let_def dest!: in_set_takeD in_set_dropD)
qed

subsection \<open>Offline count\<close>

definition OFFLINE_VIEW :: string where "OFFLINE_VIEW = ''offline_count''"

text \<open>A Python set of strings; the sorted list of its elements is what is serialised.\<close>

definition offline_load :: "'s pstore \<Rightarrow> 's \<Rightarrow> string \<Rightarrow> string set res" where
  "offline_load st s store_id =
     (case ps_get st s OFFLINE_VIEW store_id of
        None \<Rightarrow> Inr {}
      | Some raw \<Rightarrow> map_sum id set (json_loads raw))"

definition offline_save :: "'s pstore \<Rightarrow> 's \<Rightarrow> string \<Rightarrow> string set \<Rightarrow> 's" where
  "offline_save st s store_id offline =
     (if offline \<noteq> {} then ps_put st s OFFLINE_VIEW store_id (json_dumps (sorted_list_of_set offline))
      else ps_delete st s OFFLINE_VIEW store_id)"

definition offline_observe :: "'s pstore \<Rightarrow> 's \<Rightarrow> detection_event \<Rightarrow> 's \<times> unit res" where
  "offline_observe st s detection =
     (let p = ev_payload detection; detection_type = dp_detection_type p in
      if detection_type \<notin> {DETECTION_TYPE_DEVICE_OFFLINE, DETECTION_TYPE_DEVICE_ONLINE} then (s, Inr ())
      else case dp_device_id p of
          None \<Rightarrow> (s, Inr ())
        | Some device_id \<Rightarrow>
            (case offline_load st s (dp_store_id p) of
               Inl e \<Rightarrow> (s, Inl e)
             | Inr offline \<Rightarrow>
                 (offline_save st s (dp_store_id p)
                    (if detection_type = DETECTION_TYPE_DEVICE_OFFLINE then insert (str_uuid device_id) offline
                     else offline - {str_uuid device_id}), Inr ())))"

definition offline_count :: "'s pstore \<Rightarrow> 's \<Rightarrow> string \<Rightarrow> nat res" where
  "offline_count st s store_id = map_sum id card (offline_load st s store_id)"

definition offline_device_ids :: "'s pstore \<Rightarrow> 's \<Rightarrow> string \<Rightarrow> string set res" where
  "offline_device_ids st s store_id = offline_load st s store_id"

definition stores_with_offline :: "'s pstore \<Rightarrow> 's \<Rightarrow> string list" where
  "stores_with_offline st s = ps_keys st s OFFLINE_VIEW"

subsection \<open>Active outages\<close>

definition OUTAGE_VIEW :: string where "OUTAGE_VIEW = ''active_outage''"

definition outage_observe :: "'s pstore \<Rightarrow> 's \<Rightarrow> detection_event \<Rightarrow> 's \<times> unit res" where
  "outage_observe st s detection =
     (let p = ev_payload detection in
      if dp_detection_type p = DETECTION_TYPE_STORE_OUTAGE
        then (ps_put st s OUTAGE_VIEW (dp_store_id p) (isoformat (dp_detected_at p)), Inr ())
      else if dp_detection_type p = DETECTION_TYPE_STORE_RECOVERED
        then (ps_delete st s OUTAGE_VIEW (dp_store_id p), Inr ())
      else (s, Inr ()))"

definition active_outage_count :: "'s pstore \<Rightarrow> 's \<Rightarrow> nat" where
  "active_outage_count st s = length (ps_keys st s OUTAGE_VIEW)"

definition stores_in_outage :: "'s pstore \<Rightarrow> 's \<Rightarrow> string list" where
  "stores_in_outage st s = ps_keys st s OUTAGE_VIEW"

definition is_in_outage :: "'s pstore \<Rightarrow> 's \<Rightarrow> string \<Rightarrow> bool" where
  "is_in_outage st s store_id \<longleftrightarrow> ps_get st s OUTAGE_VIEW store_id \<noteq> None"

subsection \<open>Anomaly rate\<close>

definition RATE_VIEW :: string where "RATE_VIEW = ''anomaly_rate''"

definition BUCKET_SECONDS :: int where "BUCKET_SECONDS = 60"

text \<open>\<^verbatim>\<open>math.floor(moment.timestamp() / 60) * 60\<close>, as an instant.\<close>

definition bucket_start :: "datetime \<Rightarrow> int" where
  "bucket_start moment =
     seconds (\<lfloor>fl (true_div (instant moment) 1000000 / fl (of_int BUCKET_SECONDS))\<rfloor> * BUCKET_SECONDS)"

definition rate_key :: "string \<Rightarrow> int \<Rightarrow> string" where
  "rate_key signal_name bucket = signal_name @ ''|'' @ isoformat (UTC bucket)"

definition rate_load :: "'s pstore \<Rightarrow> 's \<Rightarrow> string \<Rightarrow> string set res" where
  "rate_load st s key = (case ps_get st s RATE_VIEW key of None \<Rightarrow> Inr {} | Some raw \<Rightarrow> map_sum id set (json_loads raw))"

text \<open>The signal name of a detection is a string when the anomaly detector built it.\<close>

definition rate_observe :: "'s pstore \<Rightarrow> 's \<Rightarrow> detection_event \<Rightarrow> 's \<times> unit res" where
  "rate_observe st s detection =
     (let p = ev_payload detection in
      if dp_detection_type p \<noteq> DETECTION_TYPE_SIGNAL_ANOMALY then (s, Inr ())
      else case dict_get (dp_details p) ''signal_name'' of
          Some (PyStr signal_name) \<Rightarrow>
            (let key = rate_key signal_name (bucket_start (dp_detected_at p)) in
             case rate_load st s key of
               Inl e \<Rightarrow> (s, Inl e)
             | Inr ids \<Rightarrow>
                 (ps_put st s RATE_VIEW key
                    (json_dumps (sorted_list_of_set (insert (str_uuid (dp_detection_id p)) ids))), Inr ()))
        | _ \<Rightarrow> (s, Inr ()))"

text \<open>The loop over the buckets from the first one until \<open>as_of\<close>.\<close>

function count_buckets :: "'s pstore \<Rightarrow> 's \<Rightarrow> string \<Rightarrow> int \<Rightarrow> int \<Rightarrow> nat \<Rightarrow> nat res" where
  "count_buckets st s signal_name as_of bucket acc =
     (if bucket < as_of
      then case ps_get st s RATE_VIEW (rate_key signal_name bucket) of
          None \<Rightarrow> count_buckets st s signal_name as_of (bucket + seconds BUCKET_SECONDS) acc
        | Some raw \<Rightarrow>
            (case json_loads raw of
               Inl e \<Rightarrow> Inl e
             | Inr ids \<Rightarrow> count_buckets st s signal_name as_of (bucket + seconds BUCKET_SECONDS) (acc + length ids))
      else Inr acc)"
  by auto
termination
  by (relation "measure (\<lambda>(st, s, n, a, b, t). nat (a - b))") (auto simp: BUCKET_SECONDS_def)

declare count_buckets.simps [simp del]

definition count_in_window :: "'s pstore \<Rightarrow> 's \<Rightarrow> string \<Rightarrow> datetime \<Rightarrow> int \<Rightarrow> nat res" where
  "count_in_window st s signal_name as_of window_seconds =
     count_buckets st s signal_name (instant as_of) (bucket_start (dt_add as_of (- seconds window_seconds))) 0"

definition rate_per_minute :: "'s pstore \<Rightarrow> 's \<Rightarrow> string \<Rightarrow> datetime \<Rightarrow> int \<Rightarrow> pyfloat res" where
  "rate_per_minute st s signal_name as_of window_seconds =
     bind_res (count_in_window st s signal_name as_of window_seconds) (\<lambda>count.
       if true_div window_seconds 60 = 0 then Inl (Exn ''ZeroDivisionError'' ''float division by zero'')
       else Inr (fl (fl (of_nat count) / true_div window_seconds 60)))"

subsection \<open>Fan-out\<close>

text \<open>A projection is an operation on the world its store lives in.\<close>

record 'w projection =
  pj_name :: string
  pj_observe :: "'w \<Rightarrow> detection_event \<Rightarrow> 'w \<times> unit res"

definition projection_error_log :: "string \<Rightarrow> detection_event \<Rightarrow> 'w projection \<Rightarrow> exn \<Rightarrow> log_line" where
  "projection_error_log event_id d p exc =
     log ''ERROR'' ''Projection raised during observe()'' ''dashboards.projection_error'' (trace_id_of d)
       [(''event_id'', PyStr event_id), (''detection_id'', PyStr (str_uuid (dp_detection_id (ev_payload d)))),
        (''detection_type'', PyStr (dp_detection_type (ev_payload d))), (''projection'', PyStr (pj_name p)),
        (''exception_type'', PyStr (exn_type exc)), (''exception_message'', PyStr (exn_msg exc))]"

fun offer :: "bool \<Rightarrow> string \<Rightarrow> detection_event \<Rightarrow> 'w projection list \<Rightarrow> 'w \<Rightarrow> log_line list \<Rightarrow>
    ('w \<times> log_line list) \<times> unit res" where
  "offer strict event_id d [] w logs = ((w, logs), Inr ())"
| "offer strict event_id d (p # ps) w logs =
     (case pj_observe p w d of
        (w', Inr _) \<Rightarrow> offer strict event_id d ps w' logs
      | (w', Inl exc) \<Rightarrow>
          let logs' = logs @ [projection_error_log event_id d p exc] in
          if strict then ((w', logs'), Inl exc) else offer strict event_id d ps w' logs')"

fun route_detections :: "bool \<Rightarrow> string \<Rightarrow> detection_event list \<Rightarrow> 'w projection list \<Rightarrow> 'w \<Rightarrow> log_line list \<Rightarrow>
    ('w \<times> log_line list) \<times> unit res" where
  "route_detections strict event_id [] ps w logs = ((w, logs), Inr ())"
| "route_detections strict event_id (d # ds) ps w logs =
     (case offer strict event_id d ps w logs of
        ((w', logs'), Inl e) \<Rightarrow> ((w', logs'), Inl e)
      | ((w', logs'), Inr _) \<Rightarrow> route_detections strict event_id ds ps w' logs')"

subsection \<open>What the views hold\<close>

text \<open>
  The specification of the three views by the sequence of detections: a device is offline
  in a store when its last transition there was to offline; a store's outage is the last
  one reported unless it recovered since; a bucket holds the identities of its onsets.
\<close>

definition device_report :: "string \<Rightarrow> uuid \<Rightarrow> detection_event \<Rightarrow> bool" where
  "device_report k u d \<longleftrightarrow> dp_store_id (ev_payload d) = k \<and> dp_device_id (ev_payload d) = Some u \<and>
     dp_detection_type (ev_payload d) \<in> {DETECTION_TYPE_DEVICE_OFFLINE, DETECTION_TYPE_DEVICE_ONLINE}"

definition offline_in :: "detection_event list \<Rightarrow> string \<Rightarrow> uuid set" where
  "offline_in ds k = {u. filter (device_report k u) ds \<noteq> [] \<and>
     dp_detection_type (ev_payload (last (filter (device_report k u) ds))) = DETECTION_TYPE_DEVICE_OFFLINE}"

definition outage_report :: "string \<Rightarrow> detection_event \<Rightarrow> bool" where
  "outage_report k d \<longleftrightarrow> dp_store_id (ev_payload d) = k \<and>
     dp_detection_type (ev_payload d) \<in> {DETECTION_TYPE_STORE_OUTAGE, DETECTION_TYPE_STORE_RECOVERED}"

definition outage_in :: "detection_event list \<Rightarrow> string \<Rightarrow> datetime option" where
  "outage_in ds k =
     (case rev (filter (outage_report k) ds) of
        [] \<Rightarrow> None
      | d # _ \<Rightarrow> if dp_detection_type (ev_payload d) = DETECTION_TYPE_STORE_OUTAGE
                 then Some (dp_detected_at (ev_payload d)) else None)"

definition onset_key :: "detection_event \<Rightarrow> string option" where
  "onset_key d =
     (if dp_detection_type (ev_payload d) \<noteq> DETECTION_TYPE_SIGNAL_ANOMALY then None
      else case dict_get (dp_details (ev_payload d)) ''signal_name'' of
          Some (PyStr name) \<Rightarrow> Some (rate_key name (bucket_start (dp_detected_at (ev_payload d))))
        | _ \<Rightarrow> None)"

definition onsets_in :: "detection_event list \<Rightarrow> string \<Rightarrow> uuid set" where
  "onsets_in ds key = {dp_detection_id (ev_payload d) | d. d \<in> set ds \<and> onset_key d = Some key}"

definition encoded :: "uuid set \<Rightarrow> string option" where
  "encoded us = (if us = {} then None else Some (json_dumps (sorted_list_of_set (str_uuid ` us))))"

lemma json_loads_encoded: "json_loads (json_dumps (sorted_list_of_set (str_uuid ` us))) = Inr (sorted_list_of_set (str_uuid ` us))"
  for us :: "uuid set"
  by (rule json_roundtrip) (auto simp: str_uuid_no_quote)

lemma card_str_uuid: "card (str_uuid ` us) = card us" for us :: "uuid set"
  by (rule card_image) (simp add: inj_on_def str_uuid_inj)

lemma load_encoded: "(case encoded us of None \<Rightarrow> Inr {} | Some raw \<Rightarrow> map_sum id set (json_loads raw)) = Inr (str_uuid ` us)"
  by (simp add: encoded_def json_loads_encoded)

lemma offline_in_snoc:
  "offline_in (ds @ [d]) k =
     (case dp_device_id (ev_payload d) of
        None \<Rightarrow> offline_in ds k
      | Some u \<Rightarrow>
          if device_report k u d
          then if dp_detection_type (ev_payload d) = DETECTION_TYPE_DEVICE_OFFLINE then insert u (offline_in ds k)
               else offline_in ds k - {u}
          else offline_in ds k)"
proof -
  have other: "device_report k v d \<Longrightarrow> dp_device_id (ev_payload d) = Some v" for v by (simp add: device_report_def)
  show ?thesis
    by (auto simp: offline_in_def other split: option.split dest: other)
qed

lemma outage_in_snoc:
  "outage_in (ds @ [d]) k =
     (if outage_report k d
      then if dp_detection_type (ev_payload d) = DETECTION_TYPE_STORE_OUTAGE then Some (dp_detected_at (ev_payload d)) else None
      else outage_in ds k)"
  by (simp add: outage_in_def)

lemma onsets_in_snoc:
  "onsets_in (ds @ [d]) key = (if onset_key d = Some key then insert (dp_detection_id (ev_payload d)) (onsets_in ds key) else onsets_in ds key)"
  by (auto simp: onsets_in_def)

lemma detection_types_distinct:
  "DETECTION_TYPE_DEVICE_OFFLINE \<noteq> DETECTION_TYPE_DEVICE_ONLINE" "DETECTION_TYPE_STORE_OUTAGE \<noteq> DETECTION_TYPE_STORE_RECOVERED"
  by (simp_all add: DETECTION_TYPE_DEVICE_OFFLINE_def DETECTION_TYPE_DEVICE_ONLINE_def DETECTION_TYPE_STORE_OUTAGE_def
      DETECTION_TYPE_STORE_RECOVERED_def)

lemma views_distinct: "OFFLINE_VIEW \<noteq> OUTAGE_VIEW" "OFFLINE_VIEW \<noteq> RATE_VIEW" "OUTAGE_VIEW \<noteq> RATE_VIEW"
  by (simp_all add: OFFLINE_VIEW_def OUTAGE_VIEW_def RATE_VIEW_def)

text \<open>A bucket is the whole minute of the moment, for every moment from 1828 to 2112.\<close>

lemma bucket_start_exact: "\<bar>instant t\<bar> < 2 ^ 52 \<Longrightarrow> bucket_start t = instant t div 60000000 * 60000000"
  using floor_quotient_exact [of "instant t" 60] by (simp add: bucket_start_def BUCKET_SECONDS_def)

text \<open>The three projections of one store, as the fan-out calls them.\<close>

definition store_projections :: "'s pstore \<Rightarrow> 's projection list" where
  "store_projections st =
     [\<lparr>pj_name = ''OfflineCountProjection'', pj_observe = offline_observe st\<rparr>,
      \<lparr>pj_name = ''ActiveOutageProjection'', pj_observe = outage_observe st\<rparr>,
      \<lparr>pj_name = ''AnomalyRateProjection'', pj_observe = rate_observe st\<rparr>]"

context projection_store
begin

definition holds :: "string \<Rightarrow> (string \<Rightarrow> string option) \<Rightarrow> 's \<Rightarrow> bool" where
  "holds v f s \<longleftrightarrow> valid s \<and> (\<forall>k. ps_get st s v k = f k)"

definition elsewhere :: "string \<Rightarrow> 's \<Rightarrow> 's \<Rightarrow> bool" where
  "elsewhere v s s' \<longleftrightarrow> (\<forall>v' k. v' \<noteq> v \<longrightarrow> ps_get st s' v' k = ps_get st s v' k)"

lemma offline_step:
  assumes h: "holds OFFLINE_VIEW (\<lambda>k. encoded (offline_in ds k)) s"
  obtains s' where "offline_observe st s d = (s', Inr ())" "elsewhere OFFLINE_VIEW s s'"
    "holds OFFLINE_VIEW (\<lambda>k. encoded (offline_in (ds @ [d]) k)) s'"
proof -
  let ?p = "ev_payload d"
  let ?k = "dp_store_id ?p"
  show thesis
  proof (cases "dp_detection_type ?p \<in> {DETECTION_TYPE_DEVICE_OFFLINE, DETECTION_TYPE_DEVICE_ONLINE} \<and> dp_device_id ?p \<noteq> None")
    case False
    then have "offline_in (ds @ [d]) k = offline_in ds k" for k
      by (auto simp: offline_in_snoc device_report_def split: option.split)
    moreover have "offline_observe st s d = (s, Inr ())" using False by (auto simp: offline_observe_def Let_def)
    ultimately show thesis using that [of s] h by (simp add: elsewhere_def)
  next
    case True
    then obtain u where u: "dp_device_id ?p = Some u" by auto
    define X where "X = (if dp_detection_type ?p = DETECTION_TYPE_DEVICE_OFFLINE then insert u (offline_in ds ?k) else offline_in ds ?k - {u})"
    have new: "offline_in (ds @ [d]) k = (if k = ?k then X else offline_in ds k)" for k
      using True u by (auto simp: offline_in_snoc device_report_def X_def)
    have "offline_load st s ?k = Inr (str_uuid ` offline_in ds ?k)"
      using h load_encoded by (simp add: offline_load_def holds_def)
    moreover have "str_uuid ` X = (if dp_detection_type ?p = DETECTION_TYPE_DEVICE_OFFLINE
        then insert (str_uuid u) (str_uuid ` offline_in ds ?k) else str_uuid ` offline_in ds ?k - {str_uuid u})"
      by (auto simp: X_def str_uuid_inj)
    ultimately have o: "offline_observe st s d = (offline_save st s ?k (str_uuid ` X), Inr ())"
      using True u by (auto simp: offline_observe_def Let_def)
    have v: "valid s" using h by (simp add: holds_def)
    show thesis
      by (rule that [OF o]) (use v h in \<open>auto simp: offline_save_def elsewhere_def holds_def get_put get_delete valid_put
          valid_delete new encoded_def\<close>)
  qed
qed

lemma outage_step:
  assumes h: "holds OUTAGE_VIEW (\<lambda>k. map_option isoformat (outage_in ds k)) s"
  obtains s' where "outage_observe st s d = (s', Inr ())" "elsewhere OUTAGE_VIEW s s'"
    "holds OUTAGE_VIEW (\<lambda>k. map_option isoformat (outage_in (ds @ [d]) k)) s'"
proof -
  have "valid s" using h by (simp add: holds_def)
  then have "snd (outage_observe st s d) = Inr () \<and> elsewhere OUTAGE_VIEW s (fst (outage_observe st s d)) \<and>
      holds OUTAGE_VIEW (\<lambda>k. map_option isoformat (outage_in (ds @ [d]) k)) (fst (outage_observe st s d))"
    using h detection_types_distinct
    by (auto simp: outage_observe_def Let_def elsewhere_def holds_def get_put get_delete valid_put valid_delete
        outage_in_snoc outage_report_def)
  then show thesis by (intro that [of "fst (outage_observe st s d)"]) (auto simp: prod_eq_iff)
qed

lemma rate_step:
  assumes h: "holds RATE_VIEW (\<lambda>k. encoded (onsets_in ds k)) s"
  obtains s' where "rate_observe st s d = (s', Inr ())" "elsewhere RATE_VIEW s s'"
    "holds RATE_VIEW (\<lambda>k. encoded (onsets_in (ds @ [d]) k)) s'"
proof (cases "onset_key d")
  case None
  then have "rate_observe st s d = (s, Inr ())"
    by (auto simp: rate_observe_def onset_key_def Let_def split: if_splits option.splits pyval.splits)
  then show thesis using that [of s] h None by (simp add: elsewhere_def onsets_in_snoc)
next
  case (Some key)
  have v: "valid s" using h by (simp add: holds_def)
  have "rate_load st s key = Inr (str_uuid ` onsets_in ds key)"
    using h load_encoded by (simp add: rate_load_def holds_def)
  then have o: "rate_observe st s d =
      (ps_put st s RATE_VIEW key (json_dumps (sorted_list_of_set (str_uuid ` insert (dp_detection_id (ev_payload d)) (onsets_in ds key)))), Inr ())"
    using Some by (auto simp: rate_observe_def onset_key_def Let_def split: if_splits option.splits pyval.splits)
  show thesis
    by (rule that [OF o]) (use v h Some in \<open>auto simp: elsewhere_def holds_def get_put valid_put onsets_in_snoc encoded_def\<close>)
qed

definition reflects :: "detection_event list \<Rightarrow> 's \<Rightarrow> bool" where
  "reflects ds s \<longleftrightarrow> holds OFFLINE_VIEW (\<lambda>k. encoded (offline_in ds k)) s \<and>
  holds OUTAGE_VIEW (\<lambda>k. map_option isoformat (outage_in ds k)) s \<and> holds RATE_VIEW (\<lambda>k. encoded (onsets_in ds k)) s"

lemma holds_elsewhere: "holds v f s \<Longrightarrow> elsewhere v' s s' \<Longrightarrow> v \<noteq> v' \<Longrightarrow> valid s' \<Longrightarrow> holds v f s'"
  by (simp add: holds_def elsewhere_def)

lemma offer_views:
  assumes "reflects ds s"
  obtains s' where "offer strict eid d (store_projections st) s logs = ((s', logs), Inr ())" "reflects (ds @ [d]) s'"
proof -
  note v = views_distinct views_distinct [symmetric]
  obtain s1 where s1: "offline_observe st s d = (s1, Inr ())" "elsewhere OFFLINE_VIEW s s1"
      "holds OFFLINE_VIEW (\<lambda>k. encoded (offline_in (ds @ [d]) k)) s1"
    using assms offline_step unfolding reflects_def by blast
  then have "holds OUTAGE_VIEW (\<lambda>k. map_option isoformat (outage_in ds k)) s1"
    using assms holds_elsewhere v unfolding reflects_def by (metis holds_def)
  then obtain s2 where s2: "outage_observe st s1 d = (s2, Inr ())" "elsewhere OUTAGE_VIEW s1 s2"
      "holds OUTAGE_VIEW (\<lambda>k. map_option isoformat (outage_in (ds @ [d]) k)) s2"
    using outage_step by blast
  have "holds RATE_VIEW (\<lambda>k. encoded (onsets_in ds k)) s2"
    using assms s1 s2 v unfolding reflects_def holds_def elsewhere_def by metis
  then obtain s3 where s3: "rate_observe st s2 d = (s3, Inr ())" "elsewhere RATE_VIEW s2 s3"
      "holds RATE_VIEW (\<lambda>k. encoded (onsets_in (ds @ [d]) k)) s3"
    using rate_step by blast
  have "reflects (ds @ [d]) s3"
    using s1 s2 s3 v unfolding reflects_def holds_def elsewhere_def by metis
  then show thesis
    using that [of s3] s1(1) s2(1) s3(1) by (simp add: store_projections_def)
qed

lemma route_views:
  "reflects ds s \<Longrightarrow> \<exists>s'. route_detections strict eid es (store_projections st) s logs = ((s', logs), Inr ()) \<and> reflects (ds @ es) s'"
proof (induction es arbitrary: ds s)
  case (Cons e es)
  from offer_views [OF Cons.prems] obtain s1
    where "offer strict eid e (store_projections st) s logs = ((s1, logs), Inr ())" "reflects (ds @ [e]) s1" by metis
  then show ?case using Cons.IH [of "ds @ [e]" s1] by auto
qed auto

lemma reflects_offline:
  assumes "reflects ds s"
  shows "offline_device_ids st s k = Inr (str_uuid ` offline_in ds k)" and "offline_count st s k = Inr (card (offline_in ds k))"
proof -
  show "offline_device_ids st s k = Inr (str_uuid ` offline_in ds k)"
    using assms load_encoded by (simp add: reflects_def holds_def offline_device_ids_def offline_load_def)
  then show "offline_count st s k = Inr (card (offline_in ds k))"
    by (simp add: offline_count_def offline_device_ids_def card_str_uuid)
qed

lemma reflects_stores_with_offline: "reflects ds s \<Longrightarrow> set (stores_with_offline st s) = {k. offline_in ds k \<noteq> {}}"
  using keys_spec [of s OFFLINE_VIEW] by (auto simp: reflects_def holds_def stores_with_offline_def encoded_def)

lemma reflects_outage:
  assumes "reflects ds s"
  shows "is_in_outage st s k \<longleftrightarrow> outage_in ds k \<noteq> None" and "active_outage_count st s = card {k. outage_in ds k \<noteq> None}"
proof -
  show "is_in_outage st s k \<longleftrightarrow> outage_in ds k \<noteq> None"
    using assms by (auto simp: reflects_def holds_def is_in_outage_def)
  have "set (ps_keys st s OUTAGE_VIEW) = {k. outage_in ds k \<noteq> None}" "distinct (ps_keys st s OUTAGE_VIEW)"
    using assms keys_spec [of s OUTAGE_VIEW] by (auto simp: reflects_def holds_def)
  then show "active_outage_count st s = card {k. outage_in ds k \<noteq> None}"
    unfolding active_outage_count_def by (metis distinct_card)
qed

lemma count_buckets_sum:
  assumes "reflects ds s"
  shows "count_buckets st s name as_of b acc =
     Inr (acc + (\<Sum>i < nat ((as_of - b + 59999999) div 60000000). card (onsets_in ds (rate_key name (b + int i * 60000000)))))"
proof (induction "nat ((as_of - b + 59999999) div 60000000)" arbitrary: b acc)
  case 0
  then have "\<not> b < as_of" by (auto simp: not_less)
  then show ?case using 0 by (subst count_buckets.simps) simp
next
  case (Suc n)
  then have lt: "b < as_of" by (auto split: if_splits)
  have n: "n = nat ((as_of - (b + 60000000) + 59999999) div 60000000)" using Suc(2) by linarith
  have g: "ps_get st s RATE_VIEW (rate_key name b) = encoded (onsets_in ds (rate_key name b))"
    using assms by (simp add: reflects_def holds_def)
  have "length (sorted_list_of_set (str_uuid ` us)) = card us" for us :: "uuid set"
    by (simp add: card_str_uuid)
  then have "count_buckets st s name as_of b acc =
      count_buckets st s name as_of (b + 60000000) (acc + card (onsets_in ds (rate_key name b)))"
    using lt g by (subst count_buckets.simps) (simp add: encoded_def json_loads_encoded BUCKET_SECONDS_def)
  also have "\<dots> = Inr (acc + card (onsets_in ds (rate_key name b)) +
      (\<Sum>i < n. card (onsets_in ds (rate_key name (b + int (Suc i) * 60000000)))))"
    using Suc(1) [OF n] n by (simp add: algebra_simps)
  also have "\<dots> = Inr (acc + (\<Sum>i < Suc n. card (onsets_in ds (rate_key name (b + int i * 60000000)))))"
    by (simp add: sum.lessThan_Suc_shift del: sum.lessThan_Suc)
  finally show ?case using Suc(2) by simp
qed

end

lemma memory_reflects_empty: "memory.reflects [] []"
  unfolding memory.reflects_def memory.holds_def
  by (simp add: mem_valid_def offline_in_def outage_in_def onsets_in_def encoded_def
      InMemoryProjectionStore_def mem_get_def dict_get_default_def)



definition demo_onset :: "int \<Rightarrow> detection_event" where
  "demo_onset t = \<lparr>ev_event_id = 1, ev_metadata = \<lparr>md_schema_version = ''v1'', md_event_type = ''detection.event'',
       md_source = anomaly_source\<rparr>, ev_trace = trace_context_init 7 None None INGESTION,
     ev_event_timestamp = UTC t, ev_ingest_timestamp = UTC t,
     ev_payload = \<lparr>dp_detection_id = 3, dp_detection_type = DETECTION_TYPE_SIGNAL_ANOMALY,
       dp_severity = WARNING, dp_detected_at = UTC t, dp_store_id = ''s'', dp_device_id = None, dp_source_event_id = 2,
       dp_threshold_breached = ''above'', dp_details = [(''signal_name'', PyStr ''latency'')]\<rparr>\<rparr>"


end
