(* ===== verification/IsoTime.thy ===== *)
theory IsoTime
  imports PyTime Floats
begin

text \<open>
  The two conversions of a \<^verbatim>\<open>datetime\<close> the sources read back: \<^verbatim>\<open>t.timestamp()\<close> and
  \<^verbatim>\<open>datetime.fromisoformat(s)\<close>. Reading is defined on the texts that \<^verbatim>\<open>isoformat\<close> prints;
  the further notations of ISO 8601 that \<^verbatim>\<open>fromisoformat\<close> accepts, and its rejections, are
  an argument of the model. Printing and reading back is the identity on every datetime
  of the years 1 to 9999.
\<close>

text \<open>\<^verbatim>\<open>t.timestamp()\<close>; of a naive datetime it depends on the zone of the machine, \<open>mktime\<close>.\<close>

definition posix_timestamp :: "(int \<Rightarrow> pyfloat) \<Rightarrow> datetime \<Rightarrow> pyfloat" where
  "posix_timestamp mktime t = (if aware t then true_div (instant t) 1000000 else mktime (wall t))"

text \<open>\<^verbatim>\<open>int(x)\<close> of a float truncates.\<close>

definition trunc :: "pyfloat \<Rightarrow> int" where
  "trunc x = (if x < 0 then \<lceil>x\<rceil> else \<lfloor>x\<rfloor>)"

subsection \<open>The calendar\<close>

definition days_from_civil :: "int \<times> int \<times> int \<Rightarrow> int" where
  "days_from_civil ymd =
     (let (y0, m, d) = ymd; y = (if m \<le> 2 then y0 - 1 else y0); era = y div 400; yoe = y mod 400;
          doy = (153 * ((m + 9) mod 12) + 2) div 5 + d - 1;
          doe = 365 * yoe + yoe div 4 - yoe div 100 + doy
      in era * 146097 + doe - 719468)"

text \<open>
  The year of a day within its era of 400 years, which begin in March: \<open>elapsed\<close> drops the
  leap days, so that every year has 365 of the remaining days.
\<close>

definition elapsed :: "int \<Rightarrow> int" where
  "elapsed doe = doe - doe div 1460 + doe div 36524 - doe div 146096"

definition year_start :: "int \<Rightarrow> int" where "year_start y = 365 * y + y div 4 - y div 100"

lemma div_succ: "0 < k \<Longrightarrow> (n + 1) div k = n div k + (if k dvd n + 1 then 1 else 0)" for n k :: int
proof -
  assume k: "0 < k"
  show ?thesis
  proof (cases "k dvd n + 1")
    case True
    then obtain q where q: "n + 1 = k * q" by (auto simp: dvd_def)
    then have "n = k * (q - 1) + (k - 1)" by (simp add: algebra_simps)
    then have "n div k = q - 1" using k int_div_pos_eq [of n k "q - 1" "k - 1"] by simp
    then show ?thesis using q k True by simp
  next
    case False
    have "n mod k \<noteq> k - 1"
    proof
      assume "n mod k = k - 1"
      then have "n + 1 = k * (n div k + 1)" using mult_div_mod_eq [of k n] by (simp only: distrib_left)
      then show False using False by (simp add: dvd_def)
    qed
    then have "n mod k + 1 < k" using k pos_mod_bound [of k n] by linarith
    moreover have "n + 1 = k * (n div k) + (n mod k + 1)" by simp
    ultimately have "(n + 1) div k = n div k" using k int_div_pos_eq [of "n + 1" k "n div k" "n mod k + 1"] by simp
    then show ?thesis using False by simp
  qed
qed

lemma elapsed_step: "elapsed n \<le> elapsed (n + 1)"
proof -
  have "(36524 :: int) dvd 146096" by simp
  then have "(36524 :: int) dvd n + 1" if "146096 dvd n + 1" using that dvd_trans by blast
  then show ?thesis by (auto simp: elapsed_def div_succ)
qed

lemma elapsed_mono: "m \<le> n \<Longrightarrow> elapsed m \<le> elapsed n"
proof (induction n rule: int_ge_induct)
  case (step n)
  then show ?case using elapsed_step [of n] by linarith
qed simp

lemma year_bounds:
  assumes "0 \<le> doe" "doe < 146097"
  defines "y \<equiv> elapsed doe div 365"
  shows "0 \<le> y" "y < 400" "year_start y \<le> doe" "doe \<le> year_start y + 365"
proof -
  have ends: "\<forall>y \<in> set [0..399]. elapsed (year_start y) div 365 = y \<and> (y = 0 \<or> elapsed (year_start y - 1) div 365 < y) \<and>
      year_start (y + 1) \<le> year_start y + 366" by code_simp
  have "elapsed 0 \<le> elapsed doe" "elapsed doe \<le> elapsed 146096" using assms elapsed_mono by simp_all
  moreover have "elapsed 0 = 0" "elapsed 146096 = 145999" by (simp_all add: elapsed_def)
  ultimately show y: "0 \<le> y" "y < 400" by (auto simp: y_def)
  then have "y \<in> set [0..399]" unfolding set_upto atLeastAtMost_iff by linarith
  then have e: "y = 0 \<or> elapsed (year_start y - 1) div 365 < y" "year_start (y + 1) \<le> year_start y + 366" using ends by blast+
  show "year_start y \<le> doe"
  proof (rule ccontr)
    assume "\<not> year_start y \<le> doe"
    then have "elapsed doe div 365 \<le> elapsed (year_start y - 1) div 365" by (intro zdiv_mono1 elapsed_mono) simp_all
    moreover have "y \<noteq> 0" using assms(1) \<open>\<not> year_start y \<le> doe\<close> by (auto simp: year_start_def)
    ultimately show False using e(1) unfolding y_def by linarith
  qed
  show "doe \<le> year_start y + 365"
  proof (cases "y = 399")
    case True
    then show ?thesis using assms(2) by (simp add: year_start_def)
  next
    case False
    then have "y + 1 \<in> set [0..399]" using y unfolding set_upto atLeastAtMost_iff by linarith
    then have "elapsed (year_start (y + 1)) div 365 = y + 1" using ends by blast
    then have "doe < year_start (y + 1)"
      using zdiv_mono1 [OF elapsed_mono [of "year_start (y + 1)" doe], of 365] by (force simp: y_def)
    then show ?thesis using e(2) by simp
  qed
qed

lemma day_of_year:
  fixes doy :: int
  assumes "0 \<le> doy" "doy \<le> 365"
  defines "mp \<equiv> (5 * doy + 2) div 153"
  shows "0 \<le> mp" "mp \<le> 11" "1 \<le> doy - (153 * mp + 2) div 5 + 1" "doy - (153 * mp + 2) div 5 + 1 \<le> 31"
proof -
  have "\<forall>doy \<in> set [0..365]. let mp = (5 * doy + 2) div 153 in
      0 \<le> mp \<and> mp \<le> 11 \<and> 1 \<le> doy - (153 * mp + 2) div 5 + 1 \<and> doy - (153 * mp + 2) div 5 + (1 :: int) \<le> 31" by code_simp
  moreover have "doy \<in> set [0..365]" using assms unfolding set_upto atLeastAtMost_iff by linarith
  ultimately show "0 \<le> mp" "mp \<le> 11" "1 \<le> doy - (153 * mp + 2) div 5 + 1" "doy - (153 * mp + 2) div 5 + 1 \<le> 31"
    unfolding mp_def Let_def by blast+
qed

lemma civil_roundtrip:
  obtains y m d where "civil_from_days n = (y, m, d)" "1 \<le> m" "m \<le> 12" "1 \<le> d" "d \<le> 31" "days_from_civil (y, m, d) = n"
proof -
  define z where "z = n + 719468"
  define doe where "doe = z mod 146097"
  define yoe where "yoe = elapsed doe div 365"
  define doy where "doy = doe - (365 * yoe + yoe div 4 - yoe div 100)"
  define mp where "mp = (5 * doy + 2) div 153"
  let ?d = "doy - (153 * mp + 2) div 5 + 1" and ?m = "if mp < 10 then mp + 3 else mp - 9"
  let ?y = "if ?m \<le> 2 then yoe + z div 146097 * 400 + 1 else yoe + z div 146097 * 400"
  have doe: "0 \<le> doe" "doe < 146097" by (simp_all add: doe_def)
  note yr = year_bounds [OF doe, folded yoe_def]
  have doy: "0 \<le> doy" "doy \<le> 365" using yr(3,4) by (simp_all add: doy_def year_start_def)
  note mo = day_of_year [OF doy, folded mp_def]
  have c: "civil_from_days n = (?y, ?m, ?d)"
    unfolding civil_from_days_def Let_def z_def [symmetric] doe_def [symmetric] elapsed_def [symmetric, of doe] yoe_def [symmetric]
      doy_def [symmetric] mp_def [symmetric] by simp
  have y: "(if ?m \<le> 2 then ?y - 1 else ?y) = yoe + z div 146097 * 400" by simp
  have era: "(yoe + z div 146097 * 400) div 400 = z div 146097" "(yoe + z div 146097 * 400) mod 400 = yoe"
    using yr(1,2) by simp_all
  have m9: "(?m + 9) mod 12 = mp" using mo(1,2) by auto
  have "days_from_civil (?y, ?m, ?d) = z div 146097 * 146097 + doe - 719468"
    unfolding days_from_civil_def Let_def split y era m9 by (simp add: doy_def)
  also have "\<dots> = n" using div_mult_mod_eq [of z 146097] by (simp add: doe_def z_def)
  finally show thesis by (intro that [OF c]) (use mo in auto)
qed

subsection \<open>Reading a printed date\<close>

text \<open>The digits of one field, \<open>w\<close> of them, and what follows.\<close>

definition read_digits :: "nat \<Rightarrow> string \<Rightarrow> (int \<times> string) option" where
  "read_digits w s =
     (if w \<le> length s \<and> list_all is_digit (take w s) then Some (int (nat_of_digits (take w s)), drop w s) else None)"

definition read_char :: "char \<Rightarrow> string \<Rightarrow> string option" where
  "read_char c s = (case s of x # r \<Rightarrow> if x = c then Some r else None | [] \<Rightarrow> None)"

definition read_sep :: "char \<Rightarrow> nat \<Rightarrow> string \<Rightarrow> (int \<times> string) option" where
  "read_sep c w s = Option.bind (read_char c s) (read_digits w)"

text \<open>An optional field: absent unless the separator is there.\<close>

definition read_opt :: "char \<Rightarrow> nat \<Rightarrow> string \<Rightarrow> (int \<times> string) option" where
  "read_opt c w s = (if s \<noteq> [] \<and> hd s = c then read_sep c w s else Some (0, s))"

definition read_offset :: "string \<Rightarrow> int option option" where
  "read_offset s =
     (case s of
        [] \<Rightarrow> Some None
      | sg # r \<Rightarrow>
          if sg \<noteq> CHR ''+'' \<and> sg \<noteq> CHR ''-'' then None
          else Option.bind (read_digits 2 r) (\<lambda>(h, r). Option.bind (read_sep (CHR '':'') 2 r) (\<lambda>(m, r).
            Option.bind (read_opt (CHR '':'') 2 r) (\<lambda>(sec, r). Option.bind (read_opt (CHR ''.'') 6 r) (\<lambda>(us, r).
              let z = ((h * 60 + m) * 60 + sec) * 1000000 + us in
              if r = [] \<and> m < 60 \<and> sec < 60 \<and> z < day_micros then Some (Some (if sg = CHR ''-'' then - z else z)) else None)))))"

definition read_iso :: "string \<Rightarrow> datetime option" where
  "read_iso s =
     Option.bind (read_digits 4 s) (\<lambda>(y, s). Option.bind (read_sep (CHR ''-'') 2 s) (\<lambda>(mo, s). Option.bind (read_sep (CHR ''-'') 2 s) (\<lambda>(d, s).
     Option.bind (read_sep (CHR ''T'') 2 s) (\<lambda>(h, s). Option.bind (read_sep (CHR '':'') 2 s) (\<lambda>(mi, s). Option.bind (read_sep (CHR '':'') 2 s) (\<lambda>(sec, s).
     Option.bind (read_opt (CHR ''.'') 6 s) (\<lambda>(us, s). Option.bind (read_offset s) (\<lambda>z.
       let n = days_from_civil (y, mo, d) in
       if 1 \<le> y \<and> civil_from_days n = (y, mo, d) \<and> h < 24 \<and> mi < 60 \<and> sec < 60
       then Some (DateTime (n * day_micros + ((h * 60 + mi) * 60 + sec) * 1000000 + us) z) else None))))))))"

definition fromisoformat :: "(string \<Rightarrow> datetime res) \<Rightarrow> string \<Rightarrow> datetime res" where
  "fromisoformat other s = (case read_iso s of Some d \<Rightarrow> Inr d | None \<Rightarrow> other s)"

lemma length_show_nat: "n < 10 ^ w \<Longrightarrow> 0 < w \<Longrightarrow> length (show_nat n) \<le> w"
proof (induction w arbitrary: n)
  case (Suc w)
  show ?case
  proof (cases "n < 10")
    case False
    then have "n div 10 < 10 ^ w" "0 < w" using Suc.prems(1) by (auto intro: gr0I)
    then show ?thesis using Suc.IH [of "n div 10"] False by (simp add: show_nat_rec [of n])
  qed (simp add: show_nat_rec [of n])
qed simp

lemma read_digits_show [simp]:
  assumes "0 \<le> n" "n < 10 ^ w" "0 < w"
  shows "read_digits w (show_pad w (nat n) @ r) = Some (n, r)"
proof -
  have "nat n < 10 ^ w" using assms by (simp add: nat_less_iff)
  then have "length (show_pad w (nat n)) = w" using length_show_nat [of "nat n" w] assms(3) by (simp add: show_pad_def Let_def)
  moreover have "list_all is_digit (show_pad w (nat n))"
    using show_nat_digits [of "nat n"] by (auto simp: show_pad_def Let_def list_all_iff is_digit_def)
  moreover have "nat_of_digits (show_pad w (nat n)) = nat n"
    by (simp add: show_pad_def Let_def nat_of_digits_zeros nat_of_digits_show)
  ultimately show ?thesis using assms(1) by (simp add: read_digits_def)
qed

lemma read_sep_show [simp]:
  "0 \<le> n \<Longrightarrow> n < 10 ^ w \<Longrightarrow> 0 < w \<Longrightarrow> read_sep c w (c # show_pad w (nat n) @ r) = Some (n, r)"
  by (simp add: read_sep_def read_char_def)

lemma read_opt_show:
  "0 \<le> n \<Longrightarrow> n < 10 ^ w \<Longrightarrow> 0 < w \<Longrightarrow> read_opt c w (c # show_pad w (nat n) @ r) = Some (n, r)"
  "r = [] \<or> hd r \<noteq> c \<Longrightarrow> read_opt c w r = Some (0, r)"
  by (auto simp: read_opt_def)

lemma mod_mult_div: "0 < b \<Longrightarrow> 0 < c \<Longrightarrow> a mod (b * c) div b = a div b mod c" for a b c :: int
  by (simp add: zmod_zmult2_eq)

lemma sexagesimal:
  fixes a :: int
  shows "((a div 3600000000 * 60 + a mod 3600000000 div 60000000) * 60 + a mod 60000000 div 1000000) * 1000000 + a mod 1000000 = a"
    "a mod 3600000000 div 60000000 < 60" "a mod 60000000 div 1000000 < 60"
    "0 \<le> a mod 3600000000 div 60000000" "0 \<le> a mod 60000000 div 1000000"
proof -
  have k: "(3600000000 :: int) = 60000000 * 60" "(60000000 :: int) = 1000000 * 60" by simp_all
  have m: "a mod 3600000000 div 60000000 = a div 60000000 mod 60" unfolding k(1) by (rule mod_mult_div) simp_all
  have s: "a mod 60000000 div 1000000 = a div 1000000 mod 60" unfolding k(2) by (rule mod_mult_div) simp_all
  have h: "a div 3600000000 = a div 60000000 div 60" unfolding k(1) by (rule zdiv_zmult2_eq) simp
  have m': "a div 60000000 = a div 1000000 div 60" unfolding k(2) by (rule zdiv_zmult2_eq) simp
  show "((a div 3600000000 * 60 + a mod 3600000000 div 60000000) * 60 + a mod 60000000 div 1000000) * 1000000 + a mod 1000000 = a"
    unfolding m s h m' div_mult_mod_eq ..
  show "a mod 3600000000 div 60000000 < 60" "a mod 60000000 div 1000000 < 60"
    "0 \<le> a mod 3600000000 div 60000000" "0 \<le> a mod 60000000 div 1000000"
    unfolding m s by (rule pos_mod_bound pos_mod_sign, simp)+
qed

lemma read_seconds:
  assumes "0 \<le> s" "s < 60" "0 \<le> u" "u < 1000000"
  shows "Option.bind (read_opt (CHR '':'') 2 ((if s \<noteq> 0 \<or> u \<noteq> 0 then '':'' @ show2 s else []) @ (if u \<noteq> 0 then ''.'' @ show_pad 6 (nat u) else [])))
      (\<lambda>(sec, r). Option.bind (read_opt (CHR ''.'') 6 r) (\<lambda>(us, r). g sec us r)) = g s u []"
  using assms read_opt_show(1) [of s 2 "CHR '':''"] read_opt_show(1) [of s 2 "CHR '':''" "[]"] read_opt_show(1) [of u 6 "CHR ''.''" "[]"]
  by (auto simp: show2_def read_opt_show(2))

lemma read_offset_fields:
  assumes "0 \<le> h" "h < 24" "0 \<le> m" "m < 60" "0 \<le> s" "s < 60" "0 \<le> u" "u < 1000000" and sg: "sg = CHR ''+'' \<or> sg = CHR ''-''"
  shows "read_offset (sg # show2 h @ CHR '':'' # show2 m @ (if s \<noteq> 0 \<or> u \<noteq> 0 then '':'' @ show2 s else []) @ (if u \<noteq> 0 then ''.'' @ show_pad 6 (nat u) else [])) =
     Some (Some ((if sg = CHR ''-'' then - 1 else 1) * (((h * 60 + m) * 60 + s) * 1000000 + u)))"
proof -
  let ?tail = "(if s \<noteq> 0 \<or> u \<noteq> 0 then '':'' @ show2 s else []) @ (if u \<noteq> 0 then ''.'' @ show_pad 6 (nat u) else [])"
  have m: "read_sep (CHR '':'') 2 (CHR '':'' # show2 m @ r) = Some (m, r)" for r
    using assms unfolding show2_def by (intro read_sep_show) simp_all
  have d: "read_digits 2 (show2 h @ r) = Some (h, r)" for r
    using assms unfolding show2_def by (intro read_digits_show) simp_all
  have "((h * 60 + m) * 60 + s) * 1000000 + u < day_micros" using assms by (simp add: day_micros_def algebra_simps)
  then show ?thesis
    unfolding read_offset_def using assms(4,6) sg
    by (simp only: list.case d m Option.bind.bind_lunit prod.case read_seconds [OF assms(5-8)] Let_def) auto
qed

lemma read_offset_show:
  assumes "\<bar>z\<bar> < day_micros"
  shows "read_offset (show_offset z) = Some (Some z)"
proof -
  let ?a = "\<bar>z\<bar>"
  note six = sexagesimal [of ?a]
  have h: "0 \<le> ?a div 3600000000" "?a div 3600000000 < 24" using assms by (simp_all add: day_micros_def pos_imp_zdiv_nonneg_iff)
  have u: "0 \<le> ?a mod 1000000" "?a mod 1000000 < 1000000" by simp_all
  let ?sg = "if z < 0 then CHR ''-'' else CHR ''+''"
  have "?sg = CHR ''+'' \<or> ?sg = CHR ''-''" by simp
  note fields = read_offset_fields [OF h six(4,2,5,3) u this, unfolded six(1)]
  have "show_offset z = ?sg # show2 (?a div 3600000000) @ CHR '':'' # show2 (?a mod 3600000000 div 60000000) @
      (if ?a mod 60000000 div 1000000 \<noteq> 0 \<or> ?a mod 1000000 \<noteq> 0 then '':'' @ show2 (?a mod 60000000 div 1000000) else []) @
      (if ?a mod 1000000 \<noteq> 0 then ''.'' @ show_pad 6 (nat (?a mod 1000000)) else [])"
    unfolding show_offset_def Let_def by (cases "z < 0") (simp_all only: if_True if_False append.simps)
  then have "read_offset (show_offset z) = Some (Some ((if ?sg = CHR ''-'' then - 1 else 1) * ?a))" by (simp only: fields)
  then show ?thesis by (simp split: if_splits)
qed

text \<open>What \<^verbatim>\<open>isoformat\<close> prints, \<^verbatim>\<open>fromisoformat\<close> reads back.\<close>

definition in_years :: "datetime \<Rightarrow> bool" where
  "in_years d \<longleftrightarrow> 1 \<le> year d \<and> year d \<le> 9999 \<and> (case utcoff d of None \<Rightarrow> True | Some z \<Rightarrow> \<bar>z\<bar> < day_micros)"

lemma time_fields:
  "hour d = wall d mod day_micros div 3600000000" "minute d = (wall d mod day_micros) mod 3600000000 div 60000000"
  "second d = (wall d mod day_micros) mod 60000000 div 1000000" "microsecond d = (wall d mod day_micros) mod 1000000"
  unfolding hour_def minute_def second_def microsecond_def day_micros_def by (simp_all add: mod_mod_cancel)

lemma read_iso_isoformat:
  assumes "in_years d"
  shows "read_iso (isoformat d) = Some d"
proof -
  obtain y m dd where c: "civil_from_days (wall d div day_micros) = (y, m, dd)" "1 \<le> m" "m \<le> 12" "1 \<le> dd" "dd \<le> 31"
    "days_from_civil (y, m, dd) = wall d div day_micros" by (rule civil_roundtrip)
  have f: "year d = y" "month d = m" "day d = dd" using c(1) by (simp_all add: year_def month_def day_def)
  have y: "1 \<le> y" "y < 10 ^ 4" using assms f by (auto simp: in_years_def)
  let ?t = "wall d mod day_micros"
  have six: "((hour d * 60 + minute d) * 60 + second d) * 1000000 + microsecond d = ?t"
    unfolding time_fields by (rule sexagesimal(1))
  have rng: "0 \<le> hour d" "hour d < 24" "0 \<le> minute d" "minute d < 60" "0 \<le> second d" "second d < 60" "0 \<le> microsecond d" "microsecond d < 10 ^ 6"
    using hour_range [of d] sexagesimal(2-5) [of "wall d"] unfolding minute_def second_def microsecond_def by simp_all
  let ?off = "case utcoff d of None \<Rightarrow> [] | Some z \<Rightarrow> show_offset z"
  have off: "read_offset ?off = Some (utcoff d)"
    using assms by (auto simp: in_years_def read_offset_show split: option.splits) (simp add: read_offset_def)
  have nodot: "?off = [] \<or> hd ?off \<noteq> CHR ''.''" by (auto simp: show_offset_def Let_def split: option.split)
  let ?us = "(if microsecond d \<noteq> 0 then ''.'' @ show_pad 6 (nat (microsecond d)) else []) @ ?off"
  have us: "read_opt (CHR ''.'') 6 ?us = Some (microsecond d, ?off)"
    using rng read_opt_show(1) [of "microsecond d" 6 "CHR ''.''" ?off] read_opt_show(2) [OF nodot] by auto
  have sep: "read_sep ch 2 (ch # show2 n @ r) = Some (n, r)" if "0 \<le> n" "n < 100" for ch n r
    using that unfolding show2_def by (intro read_sep_show) simp_all
  have yr: "read_digits 4 (show_pad 4 (nat y) @ r) = Some (y, r)" for r using y by (intro read_digits_show) simp_all
  have shape: "isoformat d = show_pad 4 (nat y) @ CHR ''-'' # show2 m @ CHR ''-'' # show2 dd @ CHR ''T'' # show2 (hour d) @ CHR '':'' # show2 (minute d) @
      CHR '':'' # show2 (second d) @ ?us"
    by (simp add: isoformat_def isoformat_sep_def f)
  have w: "wall d div day_micros * day_micros + ((hour d * 60 + minute d) * 60 + second d) * 1000000 + microsecond d = wall d"
    using six div_mult_mod_eq [of "wall d" day_micros] by linarith
  have m2: "m < 100" "0 \<le> m" "dd < 100" "0 \<le> dd" "hour d < 100" "minute d < 100" "second d < 100" using c rng by simp_all
  have "read_iso (isoformat d) = Some (DateTime (wall d) (utcoff d))"
    unfolding shape read_iso_def
    by (simp only: Option.bind.bind_lunit prod.case yr sep [OF m2(2,1)] sep [OF m2(4,3)] sep [OF rng(1) m2(5)] sep [OF rng(3) m2(6)]
        sep [OF rng(5) m2(7)] us off Let_def c(6) c(1) w y(1) rng(2,4,6) simp_thms if_True)
  then show ?thesis by simp
qed

lemma fromisoformat_isoformat: "in_years d \<Longrightarrow> fromisoformat other (isoformat d) = Inr d"
  by (simp add: fromisoformat_def read_iso_isoformat)

lemma isoformat_inj: "in_years d \<Longrightarrow> in_years e \<Longrightarrow> isoformat d = isoformat e \<longleftrightarrow> d = e"
  by (metis option.inject read_iso_isoformat)

end
