(* ===== verification/DynamoStore.thy ===== *)
theory DynamoStore
  imports Dashboards Settings IsoTime
begin

text \<open>
  \<^verbatim>\<open>dashboards/dynamodb_projection_store.py\<close>: the production backend of the projection
  store. The client of the database is an argument, a record of the four calls the store
  makes on a state \<open>'d\<close>; each may change the state and may raise. What the store relies on
  is named below as the law of a table: strongly consistent single-item calls, and queries
  that return the keys of a partition in order, page by page.
\<close>

subsection \<open>The client\<close>

datatype attribute = AttrS string | AttrN string

type_synonym item = "(string, attribute) dict"

record query_args =
  qa_table :: string
  qa_condition :: string
  qa_projection :: string
  qa_names :: "(string, string) dict"
  qa_values :: item
  qa_start :: "item option"

record query_response =
  qr_items :: "item list option"
  qr_last :: "item option"

record 'd dynamo_client =
  get_item :: "'d \<Rightarrow> string \<Rightarrow> item \<Rightarrow> 'd \<times> item option res"
  put_item :: "'d \<Rightarrow> string \<Rightarrow> item \<Rightarrow> 'd \<times> unit res"
  delete_item :: "'d \<Rightarrow> string \<Rightarrow> item \<Rightarrow> 'd \<times> unit res"
  query :: "'d \<Rightarrow> query_args \<Rightarrow> 'd \<times> query_response res"

text \<open>\<^verbatim>\<open>item[name]["S"]\<close>\<close>

definition attr_s :: "string \<Rightarrow> item \<Rightarrow> string res" where
  "attr_s name it =
     (case dict_get it name of
        Some (AttrS s) \<Rightarrow> Inr s
      | Some (AttrN _) \<Rightarrow> Inl (KeyError (repr_str ''S''))
      | None \<Rightarrow> Inl (KeyError (repr_str name)))"

subsection \<open>Expiry\<close>

type_synonym ttl_resolver = "string \<Rightarrow> string \<Rightarrow> int option res"

definition TTL_ATTRIBUTE :: string where "TTL_ATTRIBUTE = ''ttl''"

definition DEFAULT_ANOMALY_RATE_TTL_SECONDS :: int where "DEFAULT_ANOMALY_RATE_TTL_SECONDS = 86400"

definition no_ttl :: ttl_resolver where "no_ttl view key = Inr None"

text \<open>\<^verbatim>\<open>s.rpartition(c)[2]\<close>\<close>

definition after_last :: "char \<Rightarrow> string \<Rightarrow> string" where
  "after_last c s = rev (takeWhile (\<lambda>x. x \<noteq> c) (rev s))"

definition make_ttl_resolver ::
  "(int \<Rightarrow> pyfloat) \<Rightarrow> (string \<Rightarrow> datetime res) \<Rightarrow> (string, int) dict \<Rightarrow> ttl_resolver" where
  "make_ttl_resolver mktime other policies view key =
     (case dict_get policies view of
        None \<Rightarrow> Inr None
      | Some retention \<Rightarrow>
          bind_res (fromisoformat other (after_last (CHR ''|'') key)) (\<lambda>bucket_time.
            Inr (Some (trunc (posix_timestamp mktime bucket_time) + retention))))"

definition default_ttl_resolver :: "(int \<Rightarrow> pyfloat) \<Rightarrow> (string \<Rightarrow> datetime res) \<Rightarrow> int \<Rightarrow> ttl_resolver" where
  "default_ttl_resolver mktime other anomaly_rate_ttl_seconds =
     make_ttl_resolver mktime other [(RATE_VIEW, anomaly_rate_ttl_seconds)]"

subsection \<open>The store\<close>

record 'd dynamo_store =
  dy_table :: "string option"
  dy_ttl_resolver :: ttl_resolver
  dy_client :: "'d dynamo_client option"

text \<open>\<open>boto3\<close> is the result of building the default client.\<close>

definition dynamo_store_init ::
  "'d dynamo_client res \<Rightarrow> ttl_resolver \<Rightarrow> platform_settings \<Rightarrow> 'd dynamo_client res option \<Rightarrow> ttl_resolver option \<Rightarrow> 'd dynamo_store res" where
  "dynamo_store_init boto3 default_resolver settings client_factory resolver =
     (let table = projection_table settings;
          ttl = (case resolver of Some r \<Rightarrow> r | None \<Rightarrow> default_resolver) in
      case table of
        None \<Rightarrow> Inr \<lparr>dy_table = None, dy_ttl_resolver = ttl, dy_client = None\<rparr>
      | Some _ \<Rightarrow>
          bind_res (case client_factory of Some factory \<Rightarrow> factory | None \<Rightarrow> boto3) (\<lambda>client.
            Inr \<lparr>dy_table = table, dy_ttl_resolver = ttl, dy_client = Some client\<rparr>))"

definition item_key :: "string \<Rightarrow> string \<Rightarrow> item" where
  "item_key view key = [(''view'', AttrS view), (''key'', AttrS key)]"

text \<open>Every operation first looks at the table, then calls the client.\<close>

definition with_client ::
  "'d dynamo_store \<Rightarrow> string \<Rightarrow> 'd \<Rightarrow> 'a \<Rightarrow> (string \<Rightarrow> 'd dynamo_client \<Rightarrow> 'd \<times> 'a res) \<Rightarrow> 'd \<times> 'a res" where
  "with_client st call d unset f =
     (case dy_table st of
        None \<Rightarrow> (d, Inr unset)
      | Some table \<Rightarrow>
          (case dy_client st of
             None \<Rightarrow> (d, Inl (AttributeError (''NoneType object has no attribute '' @ repr_str call)))
           | Some c \<Rightarrow> f table c))"

definition dynamo_get :: "'d dynamo_store \<Rightarrow> 'd \<Rightarrow> string \<Rightarrow> string \<Rightarrow> 'd \<times> string option res" where
  "dynamo_get st d view key =
     with_client st ''get_item'' d None (\<lambda>table c.
       case get_item c d table (item_key view key) of
         (d, Inl e) \<Rightarrow> (d, Inl e)
       | (d, Inr None) \<Rightarrow> (d, Inr None)
       | (d, Inr (Some it)) \<Rightarrow> (d, map_sum id Some (attr_s ''value'' it)))"

definition put_attributes :: "string \<Rightarrow> string \<Rightarrow> string \<Rightarrow> int option \<Rightarrow> item" where
  "put_attributes view key val expiry =
     [(''view'', AttrS view), (''key'', AttrS key), (''value'', AttrS val)] @
     (case expiry of None \<Rightarrow> [] | Some e \<Rightarrow> [(TTL_ATTRIBUTE, AttrN (show_int e))])"

definition dynamo_put :: "'d dynamo_store \<Rightarrow> 'd \<Rightarrow> string \<Rightarrow> string \<Rightarrow> string \<Rightarrow> 'd \<times> unit res" where
  "dynamo_put st d view key val =
     (case dy_table st of
        None \<Rightarrow> (d, Inr ())
      | Some _ \<Rightarrow>
          (case dy_ttl_resolver st view key of
             Inl e \<Rightarrow> (d, Inl e)
           | Inr expiry \<Rightarrow>
               with_client st ''put_item'' d () (\<lambda>table c. put_item c d table (put_attributes view key val expiry))))"

definition dynamo_delete :: "'d dynamo_store \<Rightarrow> 'd \<Rightarrow> string \<Rightarrow> string \<Rightarrow> 'd \<times> unit res" where
  "dynamo_delete st d view key =
     with_client st ''delete_item'' d () (\<lambda>table c. delete_item c d table (item_key view key))"

definition query_of :: "string \<Rightarrow> string \<Rightarrow> item option \<Rightarrow> query_args" where
  "query_of table view start_key =
     \<lparr>qa_table = table, qa_condition = ''#v = :view'', qa_projection = ''#k'',
      qa_names = [(''#v'', ''view''), (''#k'', ''key'')], qa_values = [('':view'', AttrS view)], qa_start = start_key\<rparr>"

text \<open>
  The loop over the pages of a partition. Whether it ends is up to the client, so not
  returning is the value \<open>None\<close>.
\<close>

partial_function (option) query_loop ::
  "'d dynamo_client \<Rightarrow> string \<Rightarrow> string \<Rightarrow> item option \<Rightarrow> string list \<Rightarrow> 'd \<Rightarrow> ('d \<times> string list res) option" where
  "query_loop c table view start_key collected d =
     (case query c d (query_of table view start_key) of
        (d', Inl e) \<Rightarrow> Some (d', Inl e)
      | (d', Inr response) \<Rightarrow>
          (case map_res (attr_s ''key'') (case qr_items response of None \<Rightarrow> [] | Some is \<Rightarrow> is) of
             Inl e \<Rightarrow> Some (d', Inl e)
           | Inr ks \<Rightarrow>
               (case qr_last response of
                  None \<Rightarrow> Some (d', Inr (sort (collected @ ks)))
                | Some k \<Rightarrow> query_loop c table view (Some k) (collected @ ks) d')))"

definition dynamo_keys :: "'d dynamo_store \<Rightarrow> 'd \<Rightarrow> string \<Rightarrow> ('d \<times> string list res) option" where
  "dynamo_keys st d view =
     (case dy_table st of
        None \<Rightarrow> Some (d, Inr [])
      | Some table \<Rightarrow>
          (case dy_client st of
             None \<Rightarrow> Some (d, Inl (AttributeError (''NoneType object has no attribute '' @ repr_str ''query'')))
           | Some c \<Rightarrow> query_loop c table view None [] d))"

subsection \<open>The law of a table\<close>

text \<open>
  \<open>contents\<close> reads the items of the table off the state of the database, \<open>ok\<close> are the states
  in which the service answers. Reads and queries leave the items alone; a write changes
  the item of its key only; a table is finite and its items carry their keys. Expiry is
  not part of the law: it speaks of tables from which the service has removed nothing yet.
\<close>

definition keyed :: "item \<Rightarrow> string \<Rightarrow> string \<Rightarrow> bool" where
  "keyed it view key \<longleftrightarrow> dict_get it ''view'' = Some (AttrS view) \<and> dict_get it ''key'' = Some (AttrS key)"

type_synonym table_contents = "string \<times> string \<Rightarrow> item option"

definition lawful_reads :: "'d dynamo_client \<Rightarrow> string \<Rightarrow> ('d \<Rightarrow> bool) \<Rightarrow> ('d \<Rightarrow> table_contents) \<Rightarrow> bool" where
  "lawful_reads c table ok contents \<longleftrightarrow>
     (\<forall>d view key. ok d \<longrightarrow>
        (\<exists>d'. get_item c d table (item_key view key) = (d', Inr (contents d (view, key))) \<and> ok d' \<and> contents d' = contents d))"

definition lawful_writes :: "'d dynamo_client \<Rightarrow> string \<Rightarrow> ('d \<Rightarrow> bool) \<Rightarrow> ('d \<Rightarrow> table_contents) \<Rightarrow> bool" where
  "lawful_writes c table ok contents \<longleftrightarrow>
     (\<forall>d it view key. ok d \<and> keyed it view key \<longrightarrow>
        (\<exists>d'. put_item c d table it = (d', Inr ()) \<and> ok d' \<and> contents d' = (contents d)((view, key) \<mapsto> it))) \<and>
     (\<forall>d view key. ok d \<longrightarrow>
        (\<exists>d'. delete_item c d table (item_key view key) = (d', Inr ()) \<and> ok d' \<and> contents d' = (contents d)((view, key) := None)))"

definition lawful_table :: "('d \<Rightarrow> bool) \<Rightarrow> ('d \<Rightarrow> table_contents) \<Rightarrow> bool" where
  "lawful_table ok contents \<longleftrightarrow>
     (\<forall>d. ok d \<longrightarrow> finite (dom (contents d)) \<and> (\<forall>view key it. contents d (view, key) = Some it \<longrightarrow> keyed it view key))"

text \<open>The keys of a partition behind a start key, in order.\<close>

definition partition_keys :: "table_contents \<Rightarrow> string \<Rightarrow> string option \<Rightarrow> string list" where
  "partition_keys t view start =
     filter (\<lambda>k. case start of None \<Rightarrow> True | Some k0 \<Rightarrow> k0 < k) (sorted_list_of_set {k. t (view, k) \<noteq> None})"

definition lawful_query :: "'d dynamo_client \<Rightarrow> string \<Rightarrow> ('d \<Rightarrow> bool) \<Rightarrow> ('d \<Rightarrow> table_contents) \<Rightarrow> bool" where
  "lawful_query c table ok contents \<longleftrightarrow>
     (\<forall>d view start. ok d \<longrightarrow>
        (\<exists>d' ks rest last_key. query c d (query_of table view (map_option (item_key view) start)) =
             (d', Inr \<lparr>qr_items = Some (map (\<lambda>k. [(''key'', AttrS k)]) ks), qr_last = last_key\<rparr>) \<and>
           ok d' \<and> contents d' = contents d \<and> partition_keys (contents d) view start = ks @ rest \<and>
           (last_key = None \<and> rest = [] \<or> ks \<noteq> [] \<and> last_key = Some (item_key view (last ks)))))"

definition lawful_client :: "'d dynamo_client \<Rightarrow> string \<Rightarrow> ('d \<Rightarrow> bool) \<Rightarrow> ('d \<Rightarrow> table_contents) \<Rightarrow> bool" where
  "lawful_client c table ok contents \<longleftrightarrow>
     lawful_reads c table ok contents \<and> lawful_writes c table ok contents \<and> lawful_table ok contents \<and> lawful_query c table ok contents"

subsection \<open>Listing a partition\<close>

lemma filter_behind:
  fixes ks :: "'a :: linorder list"
  assumes "sorted_wrt (<) (ks @ rest)" "ks \<noteq> []"
  shows "filter (\<lambda>k. last ks < k) (ks @ rest) = rest"
proof -
  have "\<not> last ks < k" if "k \<in> set ks" for k
  proof -
    have "sorted (butlast ks @ [last ks])" using assms by (simp add: strict_sorted_iff sorted_append)
    moreover have "k \<in> set (butlast ks @ [last ks])" using that assms(2) by simp
    ultimately show ?thesis by (auto simp: sorted_append not_less)
  qed
  moreover have "last ks < k" if "k \<in> set rest" for k
    using assms that by (auto simp: sorted_wrt_append)
  ultimately show ?thesis by (simp add: filter_id_conv filter_empty_conv)
qed

lemma strict_sorted_partition_keys: "sorted_wrt (<) (partition_keys t view start)"
  by (simp add: partition_keys_def sorted_wrt_filter strict_sorted_list_of_set)

lemma partition_keys_behind:
  assumes "partition_keys t view start = ks @ rest" "ks \<noteq> []"
  shows "partition_keys t view (Some (last ks)) = rest"
proof -
  let ?xs = "sorted_list_of_set {k. t (view, k) \<noteq> None}"
  have lt: "k0 < last ks" if "start = Some k0" for k0
  proof -
    have "last ks \<in> set (partition_keys t view start)" using assms by simp
    then show ?thesis using that by (simp add: partition_keys_def)
  qed
  have "filter (\<lambda>k. last ks < k) ?xs = filter (\<lambda>k. last ks < k) (partition_keys t view start)"
    unfolding partition_keys_def filter_filter
    by (rule filter_cong) (use lt in \<open>auto split: option.split intro: less_trans\<close>)
  then have "partition_keys t view (Some (last ks)) = filter (\<lambda>k. last ks < k) (ks @ rest)"
    by (simp add: partition_keys_def assms(1) [symmetric])
  then show ?thesis using filter_behind strict_sorted_partition_keys [of t view start] assms by metis
qed

lemma map_res_keys: "map_res (attr_s ''key'') (map (\<lambda>k. [(''key'', AttrS k)]) ks) = Inr ks"
  by (induction ks) (simp_all add: attr_s_def)

text \<open>The loop over the pages returns, whatever the sizes of the pages.\<close>

lemma query_loop_returns:
  assumes law: "lawful_query c table ok contents" and "ok d"
  shows "\<exists>d'. query_loop c table view (map_option (item_key view) start) collected d =
      Some (d', Inr (sort (collected @ partition_keys (contents d) view start))) \<and> ok d' \<and> contents d' = contents d"
  using assms(2)
proof (induction "length (partition_keys (contents d) view start)" arbitrary: start collected d rule: less_induct)
  case less
  obtain d' ks rest last_key where q: "query c d (query_of table view (map_option (item_key view) start)) =
        (d', Inr \<lparr>qr_items = Some (map (\<lambda>k. [(''key'', AttrS k)]) ks), qr_last = last_key\<rparr>)"
      and d': "ok d'" "contents d' = contents d" and p: "partition_keys (contents d) view start = ks @ rest"
      and l: "last_key = None \<and> rest = [] \<or> ks \<noteq> [] \<and> last_key = Some (item_key view (last ks))"
    using law less.prems unfolding lawful_query_def by blast
  show ?case
  proof (cases last_key)
    case None
    then have "rest = []" using l by auto
    then show ?thesis using q d' p None by (subst query_loop.simps) (simp add: map_res_keys)
  next
    case (Some k)
    then have k: "ks \<noteq> []" "k = item_key view (last ks)" using l by auto
    note rest = partition_keys_behind [OF p k(1)]
    have "length (partition_keys (contents d') view (Some (last ks))) < length (partition_keys (contents d) view start)"
      using k(1) by (simp add: d'(2) rest p)
    from less.hyps [OF this d'(1), of "collected @ ks"] obtain d'' where
      "query_loop c table view (Some k) (collected @ ks) d' = Some (d'', Inr (sort ((collected @ ks) @ rest)))" "ok d''" "contents d'' = contents d"
      using k(2) by (auto simp: d'(2) rest)
    then show ?thesis using q p Some by (subst query_loop.simps) (simp add: map_res_keys)
  qed
qed

definition serves :: "'d dynamo_store \<Rightarrow> ('d \<Rightarrow> bool) \<Rightarrow> ('d \<Rightarrow> table_contents) \<Rightarrow> bool" where
  "serves st ok contents \<longleftrightarrow>
     (\<exists>table c. dy_table st = Some table \<and> dy_client st = Some c \<and> lawful_client c table ok contents)"

lemma dynamo_keys_returns:
  assumes "serves st ok contents" "ok d"
  shows "\<exists>d'. dynamo_keys st d view = Some (d', Inr (sorted_list_of_set {k. contents d (view, k) \<noteq> None})) \<and> ok d' \<and> contents d' = contents d"
proof -
  obtain table c where t: "dy_table st = Some table" "dy_client st = Some c" "lawful_query c table ok contents"
    using assms(1) by (auto simp: serves_def lawful_client_def)
  have "partition_keys (contents d) view None = sorted_list_of_set {k. contents d (view, k) \<noteq> None}"
    by (simp add: partition_keys_def)
  then show ?thesis using query_loop_returns [OF t(3) assms(2), of view None "[]"] t(1,2) by (auto simp: dynamo_keys_def sorted_sort_id)
qed

subsection \<open>Interchangeable with the in-memory store\<close>

text \<open>The calls of the protocol and their answers; a run stops at the first exception.\<close>

datatype store_call = GetCall string string | PutCall string string string | DeleteCall string string | KeysCall string

datatype store_reply = Value "string option" | Done | Listing "string list"

fun mem_answer :: "memory_store \<Rightarrow> store_call \<Rightarrow> memory_store \<times> store_reply" where
  "mem_answer s (GetCall v k) = (s, Value (mem_get s v k))"
| "mem_answer s (PutCall v k x) = (mem_put s v k x, Done)"
| "mem_answer s (DeleteCall v k) = (mem_delete s v k, Done)"
| "mem_answer s (KeysCall v) = (s, Listing (mem_keys s v))"

fun dynamo_answer :: "'d dynamo_store \<Rightarrow> 'd \<Rightarrow> store_call \<Rightarrow> ('d \<times> store_reply res) option" where
  "dynamo_answer st d (GetCall v k) = Some (map_prod id (map_sum id Value) (dynamo_get st d v k))"
| "dynamo_answer st d (PutCall v k x) = Some (map_prod id (map_sum id (\<lambda>_. Done)) (dynamo_put st d v k x))"
| "dynamo_answer st d (DeleteCall v k) = Some (map_prod id (map_sum id (\<lambda>_. Done)) (dynamo_delete st d v k))"
| "dynamo_answer st d (KeysCall v) = map_option (map_prod id (map_sum id Listing)) (dynamo_keys st d v)"

fun dynamo_run :: "'d dynamo_store \<Rightarrow> 'd \<Rightarrow> store_call list \<Rightarrow> ('d \<times> store_reply list res) option" where
  "dynamo_run st d [] = Some (d, Inr [])"
| "dynamo_run st d (c # cs) =
     (case dynamo_answer st d c of
        None \<Rightarrow> None
      | Some (d', Inl e) \<Rightarrow> Some (d', Inl e)
      | Some (d', Inr r) \<Rightarrow> map_option (map_prod id (map_sum id (Cons r))) (dynamo_run st d' cs))"

definition resolvable :: "ttl_resolver \<Rightarrow> store_call \<Rightarrow> bool" where
  "resolvable resolver c \<longleftrightarrow> (case c of PutCall v k x \<Rightarrow> \<not> isl (resolver v k) | _ \<Rightarrow> True)"

definition agrees :: "table_contents \<Rightarrow> memory_store \<Rightarrow> bool" where
  "agrees t s \<longleftrightarrow> mem_valid s \<and> (\<forall>v k. map_option (attr_s ''value'') (t (v, k)) = map_option Inr (mem_get s v k))"

lemmas memory_laws = memory.get_put memory.get_delete memory.keys_spec memory.valid_put memory.valid_delete

lemma agrees_keys:
  assumes "agrees t s"
  shows "sorted_list_of_set {k. t (v, k) \<noteq> None} = mem_keys s v"
proof -
  have "{k. t (v, k) \<noteq> None} = {k. mem_get s v k \<noteq> None}" using assms unfolding agrees_def by (metis map_option_is_None)
  moreover have "set (mem_keys s v) = {k. mem_get s v k \<noteq> None}" "sorted (mem_keys s v)" "distinct (mem_keys s v)"
    using memory_laws(3) [of s v] assms by (auto simp: agrees_def InMemoryProjectionStore_def)
  ultimately show ?thesis by (metis sorted_list_of_set.idem_if_sorted_distinct)
qed

lemma agrees_put:
  assumes "agrees t s"
  shows "agrees (t((v, k) \<mapsto> put_attributes v k x e)) (mem_put s v k x)"
  using assms memory_laws(1,4) [of s v k x]
  by (auto simp: agrees_def InMemoryProjectionStore_def attr_s_def put_attributes_def)

lemma agrees_delete: "agrees t s \<Longrightarrow> agrees (t((v, k) := None)) (mem_delete s v k)"
  using memory_laws(2,5) [of s v k] by (auto simp: agrees_def InMemoryProjectionStore_def)

lemma keyed_attributes: "keyed (put_attributes v k x e) v k"
  by (simp add: keyed_def put_attributes_def)

lemma answer_agrees:
  assumes st: "serves st ok contents" and d: "ok d" and a: "agrees (contents d) s" and r: "resolvable (dy_ttl_resolver st) c"
  shows "\<exists>d' s' reply. dynamo_answer st d c = Some (d', Inr reply) \<and> mem_answer s c = (s', reply) \<and> ok d' \<and> agrees (contents d') s'"
proof -
  obtain table cl where t: "dy_table st = Some table" "dy_client st = Some cl"
    and law: "lawful_reads cl table ok contents" "lawful_writes cl table ok contents"
    using st by (auto simp: serves_def lawful_client_def)
  show ?thesis
  proof (cases c)
    case (GetCall v k)
    obtain d' where g: "get_item cl d table (item_key v k) = (d', Inr (contents d (v, k)))" "ok d'" "contents d' = contents d"
      using law(1) d unfolding lawful_reads_def by blast
    have "map_option (attr_s ''value'') (contents d (v, k)) = map_option Inr (mem_get s v k)" using a by (simp add: agrees_def)
    then have "dynamo_get st d v k = (d', Inr (mem_get s v k))"
      using g(1) t by (cases "contents d (v, k)"; cases "mem_get s v k") (auto simp: dynamo_get_def with_client_def)
    then show ?thesis using GetCall g a by simp
  next
    case (PutCall v k x)
    then obtain e where e: "dy_ttl_resolver st v k = Inr e" using r by (cases "dy_ttl_resolver st v k") (simp_all add: resolvable_def)
    obtain d' where "put_item cl d table (put_attributes v k x e) = (d', Inr ())" "ok d'"
        "contents d' = (contents d)((v, k) \<mapsto> put_attributes v k x e)"
      using law(2) d keyed_attributes unfolding lawful_writes_def by blast
    then show ?thesis using PutCall t e agrees_put [OF a] by (simp add: dynamo_put_def with_client_def)
  next
    case (DeleteCall v k)
    obtain d' where "delete_item cl d table (item_key v k) = (d', Inr ())" "ok d'" "contents d' = (contents d)((v, k) := None)"
      using law(2) d unfolding lawful_writes_def by blast
    then show ?thesis using DeleteCall t agrees_delete [OF a] by (simp add: dynamo_delete_def with_client_def)
  next
    case (KeysCall v)
    then show ?thesis using dynamo_keys_returns [OF st d, of v] agrees_keys [OF a, of v] a by auto
  qed
qed

text \<open>
  C19: listing a view always returns: however the client cuts the partition into pages, the
  loop ends, with every key of the view once and in order.
\<close>

theorem listing_terminates:
  assumes "serves st ok contents" "ok d"
  shows "\<exists>d' ks. dynamo_keys st d view = Some (d', Inr ks) \<and> contents d' = contents d \<and>
     set ks = {k. contents d (view, k) \<noteq> None} \<and> sorted ks \<and> distinct ks"
proof -
  have "finite {k. contents d (view, k) \<noteq> None}"
  proof -
    have "finite (dom (contents d))" using assms by (auto simp: serves_def lawful_client_def lawful_table_def)
    then have "finite (snd ` dom (contents d))" by simp
    then show ?thesis by (rule finite_subset [rotated]) force
  qed
  then show ?thesis using dynamo_keys_returns [OF assms, of view] by auto
qed

subsection \<open>Expiry of the buckets\<close>

lemma era_bounds:
  fixes e x l h k d n :: int
  assumes "n = e * 146097 + (365 * x + l - h + (k + d - 1)) - 719468" "0 \<le> x" "x \<le> 399" "0 \<le> l" "l \<le> 99" "0 \<le> h" "h \<le> 3"
    "0 \<le> k" "k \<le> 337" "1 \<le> d" "d \<le> 31" "- 100000 \<le> n" "n \<le> 100000"
  shows "1 \<le> e * 400 + x \<and> e * 400 + x < 8000"
proof -
  have "0 < e" "e < 19" using assms by linarith+
  then show ?thesis using assms(2,3) by linarith
qed

lemma days_bounds:
  assumes "days_from_civil (y, m, d) = n" "1 \<le> m" "m \<le> 12" "1 \<le> d" "d \<le> 31" "- 100000 \<le> n" "n \<le> 100000"
  shows "1 \<le> y \<and> y \<le> 9999"
proof -
  define y' where "y' = (if m \<le> 2 then y - 1 else y)"
  define mp where "mp = (m + 9) mod 12"
  define x where "x = y' mod 400"
  have n: "n = y' div 400 * 146097 + (365 * x + x div 4 - x div 100 + ((153 * mp + 2) div 5 + d - 1)) - 719468"
    using assms(1) unfolding days_from_civil_def Let_def split x_def y'_def mp_def by (rule sym)
  have mp: "0 \<le> mp" "mp \<le> 11" and x: "0 \<le> x" "x \<le> 399" unfolding mp_def x_def by simp_all
  have k: "0 \<le> (153 * mp + 2) div 5" "(153 * mp + 2) div 5 \<le> 337"
    using mp by (simp add: pos_imp_zdiv_nonneg_iff) (rule order_trans [OF zdiv_mono1 [of _ 1685 5]], use mp in simp_all)
  have l: "0 \<le> x div 4" "x div 4 \<le> 99" using x(1) by (simp add: pos_imp_zdiv_nonneg_iff) (rule order_trans [OF zdiv_mono1 [OF x(2), of 4]], simp_all)
  have h: "0 \<le> x div 100" "x div 100 \<le> 3" using x(1) by (simp add: pos_imp_zdiv_nonneg_iff) (rule order_trans [OF zdiv_mono1 [OF x(2), of 100]], simp_all)
  note era_bounds [OF n x l h k assms(4-7)]
  then have "1 \<le> y' \<and> y' < 8000" unfolding x_def div_mult_mod_eq .
  then show ?thesis unfolding y'_def by (simp split: if_splits)
qed

lemma in_years_near:
  assumes "\<bar>t\<bar> < 2 ^ 52"
  shows "in_years (UTC t)"
proof -
  obtain y m d where c: "civil_from_days (t div day_micros) = (y, m, d)" "1 \<le> m" "m \<le> 12" "1 \<le> d" "d \<le> 31" "days_from_civil (y, m, d) = t div day_micros"
    by (rule civil_roundtrip)
  have "(- (2 ^ 52)) div day_micros \<le> t div day_micros" "t div day_micros \<le> 2 ^ 52 div day_micros"
    using assms by (intro zdiv_mono1; simp add: day_micros_def)+
  then have "- 100000 \<le> t div day_micros" "t div day_micros \<le> 100000" by (simp_all add: day_micros_def)
  then show ?thesis using days_bounds [OF c(6,2-5)] c(1) by (simp add: in_years_def year_def UTC_def day_micros_def)
qed

lemma isoformat_no_bar: "CHR ''|'' \<notin> set (isoformat d)"
proof -
  have "CHR ''|'' \<notin> set (show_nat n)" for n using show_nat_digits [of n] by (auto simp: is_digit_def)
  then have "CHR ''|'' \<notin> set (show_pad w n)" for w n by (simp add: show_pad_def Let_def)
  then show ?thesis by (simp add: isoformat_def isoformat_sep_def show_offset_def show2_def Let_def split: option.split)
qed

lemma after_last_key:
  assumes "c \<notin> set t"
  shows "after_last c (s @ c # t) = t"
proof -
  have "takeWhile (\<lambda>x. x \<noteq> c) (rev t @ c # rev s) = rev t @ takeWhile (\<lambda>x. x \<noteq> c) (c # rev s)"
    using assms by (intro takeWhile_append2) auto
  then show ?thesis by (simp add: after_last_def)
qed

lemma trunc_seconds:
  assumes "\<bar>s\<bar> \<le> 2 ^ 53"
  shows "trunc (posix_timestamp mktime (UTC (seconds s))) = s"
  using assms by (simp add: posix_timestamp_def true_div_def trunc_def)

lemma default_expiry:
  assumes "\<bar>instant t\<bar> < 2 ^ 51"
  shows "default_ttl_resolver mktime other retention RATE_VIEW (rate_key name (bucket_start t)) =
      Inr (Some (instant t div 60000000 * 60 + retention))"
    "view \<noteq> RATE_VIEW \<Longrightarrow> default_ttl_resolver mktime other retention view key = Inr None"
proof -
  let ?s = "instant t div 60000000 * 60"
  have b: "bucket_start t = seconds ?s" using bucket_start_exact [of t] assms by simp
  have s: "\<bar>seconds ?s\<bar> < 2 ^ 52" "\<bar>?s\<bar> \<le> 2 ^ 53"
  proof -
    have "60000000 * (instant t div 60000000) \<le> instant t" "instant t < 60000000 * (instant t div 60000000) + 60000000"
      using mult_div_mod_eq [of 60000000 "instant t"] pos_mod_bound [of 60000000 "instant t"] pos_mod_sign [of 60000000 "instant t"] by linarith+
    then show "\<bar>seconds ?s\<bar> < 2 ^ 52" "\<bar>?s\<bar> \<le> 2 ^ 53" using assms by (simp_all add: abs_less_iff abs_le_iff)
  qed
  show "default_ttl_resolver mktime other retention RATE_VIEW (rate_key name (bucket_start t)) = Inr (Some (?s + retention))"
    unfolding default_ttl_resolver_def make_ttl_resolver_def rate_key_def b
    by (simp add: after_last_key [OF isoformat_no_bar] fromisoformat_isoformat in_years_near [OF s(1), simplified] trunc_seconds [OF s(2), simplified])
qed (simp add: default_ttl_resolver_def make_ttl_resolver_def)

text \<open>
  Expiry follows event time. For every moment from 1899 to 2041, the item written for the
  anomaly bucket of that moment carries the end of its retention, counted in whole seconds
  from the start of the bucket itself and not from any clock; an item of another view
  carries no expiry at all.
\<close>

theorem bucket_expiry:
  assumes "\<bar>instant t\<bar> < 2 ^ 51" and "dy_ttl_resolver st = default_ttl_resolver mktime other retention"
    and "dy_table st = Some table" "dy_client st = Some c"
  shows "dynamo_put st d RATE_VIEW (rate_key name (bucket_start t)) x =
      put_item c d table [(''view'', AttrS RATE_VIEW), (''key'', AttrS (rate_key name (bucket_start t))), (''value'', AttrS x),
        (''ttl'', AttrN (show_int (instant t div 60000000 * 60 + retention)))] \<and>
    (view = RATE_VIEW \<or> dynamo_put st d view key x = put_item c d table [(''view'', AttrS view), (''key'', AttrS key), (''value'', AttrS x)])"
  using default_expiry [OF assms(1)] assms(2-4)
  by (cases "view = RATE_VIEW") (simp_all add: dynamo_put_def with_client_def put_attributes_def TTL_ATTRIBUTE_def)

subsection \<open>No table\<close>

lemma unset_table_inert: "dy_table st = None \<Longrightarrow> \<exists>replies. dynamo_run st d cs = Some (d, Inr replies)"
proof (induction cs)
  case (Cons c cs)
  then have "\<exists>r. dynamo_answer st d c = Some (d, Inr r)"
    by (cases c) (simp_all add: dynamo_get_def dynamo_put_def dynamo_delete_def dynamo_keys_def with_client_def)
  then show ?case using Cons by auto
qed simp

text \<open>
  A replay whose replay table was never configured writes nowhere. The store built from
  its settings builds no client, and no sequence of calls raises or changes the database.
\<close>

theorem replay_without_table_inert:
  assumes "settings_valid settings" "label \<noteq> []" and "replay_projection_table settings = None"
  shows "\<exists>r st replies. for_replay settings label = Inr r \<and> dynamo_store_init boto3 default_resolver r client_factory resolver = Inr st \<and>
     dy_client st = None \<and> dynamo_run st d calls = Some (d, Inr replies)"
proof -
  obtain r where r: "for_replay settings label = Inr r" "projection_table r = None"
    using assms settings_init_Inr by (auto simp: for_replay_def settings_valid_def)
  then have "dynamo_store_init boto3 default_resolver r client_factory resolver =
      Inr \<lparr>dy_table = None, dy_ttl_resolver = (case resolver of Some r \<Rightarrow> r | None \<Rightarrow> default_resolver), dy_client = None\<rparr>"
    by (simp add: dynamo_store_init_def)
  then show ?thesis using r(1) unset_table_inert
    by (metis dynamo_store.select_convs(1) dynamo_store.select_convs(3))
qed

subsection \<open>A client that keeps the law\<close>

text \<open>A table held as a dictionary, whose queries return at most \<open>n\<close> keys a page.\<close>

type_synonym item_table = "(string \<times> string, item) dict"

definition keys_behind :: "item_table \<Rightarrow> string \<Rightarrow> string option \<Rightarrow> string list" where
  "keys_behind d view start =
     filter (\<lambda>k. case start of None \<Rightarrow> True | Some k0 \<Rightarrow> k0 < k) (sort (map snd (filter (\<lambda>vk. fst vk = view) (dict_keys d))))"

definition key_attribute :: "item option \<Rightarrow> string option" where
  "key_attribute start = (case start of None \<Rightarrow> None | Some it \<Rightarrow> (case attr_s ''key'' it of Inr k \<Rightarrow> Some k | Inl _ \<Rightarrow> None))"

definition paged_query :: "nat \<Rightarrow> item_table \<Rightarrow> query_args \<Rightarrow> item_table \<times> query_response res" where
  "paged_query n d a =
     (case attr_s '':view'' (qa_values a) of
        Inl e \<Rightarrow> (d, Inl e)
      | Inr view \<Rightarrow>
          (let ks = keys_behind d view (key_attribute (qa_start a)); page = take n ks in
           (d, Inr \<lparr>qr_items = Some (map (\<lambda>k. [(''key'', AttrS k)]) page),
                    qr_last = (if length ks \<le> n then None else Some (item_key view (last page)))\<rparr>)))"

definition item_of_key :: "item \<Rightarrow> (string \<times> string) res" where
  "item_of_key it = bind_res (attr_s ''view'' it) (\<lambda>v. bind_res (attr_s ''key'' it) (\<lambda>k. Inr (v, k)))"

definition paged_client :: "nat \<Rightarrow> item_table dynamo_client" where
  "paged_client n =
     \<lparr>get_item = (\<lambda>d table it. case item_of_key it of Inl e \<Rightarrow> (d, Inl e) | Inr vk \<Rightarrow> (d, Inr (dict_get d vk))),
      put_item = (\<lambda>d table it. case item_of_key it of Inl e \<Rightarrow> (d, Inl e) | Inr vk \<Rightarrow> (dict_set vk it d, Inr ())),
      delete_item = (\<lambda>d table it. case item_of_key it of Inl e \<Rightarrow> (d, Inl e) | Inr vk \<Rightarrow> (dict_del vk d, Inr ())),
      query = paged_query n\<rparr>"

definition table_ok :: "item_table \<Rightarrow> bool" where
  "table_ok d \<longleftrightarrow> dict_ok d \<and> (\<forall>view key it. dict_get d (view, key) = Some it \<longrightarrow> keyed it view key)"

lemma item_of_key_simps [simp]: "item_of_key (item_key v k) = Inr (v, k)" "keyed it v k \<Longrightarrow> item_of_key it = Inr (v, k)"
  by (simp_all add: item_of_key_def item_key_def attr_s_def keyed_def)

lemma keys_behind_spec:
  assumes "dict_ok d"
  shows "keys_behind d view start = partition_keys (dict_get d) view start"
proof -
  let ?ks = "map snd (filter (\<lambda>vk. fst vk = view) (dict_keys d))"
  have s: "set ?ks = {k. dict_get d (view, k) \<noteq> None}" unfolding dict_get_None_iff by force
  have "distinct ?ks" using assms by (auto simp: distinct_map inj_on_def)
  then have "sort ?ks = sorted_list_of_set (set ?ks)" by (simp only: sorted_list_of_set_sort_remdups distinct_remdups_id)
  then show ?thesis by (simp only: keys_behind_def partition_keys_def s)
qed

lemma key_attribute_simp [simp]: "key_attribute (map_option (item_key view) start) = start"
  by (cases start) (simp_all add: key_attribute_def item_key_def attr_s_def)

lemma paged_lawful: "0 < n \<Longrightarrow> lawful_client (paged_client n) table table_ok dict_get"
proof -
  assume n: "0 < n"
  have r: "lawful_reads (paged_client n) table table_ok dict_get" by (auto simp: lawful_reads_def paged_client_def)
  have w: "lawful_writes (paged_client n) table table_ok dict_get"
    by (auto simp: lawful_writes_def paged_client_def table_ok_def fun_eq_iff)
  have t: "lawful_table table_ok (dict_get :: item_table \<Rightarrow> _)"
    by (auto simp: lawful_table_def table_ok_def finite_dom_map_of)
  have "lawful_query (paged_client n) table table_ok dict_get"
    unfolding lawful_query_def
  proof (intro allI impI)
    fix d view start assume d: "table_ok d"
    let ?ks = "keys_behind d view start"
    let ?last = "if length ?ks \<le> n then None else Some (item_key view (last (take n ?ks)))"
    have "query (paged_client n) d (query_of table view (map_option (item_key view) start)) =
        (d, Inr \<lparr>qr_items = Some (map (\<lambda>k. [(''key'', AttrS k)]) (take n ?ks)), qr_last = ?last\<rparr>)"
      by (simp add: paged_client_def paged_query_def query_of_def attr_s_def Let_def)
    moreover have "partition_keys (dict_get d) view start = take n ?ks @ drop n ?ks"
      using keys_behind_spec d by (simp add: table_ok_def)
    moreover have "?last = None \<and> drop n ?ks = [] \<or> take n ?ks \<noteq> [] \<and> ?last = Some (item_key view (last (take n ?ks)))"
      using n by auto
    ultimately show "\<exists>d' ks rest last_key. query (paged_client n) d (query_of table view (map_option (item_key view) start)) =
             (d', Inr \<lparr>qr_items = Some (map (\<lambda>k. [(''key'', AttrS k)]) ks), qr_last = last_key\<rparr>) \<and>
           table_ok d' \<and> dict_get d' = dict_get d \<and> partition_keys (dict_get d) view start = ks @ rest \<and>
           (last_key = None \<and> rest = [] \<or> ks \<noteq> [] \<and> last_key = Some (item_key view (last ks)))"
      using d by blast
  qed
  with r w t show ?thesis by (simp add: lawful_client_def)
qed

definition demo_store :: "item_table dynamo_store" where
  "demo_store = \<lparr>dy_table = Some ''views'', dy_ttl_resolver = default_ttl_resolver (\<lambda>_. 0) (\<lambda>_. Inl (ValueError ''Invalid isoformat string'')) 86400,
     dy_client = Some (paged_client 2)\<rparr>"

lemma demo_serves: "serves demo_store table_ok dict_get" "table_ok []"
  using paged_lawful [of 2] by (auto simp: serves_def demo_store_def table_ok_def)

theorem listing_terminates_witness:
  "\<exists>d ks. dynamo_keys demo_store [((''v'', ''k''), put_attributes ''v'' ''k'' ''x'' None)] ''v'' = Some (d, Inr ks) \<and> set ks = {''k''}"
proof -
  let ?d = "[((''v'', ''k''), put_attributes ''v'' ''k'' ''x'' None)]"
  have "table_ok ?d" by (auto simp: table_ok_def keyed_attributes split: if_splits)
  moreover have "{k. dict_get ?d (''v'', k) \<noteq> None} = {''k''}" by auto
  ultimately show ?thesis using listing_terminates [OF demo_serves(1), of ?d "''v''"] by metis
qed

theorem bucket_expiry_witness:
  "\<exists>k it. k = rate_key ''latency'' (bucket_start (UTC (seconds 90))) \<and>
     dynamo_put demo_store [] RATE_VIEW k ''x'' = ([((RATE_VIEW, k), it)], Inr ()) \<and> dict_get it ''ttl'' = Some (AttrN (show_int 86460))"
proof -
  define k where "k = rate_key ''latency'' (bucket_start (UTC (seconds 90)))"
  have t: "\<bar>instant (UTC (seconds 90))\<bar> < 2 ^ 51" "instant (UTC (seconds 90)) div 60000000 * 60 + 86400 = 86460" by simp_all
  have st: "dy_ttl_resolver demo_store = default_ttl_resolver (\<lambda>_. 0) (\<lambda>_. Inl (ValueError ''Invalid isoformat string'')) 86400"
    "dy_table demo_store = Some ''views''" "dy_client demo_store = Some (paged_client 2)" by (simp_all add: demo_store_def)
  have "dynamo_put demo_store [] RATE_VIEW k ''x'' =
      put_item (paged_client 2) [] ''views'' [(''view'', AttrS RATE_VIEW), (''key'', AttrS k), (''value'', AttrS ''x''), (''ttl'', AttrN (show_int 86460))]"
    using bucket_expiry [OF t(1) _ st(2,3), of "\<lambda>_. 0" "\<lambda>_. Inl (ValueError ''Invalid isoformat string'')" 86400 "[]" "''latency''" "''x''" RATE_VIEW "[]",
        OF st(1), unfolded t(2), folded k_def] by (rule conjunct1)
  then show ?thesis unfolding k_def [symmetric] by (simp add: paged_client_def item_of_key_def attr_s_def)
qed

theorem replay_without_table_inert_witness:
  "\<exists>s r st replies. from_env [] = Inr s \<and> for_replay s ''replay'' = Inr r \<and>
     dynamo_store_init (Inr (paged_client 1)) no_ttl r None None = Inr st \<and>
     dynamo_run st [] [PutCall ''v'' ''k'' ''x''] = Some ([], Inr replies)"
proof -
  obtain s where s: "from_env [] = Inr s" "replay_projection_table s = None" using default_settings by simp
  then have v: "settings_valid s" by (auto simp: from_env_def settings_init_Inr)
  from replay_without_table_inert [OF v _ s(2), of "''replay''" "Inr (paged_client 1)" no_ttl None None "[]" "[PutCall ''v'' ''k'' ''x'']"] s(1)
  show ?thesis by auto
qed

end
