(* ===== verification/StoreClients.thy ===== *)
theory StoreClients
  imports DynamoStore
begin

text \<open>
  The projections as clients of the store protocol. A client issues a call, receives the
  reply and goes on from it, so what it asks next may depend on what it was told; it is run
  against either backend by answering its calls. Running the three projections this way
  over the in-memory store is \<open>route_detections\<close> of \<open>Dashboards\<close>; over DynamoDB it is what a
  deployment does.
\<close>

subsection \<open>Clients\<close>

datatype 'a client = Return 'a | Call store_call "store_reply \<Rightarrow> 'a client"

primrec and_then :: "'a client \<Rightarrow> ('a \<Rightarrow> 'b client) \<Rightarrow> 'b client" where
  "and_then (Return x) f = f x"
| "and_then (Call c k) f = Call c (\<lambda>r. and_then (k r) f)"

primrec mem_exec :: "'a client \<Rightarrow> memory_store \<Rightarrow> memory_store \<times> 'a" where
  "mem_exec (Return x) s = (s, x)"
| "mem_exec (Call c k) s = (case mem_answer s c of (s', r) \<Rightarrow> mem_exec (k r) s')"

text \<open>On DynamoDB a call may raise, which ends the client, or not return.\<close>

primrec dynamo_exec :: "'d dynamo_store \<Rightarrow> 'a client \<Rightarrow> 'd \<Rightarrow> ('d \<times> 'a res) option" where
  "dynamo_exec st (Return x) d = Some (d, Inr x)"
| "dynamo_exec st (Call c k) d =
     (case dynamo_answer st d c of
        None \<Rightarrow> None
      | Some (d', Inl e) \<Rightarrow> Some (d', Inl e)
      | Some (d', Inr r) \<Rightarrow> dynamo_exec st (k r) d')"

text \<open>The calls a client makes on the in-memory store.\<close>

primrec calls_of :: "'a client \<Rightarrow> memory_store \<Rightarrow> store_call list" where
  "calls_of (Return x) s = []"
| "calls_of (Call c k) s = (case mem_answer s c of (s', r) \<Rightarrow> c # calls_of (k r) s')"

lemma mem_exec_and_then: "mem_exec (and_then p f) s = (case mem_exec p s of (s', x) \<Rightarrow> mem_exec (f x) s')"
  by (induction p arbitrary: s) (simp_all split: prod.split)

lemma calls_of_and_then: "calls_of (and_then p f) s = calls_of p s @ (case mem_exec p s of (s', x) \<Rightarrow> calls_of (f x) s')"
  by (induction p arbitrary: s) (simp_all split: prod.split)

lemma exec_agrees:
  assumes "serves st ok contents" "ok d" "agrees (contents d) s" "list_all (resolvable (dy_ttl_resolver st)) (calls_of p s)"
  shows "\<exists>d'. dynamo_exec st p d = Some (d', Inr (snd (mem_exec p s))) \<and> ok d' \<and> agrees (contents d') (fst (mem_exec p s))"
  using assms(2-)
proof (induction p arbitrary: d s)
  case (Call c k)
  obtain s' r where m: "mem_answer s c = (s', r)" by (rule prod.exhaust)
  then obtain d' where "dynamo_answer st d c = Some (d', Inr r)" "ok d'" "agrees (contents d') s'"
    using answer_agrees [OF assms(1) Call.prems(1,2), of c] Call.prems(3) by auto
  with Call.IH [of "k r" d' s'] m Call.prems(3) show ?case by auto
qed simp

lemma agrees_empty: "t = Map.empty \<Longrightarrow> agrees t []"
  by (simp add: agrees_def mem_valid_def mem_get_def dict_get_default_def)


subsection \<open>The projections\<close>

text \<open>The replies to a read and to the two writes.\<close>

definition value_reply :: "store_reply \<Rightarrow> string option" where
  "value_reply r = (case r of Value v \<Rightarrow> v | _ \<Rightarrow> None)"

definition load_set :: "string option \<Rightarrow> string set res" where
  "load_set raw = (case raw of None \<Rightarrow> Inr {} | Some t \<Rightarrow> map_sum id set (json_loads t))"

definition offline_client :: "detection_event \<Rightarrow> unit res client" where
  "offline_client detection =
     (let p = ev_payload detection; detection_type = dp_detection_type p; store_id = dp_store_id p in
      if detection_type \<notin> {DETECTION_TYPE_DEVICE_OFFLINE, DETECTION_TYPE_DEVICE_ONLINE} then Return (Inr ())
      else case dp_device_id p of
          None \<Rightarrow> Return (Inr ())
        | Some device_id \<Rightarrow>
            Call (GetCall OFFLINE_VIEW store_id) (\<lambda>r.
              case load_set (value_reply r) of
                Inl e \<Rightarrow> Return (Inl e)
              | Inr loaded \<Rightarrow>
                  let offline = (if detection_type = DETECTION_TYPE_DEVICE_OFFLINE then insert (str_uuid device_id) loaded
                                 else loaded - {str_uuid device_id})
                  in Call (if offline \<noteq> {} then PutCall OFFLINE_VIEW store_id (json_dumps (sorted_list_of_set offline))
                           else DeleteCall OFFLINE_VIEW store_id) (\<lambda>_. Return (Inr ()))))"

definition outage_client :: "detection_event \<Rightarrow> unit res client" where
  "outage_client detection =
     (let p = ev_payload detection in
      if dp_detection_type p = DETECTION_TYPE_STORE_OUTAGE
        then Call (PutCall OUTAGE_VIEW (dp_store_id p) (isoformat (dp_detected_at p))) (\<lambda>_. Return (Inr ()))
      else if dp_detection_type p = DETECTION_TYPE_STORE_RECOVERED
        then Call (DeleteCall OUTAGE_VIEW (dp_store_id p)) (\<lambda>_. Return (Inr ()))
      else Return (Inr ()))"

definition rate_client :: "detection_event \<Rightarrow> unit res client" where
  "rate_client detection =
     (let p = ev_payload detection in
      if dp_detection_type p \<noteq> DETECTION_TYPE_SIGNAL_ANOMALY then Return (Inr ())
      else case dict_get (dp_details p) ''signal_name'' of
          Some (PyStr signal_name) \<Rightarrow>
            (let key = rate_key signal_name (bucket_start (dp_detected_at p)) in
             Call (GetCall RATE_VIEW key) (\<lambda>r.
               case load_set (value_reply r) of
                 Inl e \<Rightarrow> Return (Inl e)
               | Inr ids \<Rightarrow>
                   Call (PutCall RATE_VIEW key (json_dumps (sorted_list_of_set (insert (str_uuid (dp_detection_id p)) ids))))
                     (\<lambda>_. Return (Inr ()))))
        | _ \<Rightarrow> Return (Inr ()))"

definition projection_clients :: "(string \<times> (detection_event \<Rightarrow> unit res client)) list" where
  "projection_clients =
     [(''OfflineCountProjection'', offline_client), (''ActiveOutageProjection'', outage_client), (''AnomalyRateProjection'', rate_client)]"

text \<open>The fan-out of \<^verbatim>\<open>route_detections\<close> as a client; its result is the log lines and a possible exception.\<close>

fun offer_client :: "bool \<Rightarrow> string \<Rightarrow> detection_event \<Rightarrow> (string \<times> (detection_event \<Rightarrow> unit res client)) list \<Rightarrow> log_line list \<Rightarrow>
    (log_line list \<times> unit res) client" where
  "offer_client strict event_id d [] logs = Return (logs, Inr ())"
| "offer_client strict event_id d (p # ps) logs =
     and_then (snd p d) (\<lambda>r.
       case r of
         Inr _ \<Rightarrow> offer_client strict event_id d ps logs
       | Inl exc \<Rightarrow>
           let logs' = logs @ [projection_error_log event_id d \<lparr>pj_name = fst p, pj_observe = (\<lambda>w :: unit. \<lambda>_. (w, Inr ()))\<rparr> exc] in
           if strict then Return (logs', Inl exc) else offer_client strict event_id d ps logs')"

fun route_client :: "bool \<Rightarrow> string \<Rightarrow> detection_event list \<Rightarrow> log_line list \<Rightarrow> (log_line list \<times> unit res) client" where
  "route_client strict event_id [] logs = Return (logs, Inr ())"
| "route_client strict event_id (d # ds) logs =
     and_then (offer_client strict event_id d projection_clients logs) (\<lambda>(logs', r).
       case r of Inl e \<Rightarrow> Return (logs', Inl e) | Inr _ \<Rightarrow> route_client strict event_id ds logs')"

lemma pstore_ops [simp]:
  "ps_get InMemoryProjectionStore = mem_get" "ps_put InMemoryProjectionStore = mem_put"
  "ps_delete InMemoryProjectionStore = mem_delete" "ps_keys InMemoryProjectionStore = mem_keys"
  by (simp_all add: InMemoryProjectionStore_def)

lemma offline_client_mem: "mem_exec (offline_client d) s = offline_observe InMemoryProjectionStore s d"
  by (auto simp: offline_client_def offline_observe_def offline_load_def offline_save_def load_set_def value_reply_def Let_def
      split: option.split sum.split)

lemma outage_client_mem: "mem_exec (outage_client d) s = outage_observe InMemoryProjectionStore s d"
  by (simp add: outage_client_def outage_observe_def Let_def)

lemma rate_client_mem: "mem_exec (rate_client d) s = rate_observe InMemoryProjectionStore s d"
  by (auto simp: rate_client_def rate_observe_def rate_load_def load_set_def value_reply_def Let_def
      split: option.split sum.split pyval.split)

definition same_projection :: "string \<times> (detection_event \<Rightarrow> unit res client) \<Rightarrow> memory_store projection \<Rightarrow> bool" where
  "same_projection p q \<longleftrightarrow> pj_name q = fst p \<and> (\<forall>d s. mem_exec (snd p d) s = pj_observe q s d)"

lemma projection_clients_same: "list_all2 same_projection projection_clients (store_projections InMemoryProjectionStore)"
  by (simp add: projection_clients_def store_projections_def same_projection_def offline_client_mem outage_client_mem rate_client_mem)

lemma offer_client_mem:
  "list_all2 same_projection ps qs \<Longrightarrow>
     mem_exec (offer_client strict eid d ps logs) s = (case offer strict eid d qs s logs of ((s', logs'), r) \<Rightarrow> (s', logs', r))"
proof (induction ps qs arbitrary: s logs rule: list_all2_induct)
  case (Cons p ps q qs)
  have "mem_exec (snd p d) s = pj_observe q s d" "fst p = pj_name q" using Cons.hyps(1) by (simp_all add: same_projection_def)
  then show ?case using Cons.IH by (auto simp: mem_exec_and_then projection_error_log_def Let_def split: prod.split sum.split)
qed simp

lemma route_client_mem:
  "mem_exec (route_client strict eid ds logs) s =
     (case route_detections strict eid ds (store_projections InMemoryProjectionStore) s logs of ((s', logs'), r) \<Rightarrow> (s', logs', r))"
  by (induction ds arbitrary: s logs)
    (auto simp: mem_exec_and_then offer_client_mem [OF projection_clients_same] split: prod.split sum.split)

subsection \<open>The dashboards on DynamoDB\<close>

definition makes_only :: "(store_call \<Rightarrow> bool) \<Rightarrow> 'a client \<Rightarrow> bool" where
  "makes_only P p \<longleftrightarrow> (\<forall>s. list_all P (calls_of p s))"

lemma makes_only_simps [simp]:
  "makes_only P (Return x)" "makes_only P p \<Longrightarrow> (\<And>x. makes_only P (f x)) \<Longrightarrow> makes_only P (and_then p f)"
  by (simp_all add: makes_only_def calls_of_and_then split: prod.split)

lemma makes_only_Call: "P c \<Longrightarrow> (\<And>r. makes_only P (k r)) \<Longrightarrow> makes_only P (Call c k)"
  by (simp add: makes_only_def split: prod.split)

lemma client_calls_resolvable:
  assumes "\<bar>instant (dp_detected_at (ev_payload d))\<bar> < 2 ^ 51" and res: "resolver = default_ttl_resolver mktime other retention"
  shows "\<forall>p \<in> set projection_clients. makes_only (resolvable resolver) (snd p d)"
proof -
  note exp = default_expiry [OF assms(1), where mktime = mktime and other = other and retention = retention]
  have "makes_only (resolvable resolver) (offline_client d)" "makes_only (resolvable resolver) (outage_client d)"
    using exp(2) views_distinct
    by (auto simp: offline_client_def outage_client_def Let_def resolvable_def res intro!: makes_only_Call split: option.split sum.split)
  moreover have "makes_only (resolvable resolver) (rate_client d)"
    using exp(1) by (auto simp: rate_client_def Let_def resolvable_def res intro!: makes_only_Call split: option.split sum.split pyval.split)
  ultimately show ?thesis by (simp add: projection_clients_def)
qed

lemma offer_calls: "\<forall>p \<in> set ps. makes_only P (snd p d) \<Longrightarrow> makes_only P (offer_client strict eid d ps logs)"
  by (induction ps arbitrary: logs) (auto simp: Let_def intro!: makes_only_simps(2) split: sum.split)

lemma route_calls:
  "\<forall>d \<in> set ds. \<forall>p \<in> set projection_clients. makes_only P (snd p d) \<Longrightarrow> makes_only P (route_client strict eid ds logs)"
  by (induction ds arbitrary: logs) (auto simp: offer_calls intro!: makes_only_simps(2) split: sum.split)


subsection \<open>Concrete runs\<close>

lemma demo_store_init:
  "dynamo_store_init (Inl (ValueError [])) no_ttl (s\<lparr>projection_table := Some ''views''\<rparr>) (Some (Inr (paged_client 2)))
     (Some (dy_ttl_resolver demo_store)) = Inr demo_store"
  by (simp add: dynamo_store_init_def demo_store_def)

text \<open>A client that lists a view after writing to it, and then reads the first key it was told.\<close>

definition demo_client :: "string option client" where
  "demo_client =
     Call (PutCall ''v'' ''c'' ''1'') (\<lambda>_. Call (PutCall ''v'' ''a'' ''2'') (\<lambda>_. Call (PutCall ''v'' ''b'' ''3'') (\<lambda>_.
       Call (KeysCall ''v'') (\<lambda>r. case r of Listing (k # _) \<Rightarrow> Call (GetCall ''v'' k) (\<lambda>x. Return (value_reply x)) | _ \<Rightarrow> Return None))))"



end
