(* ===== verification/TcpStream.thy ===== *)
theory TcpStream
  imports Detectors Text IsoTime
begin

text \<open>
  \<^verbatim>\<open>telemetry_parser/stream\<close>: sessions and the reassembly of TCP streams.

  A generator is a function of the loop that consumes it: it takes the loop body, a
  function from the consumer's state and a yielded value to the new state or an
  exception, runs it at each \<^verbatim>\<open>yield\<close>, and stops there, with the state of that moment,
  when the body raises. An observer (\<^verbatim>\<open>observability/parser_observer.py\<close>) is the list of
  the calls it has received; the base class ignores them.
\<close>

subsection \<open>Observers and carriers\<close>

datatype notice =
    SessionStart string string string int int
  | SessionEnd string pyfloat
  | PacketDropped string "(string \<times> pyval) list"
  | MessageReconstructed nat datetime
  | ParseError string "nat option"
  | EventEmitted string string

type_synonym observer = "notice list option"

definition notify :: "notice \<Rightarrow> observer \<Rightarrow> observer" where
  "notify n ob = map_option (\<lambda>ns. ns @ [n]) ob"

record timestamped_chunk =
  ck_timestamp :: datetime
  ck_data :: string

record timestamped_message =
  mg_timestamp :: datetime
  mg_data :: string

subsection \<open>Sessions\<close>

type_synonym session_key = "string \<times> int \<times> string \<times> int"

record tcp_session =
  ts_session_id :: string
  ts_source_ip :: string
  ts_destination_ip :: string
  ts_source_port :: int
  ts_destination_port :: int
  ts_start_timestamp :: datetime
  ts_last_activity_timestamp :: datetime
  ts_end_timestamp :: "datetime option"
  ts_expected_sequence :: int
  ts_buffered_segments :: "(int, timestamped_chunk) dict"

type_synonym sessions = "(session_key, tcp_session) dict"

definition normalise_session_key :: "string \<Rightarrow> int \<Rightarrow> string \<Rightarrow> int \<Rightarrow> session_key" where
  "normalise_session_key src_ip src_port dst_ip dst_port =
     (if src_ip < dst_ip \<or> src_ip = dst_ip \<and> src_port \<le> dst_port
      then (src_ip, src_port, dst_ip, dst_port) else (dst_ip, dst_port, src_ip, src_port))"

definition show_key :: "session_key \<Rightarrow> string" where
  "show_key k = (case k of (sip, sport, dip, dport) \<Rightarrow>
     ''('' @ repr_str sip @ '', '' @ show_int sport @ '', '' @ repr_str dip @ '', '' @ show_int dport @ '')'')"

definition new_session :: "(int \<Rightarrow> pyfloat) \<Rightarrow> session_key \<Rightarrow> datetime \<Rightarrow> tcp_session" where
  "new_session mktime key timestamp = (case key of (sip, sport, dip, dport) \<Rightarrow>
     \<lparr>ts_session_id = show_key key @ ''-'' @ show_float (posix_timestamp mktime timestamp),
      ts_source_ip = sip, ts_destination_ip = dip, ts_source_port = sport, ts_destination_port = dport,
      ts_start_timestamp = timestamp, ts_last_activity_timestamp = timestamp, ts_end_timestamp = None,
      ts_expected_sequence = 0, ts_buffered_segments = []\<rparr>)"

definition update_activity :: "datetime \<Rightarrow> tcp_session \<Rightarrow> tcp_session" where
  "update_activity timestamp s = s\<lparr>ts_last_activity_timestamp := timestamp\<rparr>"

definition get_or_create_session ::
  "(int \<Rightarrow> pyfloat) \<Rightarrow> session_key \<Rightarrow> datetime \<Rightarrow> sessions \<times> observer \<Rightarrow> tcp_session \<times> sessions \<times> observer" where
  "get_or_create_session mktime key timestamp so =
     (case dict_get (fst so) key of
        None \<Rightarrow>
          let s = new_session mktime key timestamp in
          (s, dict_set key s (fst so),
           notify (SessionStart (ts_session_id s) (ts_source_ip s) (ts_destination_ip s) (ts_source_port s)
             (ts_destination_port s)) (snd so))
      | Some s \<Rightarrow> let s' = update_activity timestamp s in (s', dict_set key s' (fst so), snd so))"

text \<open>The duration is computed for an observer only.\<close>

definition close_session ::
  "session_key \<Rightarrow> datetime \<Rightarrow> sessions \<times> observer \<Rightarrow> (sessions \<times> observer) \<times> unit res" where
  "close_session key timestamp so =
     (case dict_get (fst so) key of
        None \<Rightarrow> (so, Inr ())
      | Some s \<Rightarrow>
          let ss = dict_set key (s\<lparr>ts_end_timestamp := Some timestamp\<rparr>) (fst so) in
          case snd so of
            None \<Rightarrow> ((ss, snd so), Inr ())
          | Some _ \<Rightarrow>
              (case dt_diff timestamp (ts_start_timestamp s) of
                 Inl e \<Rightarrow> ((ss, snd so), Inl e)
               | Inr d \<Rightarrow> ((ss, notify (SessionEnd (ts_session_id s) (true_div d 1000000)) (snd so)), Inr ())))"

definition active_sessions :: "sessions \<Rightarrow> tcp_session list" where
  "active_sessions ss = filter (\<lambda>s. ts_end_timestamp s = None) (map snd ss)"

subsection \<open>Reassembly\<close>

record tcp_packet =
  pk_src_ip :: string
  pk_dst_ip :: string
  pk_src_port :: int
  pk_dst_port :: int
  pk_sequence_number :: int
  pk_payload :: string
  pk_timestamp :: datetime
  pk_fin :: bool

text \<open>The body of a consuming loop; the observer is shared by producer and consumer.\<close>

type_synonym ('b, 'x) loop_body = "'b \<times> observer \<Rightarrow> 'x \<Rightarrow> ('b \<times> observer) \<times> unit res"

function flush_buffer ::
  "('b, timestamped_chunk) loop_body \<Rightarrow> tcp_session \<Rightarrow> 'b \<times> observer \<Rightarrow> (tcp_session \<times> 'b \<times> observer) \<times> unit res" where
  "flush_buffer body s bo =
     (case dict_get (ts_buffered_segments s) (ts_expected_sequence s) of
        None \<Rightarrow> ((s, bo), Inr ())
      | Some chunk \<Rightarrow>
          let s1 = s\<lparr>ts_buffered_segments := dict_del (ts_expected_sequence s) (ts_buffered_segments s)\<rparr> in
          (case body bo chunk of
             (bo', Inl e) \<Rightarrow> ((s1, bo'), Inl e)
           | (bo', Inr _) \<Rightarrow>
               flush_buffer body
                 (s1\<lparr>ts_expected_sequence := ts_expected_sequence s1 + int (length (ck_data chunk))\<rparr>) bo'))"
  by auto

lemma dict_del_shorter: "dict_get d k = Some v \<Longrightarrow> length (dict_del k d) < length d"
  by (induction d) (auto simp: length_delete_le le_imp_less_Suc split: if_splits)

termination flush_buffer
  by (relation "measure (\<lambda>(_, s, _). length (ts_buffered_segments s))") (auto dest: dict_del_shorter)

declare flush_buffer.simps [simp del]

definition handle_packet ::
  "('b, timestamped_chunk) loop_body \<Rightarrow> tcp_session \<Rightarrow> tcp_packet \<Rightarrow> 'b \<times> observer \<Rightarrow>
     (tcp_session \<times> 'b \<times> observer) \<times> unit res" where
  "handle_packet body session packet bo =
     (let seq = pk_sequence_number packet;
          s = (if ts_expected_sequence session = 0 then session\<lparr>ts_expected_sequence := seq\<rparr> else session);
          chunk = \<lparr>ck_timestamp = pk_timestamp packet, ck_data = pk_payload packet\<rparr>
      in if seq < ts_expected_sequence s
         then ((s, fst bo, notify (PacketDropped ''out_of_order_retransmit'' [(''sequence'', PyInt seq)]) (snd bo)), Inr ())
         else if seq > ts_expected_sequence s
         then ((s\<lparr>ts_buffered_segments := dict_set seq chunk (ts_buffered_segments s)\<rparr>, bo), Inr ())
         else if pk_payload packet = [] then ((s, bo), Inr ())
         else case body bo chunk of
             (bo', Inl e) \<Rightarrow> ((s, bo'), Inl e)
           | (bo', Inr _) \<Rightarrow>
               flush_buffer body (s\<lparr>ts_expected_sequence := ts_expected_sequence s + int (length (pk_payload packet))\<rparr>) bo')"

definition packet_key :: "tcp_packet \<Rightarrow> session_key" where
  "packet_key p = normalise_session_key (pk_src_ip p) (pk_src_port p) (pk_dst_ip p) (pk_dst_port p)"

definition process_packet ::
  "(int \<Rightarrow> pyfloat) \<Rightarrow> ('b, timestamped_chunk) loop_body \<Rightarrow> tcp_packet \<Rightarrow> sessions \<times> 'b \<times> observer \<Rightarrow>
     (sessions \<times> 'b \<times> observer) \<times> unit res" where
  "process_packet mktime body packet st =
     (case st of (ss, b, ob) \<Rightarrow>
      case get_or_create_session mktime (packet_key packet) (pk_timestamp packet) (ss, ob) of
        (session, ss1, ob1) \<Rightarrow>
      case handle_packet body session packet (b, ob1) of
        ((session', b', ob2), Inl e) \<Rightarrow> ((dict_set (packet_key packet) session' ss1, b', ob2), Inl e)
      | ((session', b', ob2), Inr _) \<Rightarrow>
          let ss2 = dict_set (packet_key packet) session' ss1 in
          if pk_fin packet
          then (case close_session (packet_key packet) (pk_timestamp packet) (ss2, ob2) of
                  ((ss3, ob3), r) \<Rightarrow> ((ss3, b', ob3), r))
          else ((ss2, b', ob2), Inr ()))"

definition discard_incomplete :: "sessions \<Rightarrow> sessions \<times> nat \<times> nat" where
  "discard_incomplete ss =
     (let chunks = concat (map (\<lambda>(k, s). map snd (ts_buffered_segments s)) ss)
      in (map (\<lambda>(k, s). (k, s\<lparr>ts_buffered_segments := []\<rparr>)) ss, length chunks, sum_list (map (length \<circ> ck_data) chunks)))"

subsection \<open>The state of a stream\<close>

text \<open>What reassembly reads and writes of a session: the expected sequence number and the held segments.\<close>

type_synonym stream = "int \<times> (int, timestamped_chunk) dict"

definition stream_of :: "tcp_session \<Rightarrow> stream" where
  "stream_of s = (ts_expected_sequence s, ts_buffered_segments s)"

definition streams :: "sessions \<Rightarrow> session_key \<Rightarrow> stream" where
  "streams ss k = (case dict_get ss k of None \<Rightarrow> (0, []) | Some s \<Rightarrow> stream_of s)"

function drain :: "int \<Rightarrow> (int, timestamped_chunk) dict \<Rightarrow> stream \<times> timestamped_chunk list" where
  "drain e buf =
     (case dict_get buf e of
        None \<Rightarrow> ((e, buf), [])
      | Some c \<Rightarrow> (case drain (e + int (length (ck_data c))) (dict_del e buf) of (st, cs) \<Rightarrow> (st, c # cs)))"
  by auto

termination drain
  by (relation "measure (length \<circ> snd)") (auto dest: dict_del_shorter)

declare drain.simps [simp del]

definition chunk_of :: "tcp_packet \<Rightarrow> timestamped_chunk" where
  "chunk_of p = \<lparr>ck_timestamp = pk_timestamp p, ck_data = pk_payload p\<rparr>"

definition accept :: "stream \<Rightarrow> tcp_packet \<Rightarrow> stream \<times> timestamped_chunk list" where
  "accept st p =
     (let seq = pk_sequence_number p; e = (if fst st = 0 then seq else fst st) in
      if seq < e \<or> seq = e \<and> pk_payload p = [] then ((e, snd st), [])
      else if seq > e then ((e, dict_set seq (chunk_of p) (snd st)), [])
      else case drain (e + int (length (pk_payload p))) (snd st) of (st', cs) \<Rightarrow> (st', chunk_of p # cs))"

text \<open>A consumer whose effect does not depend on what the observer has seen.\<close>

fun consume :: "('b \<Rightarrow> 'x \<Rightarrow> 'b \<times> unit res) \<Rightarrow> 'b \<Rightarrow> 'x list \<Rightarrow> 'b \<times> unit res" where
  "consume g b [] = (b, Inr ())"
| "consume g b (x # xs) = (case g b x of (b', Inl e) \<Rightarrow> (b', Inl e) | (b', Inr _) \<Rightarrow> consume g b' xs)"

definition blind :: "('b, 'x) loop_body \<Rightarrow> ('b \<Rightarrow> 'x \<Rightarrow> 'b \<times> unit res) \<Rightarrow> bool" where
  "blind body g \<longleftrightarrow> (\<forall>b ob x. \<exists>ob'. body (b, ob) x = ((fst (g b x), ob'), snd (g b x)))"

lemma blindD: "blind body g \<Longrightarrow> g b x = (b', r) \<Longrightarrow> \<exists>ob'. body (b, ob) x = ((b', ob'), r)"
  by (metis blind_def fst_conv snd_conv)

lemma consume_append: "consume g b (xs @ ys) = (case consume g b xs of (b', Inl e) \<Rightarrow> (b', Inl e) | (b', Inr _) \<Rightarrow> consume g b' ys)"
  by (induction xs arbitrary: b) (auto split: prod.split sum.split)

lemma flush_buffer_drain:
  assumes g: "blind body g"
  shows "consume g b (snd (drain (ts_expected_sequence s) (ts_buffered_segments s))) = (b', Inr ()) \<Longrightarrow>
    \<exists>s' ob'. flush_buffer body s (b, ob) = ((s', b', ob'), Inr ()) \<and>
      stream_of s' = fst (drain (ts_expected_sequence s) (ts_buffered_segments s)) \<and>
      ts_start_timestamp s' = ts_start_timestamp s"
proof (induction "length (ts_buffered_segments s)" arbitrary: s b ob rule: less_induct)
  case less
  let ?e = "ts_expected_sequence s" and ?buf = "ts_buffered_segments s"
  show ?case
  proof (cases "dict_get ?buf ?e")
    case None
    then show ?thesis using less.prems by (simp add: flush_buffer.simps [of body s] drain.simps [of ?e] stream_of_def)
  next
    case (Some c)
    let ?s = "s\<lparr>ts_buffered_segments := dict_del ?e ?buf, ts_expected_sequence := ?e + int (length (ck_data c))\<rparr>"
    obtain st cs where d: "drain (?e + int (length (ck_data c))) (dict_del ?e ?buf) = (st, cs)" by fastforce
    then have d': "drain ?e ?buf = (st, c # cs)" using Some by (simp add: drain.simps [of ?e])
    obtain b1 where b1: "g b c = (b1, Inr ())" "consume g b1 cs = (b', Inr ())"
      using less.prems by (auto simp: d' split: prod.splits sum.splits)
    obtain ob1 where "body (b, ob) c = ((b1, ob1), Inr ())" using blindD [OF g b1(1)] by blast
    moreover have "length (ts_buffered_segments ?s) < length ?buf" using dict_del_shorter [OF Some] by simp
    from less.hyps [OF this, of b1 ob1] obtain s' ob' where
      "flush_buffer body ?s (b1, ob1) = ((s', b', ob'), Inr ())" "stream_of s' = st" "ts_start_timestamp s' = ts_start_timestamp s"
      using b1(2) d by auto
    ultimately show ?thesis using Some d' by (simp add: flush_buffer.simps [of body s] Let_def)
  qed
qed

lemma handle_packet_accept:
  assumes g: "blind body g" and c: "consume g b (snd (accept (stream_of s) p)) = (b', Inr ())"
  shows "\<exists>s' ob'. handle_packet body s p (b, ob) = ((s', b', ob'), Inr ()) \<and> stream_of s' = fst (accept (stream_of s) p) \<and>
    ts_start_timestamp s' = ts_start_timestamp s"
proof -
  define s1 where "s1 = (if ts_expected_sequence s = 0 then s\<lparr>ts_expected_sequence := pk_sequence_number p\<rparr> else s)"
  have s1: "ts_buffered_segments s1 = ts_buffered_segments s" "ts_start_timestamp s1 = ts_start_timestamp s"
      "ts_expected_sequence s1 = (if ts_expected_sequence s = 0 then pk_sequence_number p else ts_expected_sequence s)"
    by (simp_all add: s1_def)
  show ?thesis
  proof (cases "pk_sequence_number p = ts_expected_sequence s1 \<and> pk_payload p \<noteq> []")
    case False
    then show ?thesis
      using c s1 by (auto simp: handle_packet_def accept_def stream_of_def Let_def s1_def [symmetric] chunk_of_def)
  next
    case True
    let ?s = "s1\<lparr>ts_expected_sequence := ts_expected_sequence s1 + int (length (pk_payload p))\<rparr>"
    obtain st cs where d: "drain (ts_expected_sequence ?s) (ts_buffered_segments ?s) = (st, cs)" by fastforce
    then have a: "accept (stream_of s) p = (st, chunk_of p # cs)"
      using True s1 by (simp add: accept_def stream_of_def Let_def split: if_splits)
    obtain b1 where b1: "g b (chunk_of p) = (b1, Inr ())" "consume g b1 cs = (b', Inr ())"
      using c by (auto simp: a split: prod.splits sum.splits)
    obtain ob1 where body: "body (b, ob) (chunk_of p) = ((b1, ob1), Inr ())" using blindD [OF g b1(1)] by blast
    obtain s' ob' where "flush_buffer body ?s (b1, ob1) = ((s', b', ob'), Inr ())" "stream_of s' = st"
        "ts_start_timestamp s' = ts_start_timestamp ?s"
      using flush_buffer_drain [OF g, of b1 ?s b' ob1] b1(2) d by auto
    with True body a s1 show ?thesis
      by (simp add: handle_packet_def Let_def s1_def [symmetric] chunk_of_def [symmetric])
  qed
qed

definition starts_aware :: "sessions \<Rightarrow> bool" where
  "starts_aware ss \<longleftrightarrow> (\<forall>k s. dict_get ss k = Some s \<longrightarrow> aware (ts_start_timestamp s))"

lemma get_or_create_stream:
  assumes "starts_aware ss" and "aware t" and "get_or_create_session mktime k t (ss, ob) = (s, ss', ob')"
  shows "stream_of s = streams ss k" "aware (ts_start_timestamp s)" "ss' = dict_set k s ss"
  using assms by (auto simp: get_or_create_session_def Let_def streams_def stream_of_def new_session_def starts_aware_def
      update_activity_def simp del: split_paired_All split: option.splits prod.splits)

lemma process_packet_streams:
  assumes g: "blind body g" and aw: "starts_aware ss" "aware (pk_timestamp p)"
    and c: "consume g b (snd (accept (streams ss (packet_key p)) p)) = (b', Inr ())"
  shows "\<exists>ss' ob'. process_packet mktime body p (ss, b, ob) = ((ss', b', ob'), Inr ()) \<and> starts_aware ss' \<and>
    streams ss' = (streams ss)(packet_key p := fst (accept (streams ss (packet_key p)) p))"
proof -
  let ?k = "packet_key p"
  obtain s ss1 ob1 where gc: "get_or_create_session mktime ?k (pk_timestamp p) (ss, ob) = (s, ss1, ob1)"
    by (metis prod.exhaust)
  note f = get_or_create_stream [OF aw gc]
  obtain s' ob2 where h: "handle_packet body s p (b, ob1) = ((s', b', ob2), Inr ())"
      "stream_of s' = fst (accept (streams ss ?k) p)" "ts_start_timestamp s' = ts_start_timestamp s"
    using handle_packet_accept [OF g, of b s p b' ob1] c f(1) by auto
  obtain d where d: "dt_diff (pk_timestamp p) (ts_start_timestamp s') = Inr d"
    using f(2) aw(2) h(3) by (simp add: dt_diff_def)
  have frame: "starts_aware (dict_set ?k s'' ss1)" "streams (dict_set ?k s'' ss1) = (streams ss)(?k := stream_of s')"
    if "stream_of s'' = stream_of s'" "ts_start_timestamp s'' = ts_start_timestamp s'" for s''
    using that aw(1) f(2,3) h(3) by (auto simp: starts_aware_def streams_def fun_eq_iff)
  show ?thesis
  proof (cases "pk_fin p")
    case False
    then show ?thesis using gc h(1,2) frame [of s'] by (simp add: process_packet_def Let_def)
  next
    case True
    let ?s = "s'\<lparr>ts_end_timestamp := Some (pk_timestamp p)\<rparr>"
    have "stream_of ?s = stream_of s'" "ts_start_timestamp ?s = ts_start_timestamp s'" by (simp_all add: stream_of_def)
    note fr = frame [OF this]
    have "\<exists>ob3. close_session ?k (pk_timestamp p) (dict_set ?k s' ss1, ob2) = ((dict_set ?k ?s ss1, ob3), Inr ())"
      using d by (cases ob2) (auto simp: close_session_def Let_def)
    then obtain ob3 where "close_session ?k (pk_timestamp p) (dict_set ?k s' ss1, ob2) = ((dict_set ?k ?s ss1, ob3), Inr ())" ..
    with gc h(1,2) True fr show ?thesis by (simp add: process_packet_def Let_def)
  qed
qed

subsection \<open>Segments of a stream\<close>

text \<open>
  A stream cut into segments, the first with sequence number \<open>isn\<close>; packets carry segments,
  in any order and any number of times. The frontier is the first segment not yet seen.
\<close>

definition seq_of :: "int \<Rightarrow> string list \<Rightarrow> nat \<Rightarrow> int" where
  "seq_of isn segs i = isn + int (length (concat (take i segs)))"

definition carries :: "int \<Rightarrow> string list \<Rightarrow> tcp_packet \<Rightarrow> nat \<Rightarrow> bool" where
  "carries isn segs p i \<longleftrightarrow> i < length segs \<and> pk_sequence_number p = seq_of isn segs i \<and> pk_payload p = segs ! i"

definition frontier :: "nat \<Rightarrow> nat list \<Rightarrow> nat" where
  "frontier n seen = length (takeWhile (\<lambda>j. j \<in> set seen) [0..<n])"

lemma frontier_le: "frontier n seen \<le> n"
  by (metis frontier_def diff_zero length_takeWhile_le length_upt)

lemma frontier_seen: "j < frontier n seen \<Longrightarrow> j \<in> set seen"
  using nth_mem [of j "takeWhile (\<lambda>j. j \<in> set seen) [0..<n]"] frontier_le [of n seen]
  by (auto simp: frontier_def takeWhile_nth dest!: set_takeWhileD)

lemma frontier_unseen: "frontier n seen < n \<Longrightarrow> frontier n seen \<notin> set seen"
  using nth_length_takeWhile [of "\<lambda>j. j \<in> set seen" "[0..<n]"] by (auto simp: frontier_def)

lemma frontier_eq:
  assumes "k \<le> n" "\<forall>j < k. j \<in> set seen" "k < n \<longrightarrow> k \<notin> set seen"
  shows "frontier n seen = k"
  using assms frontier_seen [of k n seen] frontier_unseen [of n seen] frontier_le [of n seen] by (metis le_less_linear le_neq_implies_less le_trans nat_less_le not_less)

lemma frontier_gt:
  assumes "m < n" and "\<forall>j < Suc m. j \<in> set seen"
  shows "m < frontier n seen"
proof (rule ccontr)
  assume "\<not> m < frontier n seen"
  with assms frontier_unseen [of n seen] show False by simp
qed

definition cut :: "int \<Rightarrow> string list \<Rightarrow> bool" where
  "cut isn segs \<longleftrightarrow> 0 < isn \<and> [] \<notin> set segs"

lemma seq_of_Suc: "i < length segs \<Longrightarrow> seq_of isn segs (Suc i) = seq_of isn segs i + int (length (segs ! i))"
  by (simp add: seq_of_def take_Suc_conv_app_nth)

lemma seg_pos: "cut isn segs \<Longrightarrow> i < length segs \<Longrightarrow> 0 < length (segs ! i)"
  by (metis cut_def length_greater_0_conv nth_mem)

lemma seq_of_pos: "cut isn segs \<Longrightarrow> 0 < seq_of isn segs i"
  by (simp add: cut_def seq_of_def)

lemma seq_of_less: "cut isn segs \<Longrightarrow> i < j \<Longrightarrow> j \<le> length segs \<Longrightarrow> seq_of isn segs i < seq_of isn segs j"
proof (induction j)
  case (Suc j)
  have "seq_of isn segs j < seq_of isn segs (Suc j)"
    using Suc.prems seq_of_Suc [of j segs isn] seg_pos [of isn segs j] by simp
  with Suc show ?case by (cases "i = j") auto
qed simp

lemma seq_of_inj:
  "cut isn segs \<Longrightarrow> i \<le> length segs \<Longrightarrow> j \<le> length segs \<Longrightarrow> seq_of isn segs i = seq_of isn segs j \<longleftrightarrow> i = j"
  using seq_of_less [of isn segs i j] seq_of_less [of isn segs j i] by (metis less_irrefl linorder_neqE_nat)

text \<open>Arrivals are packets with the segment each carries; a chunk originates from an arrival.\<close>

type_synonym arrivals = "(tcp_packet \<times> nat) list"

definition origin :: "arrivals \<Rightarrow> nat \<Rightarrow> timestamped_chunk \<Rightarrow> bool" where
  "origin as j c \<longleftrightarrow> (\<exists>p. (p, j) \<in> set as \<and> c = chunk_of p)"

definition buffer_ok :: "int \<Rightarrow> string list \<Rightarrow> arrivals \<Rightarrow> nat \<Rightarrow> (int, timestamped_chunk) dict \<Rightarrow> bool" where
  "buffer_ok isn segs as m buf \<longleftrightarrow>
     (\<forall>x c. dict_get buf x = Some c \<longrightarrow> (\<exists>j \<ge> m. x = seq_of isn segs j \<and> origin as j c)) \<and>
     (\<forall>(p, j) \<in> set as. m \<le> j \<longrightarrow> dict_get buf (seq_of isn segs j) \<noteq> None)"

definition all_carry :: "int \<Rightarrow> string list \<Rightarrow> arrivals \<Rightarrow> bool" where
  "all_carry isn segs as \<longleftrightarrow> (\<forall>(p, j) \<in> set as. carries isn segs p j)"

definition stream_inv :: "int \<Rightarrow> string list \<Rightarrow> arrivals \<Rightarrow> stream \<Rightarrow> bool" where
  "stream_inv isn segs as st \<longleftrightarrow>
     (let k = frontier (length segs) (map snd as) in fst st = seq_of isn segs k \<and> buffer_ok isn segs as k (snd st))"

lemma origin_data: "all_carry isn segs as \<Longrightarrow> origin as j c \<Longrightarrow> j < length segs \<and> ck_data c = segs ! j"
  by (auto simp: origin_def all_carry_def carries_def chunk_of_def)

lemma origin_mono: "origin as j c \<Longrightarrow> origin (as @ bs) j c"
  by (auto simp: origin_def)

lemma buffer_okD:
  "buffer_ok isn segs as m buf \<Longrightarrow> dict_get buf x = Some c \<Longrightarrow> \<exists>j \<ge> m. x = seq_of isn segs j \<and> origin as j c"
  "buffer_ok isn segs as m buf \<Longrightarrow> (p, j) \<in> set as \<Longrightarrow> m \<le> j \<Longrightarrow> \<exists>c. dict_get buf (seq_of isn segs j) = Some c"
  unfolding buffer_ok_def by (blast, force)

lemma buffer_okI:
  assumes "\<And>x c. dict_get buf x = Some c \<Longrightarrow> \<exists>j \<ge> m. x = seq_of isn segs j \<and> origin as j c"
    and "\<And>p j. (p, j) \<in> set as \<Longrightarrow> m \<le> j \<Longrightarrow> \<exists>c. dict_get buf (seq_of isn segs j) = Some c"
  shows "buffer_ok isn segs as m buf"
  unfolding buffer_ok_def using assms by force

lemma drain_segments:
  assumes cut: "cut isn segs" and all: "all_carry isn segs as"
  shows "m \<le> length segs \<Longrightarrow> \<forall>j < m. j \<in> set (map snd as) \<Longrightarrow> buffer_ok isn segs as m buf \<Longrightarrow>
    stream_inv isn segs as (fst (drain (seq_of isn segs m) buf)) \<and>
    list_all2 (origin as) [m..<frontier (length segs) (map snd as)] (snd (drain (seq_of isn segs m) buf))"
proof (induction "length segs - m" arbitrary: m buf)
  case (0 m buf)
  have "frontier (length segs) (map snd as) = m" using 0 by (intro frontier_eq) auto
  moreover have "dict_get buf (seq_of isn segs m) = None"
  proof (rule ccontr)
    assume "dict_get buf (seq_of isn segs m) \<noteq> None"
    then obtain c where "dict_get buf (seq_of isn segs m) = Some c" by blast
    then obtain j where j: "m \<le> j" "origin as j c" using buffer_okD(1) [OF 0(4)] by blast
    then show False using origin_data [OF all j(2)] 0 by simp
  qed
  ultimately show ?case using 0 by (simp add: drain.simps [of "seq_of isn segs m"] stream_inv_def)
next
  case (Suc n m buf)
  show ?case
  proof (cases "dict_get buf (seq_of isn segs m)")
    case None
    then have "m \<notin> set (map snd as)" using buffer_okD(2) [OF Suc.prems(3), of _ m] by auto
    then have "frontier (length segs) (map snd as) = m" using Suc.prems by (intro frontier_eq) auto
    then show ?thesis using None Suc.prems(3) by (simp add: drain.simps [of "seq_of isn segs m"] stream_inv_def)
  next
    case (Some c)
    then obtain j where j: "m \<le> j" "seq_of isn segs m = seq_of isn segs j" "origin as j c"
      using buffer_okD(1) [OF Suc.prems(3)] by blast
    then have "j = m" using origin_data [OF all j(3)] seq_of_inj [OF cut, of m j] Suc.prems(1) by simp
    then have o: "origin as m c" "ck_data c = segs ! m" "m < length segs" using j(3) origin_data [OF all j(3)] by auto
    have seen: "\<forall>j < Suc m. j \<in> set (map snd as)" using Suc.prems(2) o(1) by (force simp: less_Suc_eq origin_def)
    have nxt: "seq_of isn segs (Suc m) = seq_of isn segs m + int (length (ck_data c))" using o by (simp add: seq_of_Suc)
    have "buffer_ok isn segs as (Suc m) (dict_del (seq_of isn segs m) buf)"
    proof (rule buffer_okI)
      fix x c' assume x: "dict_get (dict_del (seq_of isn segs m) buf) x = Some c'"
      then have "x \<noteq> seq_of isn segs m" "dict_get buf x = Some c'" by (auto split: if_splits)
      then show "\<exists>j \<ge> Suc m. x = seq_of isn segs j \<and> origin as j c'"
        using buffer_okD(1) [OF Suc.prems(3)] by (metis Suc_leI le_neq_implies_less)
    next
      fix p j assume j: "(p, j) \<in> set as" "Suc m \<le> j"
      then have "j < length segs" using all by (auto simp: all_carry_def carries_def)
      then have "seq_of isn segs j \<noteq> seq_of isn segs m" using seq_of_inj [OF cut, of j m] j(2) by simp
      then show "\<exists>c. dict_get (dict_del (seq_of isn segs m) buf) (seq_of isn segs j) = Some c"
        using buffer_okD(2) [OF Suc.prems(3) j(1)] j(2) by simp
    qed
    from Suc.hyps(1) [OF _ _ seen this] Suc.hyps(2) o(3)
    have IH: "stream_inv isn segs as (fst (drain (seq_of isn segs (Suc m)) (dict_del (seq_of isn segs m) buf)))"
        "list_all2 (origin as) [Suc m..<frontier (length segs) (map snd as)]
           (snd (drain (seq_of isn segs (Suc m)) (dict_del (seq_of isn segs m) buf)))" by auto
    have "m < frontier (length segs) (map snd as)" using seen o(3) by (rule frontier_gt [rotated])
    then have "[m..<frontier (length segs) (map snd as)] = m # [Suc m..<frontier (length segs) (map snd as)]"
      by (rule upt_conv_Cons)
    with IH o(1) Some nxt show ?thesis
      by (simp add: drain.simps [of "seq_of isn segs m"] split_def)
  qed
qed

lemma frontier_same: "i \<in> set seen \<or> frontier n seen < i \<Longrightarrow> frontier n (seen @ [i]) = frontier n seen"
  using frontier_seen [of _ n seen] frontier_unseen [of n seen] frontier_le [of n seen] by (intro frontier_eq) auto

lemma accept_segment:
  assumes cut: "cut isn segs" and all: "all_carry isn segs (as @ [(p, i)])" and inv: "stream_inv isn segs as st"
  shows "stream_inv isn segs (as @ [(p, i)]) (fst (accept st p)) \<and>
    list_all2 (origin (as @ [(p, i)]))
      [frontier (length segs) (map snd as)..<frontier (length segs) (map snd (as @ [(p, i)]))] (snd (accept st p))"
proof -
  let ?n = "length segs" and ?as = "as @ [(p, i)]"
  define k where "k = frontier ?n (map snd as)"
  have c: "i < ?n" "pk_sequence_number p = seq_of isn segs i" "pk_payload p = segs ! i" "pk_payload p \<noteq> []"
    using all seg_pos [OF cut, of i] by (auto simp: all_carry_def carries_def)
  have st: "fst st = seq_of isn segs k" "buffer_ok isn segs as k (snd st)" "fst st \<noteq> 0" "k \<le> ?n"
    using inv seq_of_pos [OF cut, of k] frontier_le by (auto simp: stream_inv_def Let_def k_def)
  consider "i < k" | "i = k" | "k < i" by linarith
  then show ?thesis
  proof cases
    case 1
    then have "frontier ?n (map snd ?as) = k" using frontier_seen [of i ?n "map snd as"] by (simp add: k_def frontier_same)
    moreover have "buffer_ok isn segs ?as k (snd st)"
      by (rule buffer_okI) (use 1 buffer_okD [OF st(2)] origin_mono in \<open>auto, blast\<close>)
    ultimately show ?thesis
      using 1 st(1,3) c seq_of_less [OF cut, of i k] st(4) by (simp add: accept_def Let_def stream_inv_def k_def [symmetric])
  next
    case 3
    then have f: "frontier ?n (map snd ?as) = k" by (simp add: k_def frontier_same)
    have "buffer_ok isn segs ?as k (dict_set (seq_of isn segs i) (chunk_of p) (snd st))"
    proof (rule buffer_okI)
      fix x c' assume x: "dict_get (dict_set (seq_of isn segs i) (chunk_of p) (snd st)) x = Some c'"
      show "\<exists>j \<ge> k. x = seq_of isn segs j \<and> origin ?as j c'"
      proof (cases "x = seq_of isn segs i")
        case True
        then show ?thesis using 3 x by (intro exI [of _ i]) (auto simp: origin_def)
      next
        case False
        then show ?thesis using x buffer_okD(1) [OF st(2), of x c'] origin_mono by auto
      qed
    qed (use buffer_okD(2) [OF st(2)] in auto)
    then show ?thesis
      using 3 f st(1,3) c seq_of_less [OF cut, of k i] by (simp add: accept_def Let_def stream_inv_def k_def [symmetric])
  next
    case 2
    have seen: "\<forall>j < Suc k. j \<in> set (map snd ?as)"
      using 2 frontier_seen [of _ ?n "map snd as"] by (auto simp: less_Suc_eq k_def)
    have un: "k \<notin> snd ` set as" using frontier_unseen [of ?n "map snd as"] c(1) 2 by (simp add: k_def)
    then have later: "Suc k \<le> j" if "origin as j c'" "k \<le> j" for j c'
      using that by (metis Suc_leI image_eqI le_neq_implies_less origin_def snd_conv)
    have "buffer_ok isn segs ?as (Suc k) (snd st)"
    proof (rule buffer_okI)
      fix x c' assume "dict_get (snd st) x = Some c'"
      then obtain j where "k \<le> j" "x = seq_of isn segs j" "origin as j c'" using buffer_okD(1) [OF st(2)] by blast
      then show "\<exists>j \<ge> Suc k. x = seq_of isn segs j \<and> origin ?as j c'" using later origin_mono by blast
    qed (use 2 buffer_okD(2) [OF st(2)] in auto)
    from drain_segments [OF cut all _ seen this] c(1) 2
    have d: "stream_inv isn segs ?as (fst (drain (seq_of isn segs (Suc k)) (snd st)))"
        "list_all2 (origin ?as) [Suc k..<frontier ?n (map snd ?as)] (snd (drain (seq_of isn segs (Suc k)) (snd st)))" by auto
    have "k < frontier ?n (map snd ?as)"
      using seen c(1) 2 by (intro frontier_gt) auto
    then have u: "[k..<frontier ?n (map snd ?as)] = k # [Suc k..<frontier ?n (map snd ?as)]" by (rule upt_conv_Cons)
    have "origin ?as k (chunk_of p)" using 2 by (auto simp: origin_def)
    moreover have "seq_of isn segs (Suc k) = seq_of isn segs k + int (length (pk_payload p))" using c 2 by (simp add: seq_of_Suc)
    ultimately show ?thesis
      using d u c st(1,3) 2 unfolding k_def [symmetric] by (simp add: accept_def Let_def split_def)
  qed
qed

text \<open>The first packet of a session determines where its stream begins.\<close>

lemma accept_first:
  assumes cut: "cut isn segs" and c: "carries isn segs p 0"
  shows "stream_inv isn segs [(p, 0)] (fst (accept (0, []) p)) \<and>
    list_all2 (origin [(p, 0)]) [0..<frontier (length segs) [0]] (snd (accept (0, []) p))"
proof -
  have f: "frontier n [] = 0" for n by (simp add: frontier_def takeWhile_eq_Nil_iff)
  have "stream_inv isn segs [] (isn, [])" by (simp add: stream_inv_def f seq_of_def buffer_ok_def)
  moreover have "accept (isn, []) p = accept (0, []) p"
    using c cut by (simp add: accept_def Let_def carries_def seq_of_def cut_def)
  ultimately show ?thesis
    using accept_segment [OF cut, of "[]" p 0 "(isn, [])"] c by (simp add: all_carry_def f)
qed

subsection \<open>Reassembly is exact\<close>

text \<open>A client that collects what each packet releases.\<close>

definition collect :: "('x list, 'x) loop_body" where
  "collect bo c = ((fst bo @ [c], snd bo), Inr ())"

fun reassemble ::
  "(int \<Rightarrow> pyfloat) \<Rightarrow> sessions \<times> observer \<Rightarrow> tcp_packet list \<Rightarrow> (session_key \<times> timestamped_chunk list) list res" where
  "reassemble mktime so [] = Inr []"
| "reassemble mktime so (p # ps) =
     (case process_packet mktime collect p (fst so, [], snd so) of
        (_, Inl e) \<Rightarrow> Inl e
      | ((ss, cs, ob), Inr _) \<Rightarrow> bind_res (reassemble mktime (ss, ob) ps) (\<lambda>outs. Inr ((packet_key p, cs) # outs)))"

definition chunks_for :: "session_key \<Rightarrow> (session_key \<times> timestamped_chunk list) list \<Rightarrow> timestamped_chunk list" where
  "chunks_for k outs = concat (map snd (filter (\<lambda>x. fst x = k) outs))"

lemma collect_blind: "blind collect (\<lambda>cs c. (cs @ [c], Inr ()))"
  by (simp add: blind_def collect_def)

lemma consume_collect: "consume (\<lambda>cs c. (cs @ [c], Inr ())) cs xs = (cs @ xs, Inr ())"
  by (induction xs arbitrary: cs) auto

definition tracks_stream :: "int \<Rightarrow> string list \<Rightarrow> arrivals \<Rightarrow> stream \<Rightarrow> bool" where
  "tracks_stream isn segs as st \<longleftrightarrow> (if as = [] then st = (0, []) else stream_inv isn segs as st)"

lemma frontier_Nil [simp]: "frontier n [] = 0"
  by (simp add: frontier_def takeWhile_eq_Nil_iff)

lemma accept_tracks:
  assumes cut: "cut isn segs" and all: "all_carry isn segs (as @ [(p, i)])" and t: "tracks_stream isn segs as st"
    and first: "as = [] \<longrightarrow> i = 0"
  shows "tracks_stream isn segs (as @ [(p, i)]) (fst (accept st p)) \<and>
    list_all2 (origin (as @ [(p, i)]))
      [frontier (length segs) (map snd as)..<frontier (length segs) (map snd (as @ [(p, i)]))] (snd (accept st p))"
proof (cases "as = []")
  case True
  then show ?thesis using accept_first [OF cut, of p] all t first by (simp add: tracks_stream_def all_carry_def)
next
  case False
  then show ?thesis using accept_segment [OF cut all] t by (simp add: tracks_stream_def)
qed

lemma frontier_mono: "frontier n seen \<le> frontier n (seen @ ext)"
proof (rule ccontr)
  assume "\<not> frontier n seen \<le> frontier n (seen @ ext)"
  then show False
    using frontier_seen [of "frontier n (seen @ ext)" n seen] frontier_unseen [of n "seen @ ext"] frontier_le [of n seen] by auto
qed

lemma list_all2_upt_join:
  assumes "list_all2 P [a..<b] xs" "list_all2 Q [b..<c] ys" "a \<le> b" "b \<le> c" "\<And>j x. P j x \<Longrightarrow> Q j x"
  shows "list_all2 Q [a..<c] (xs @ ys)"
proof -
  have "[a..<c] = [a..<b] @ [b..<c]" using assms(3,4) by (metis le_Suc_ex upt_add_eq_append)
  moreover have "list_all2 Q [a..<b] xs" using assms(1,5) by (rule list_all2_mono)
  ultimately show ?thesis using assms(2) by (simp add: list_all2_appendI)
qed

lemma reassemble_segments:
  assumes cut: "cut isn segs"
  shows "starts_aware ss \<Longrightarrow> \<forall>p \<in> set ps. aware (pk_timestamp p) \<Longrightarrow> tracks_stream isn segs as (streams ss k) \<Longrightarrow>
    all_carry isn segs (as @ bs) \<Longrightarrow> filter (\<lambda>p. packet_key p = k) ps = map fst bs \<Longrightarrow>
    as = [] \<longrightarrow> bs = [] \<or> snd (hd bs) = 0 \<Longrightarrow>
    \<exists>outs. reassemble mktime (ss, ob) ps = Inr outs \<and>
      list_all2 (origin (as @ bs)) [frontier (length segs) (map snd as)..<frontier (length segs) (map snd (as @ bs))] (chunks_for k outs)"
proof (induction ps arbitrary: ss ob as bs)
  case Nil
  then show ?case by (simp add: chunks_for_def)
next
  case (Cons p ps)
  let ?cs = "snd (accept (streams ss (packet_key p)) p)"
  obtain ss' ob' where pp: "process_packet mktime collect p (ss, [], ob) = ((ss', ?cs, ob'), Inr ())" "starts_aware ss'"
      "streams ss' = (streams ss)(packet_key p := fst (accept (streams ss (packet_key p)) p))"
    using process_packet_streams [OF collect_blind Cons.prems(1), of p "[]" ?cs mktime ob] Cons.prems(2)
    by (auto simp: consume_collect)
  show ?case
  proof (cases "packet_key p = k")
    case False
    then obtain outs where o: "reassemble mktime (ss', ob') ps = Inr outs"
        "list_all2 (origin (as @ bs)) [frontier (length segs) (map snd as)..<frontier (length segs) (map snd (as @ bs))] (chunks_for k outs)"
      using Cons.IH [OF pp(2), of as bs ob'] Cons.prems pp(3) by auto
    then show ?thesis using pp(1) False by (simp add: chunks_for_def)
  next
    case True
    then obtain i bs' where bs: "bs = (p, i) # bs'" using Cons.prems(5) by (cases bs) auto
    have all: "all_carry isn segs (as @ [(p, i)])" using Cons.prems(4) by (simp add: bs all_carry_def)
    note acc = accept_tracks [OF cut all, of "streams ss k"]
    have t: "tracks_stream isn segs (as @ [(p, i)]) (streams ss' k)"
        "list_all2 (origin (as @ [(p, i)]))
          [frontier (length segs) (map snd as)..<frontier (length segs) (map snd (as @ [(p, i)]))] ?cs"
      using acc Cons.prems(3,6) pp(3) True by (simp_all add: bs)
    obtain outs where o: "reassemble mktime (ss', ob') ps = Inr outs"
        "list_all2 (origin ((as @ [(p, i)]) @ bs'))
          [frontier (length segs) (map snd (as @ [(p, i)]))..<frontier (length segs) (map snd ((as @ [(p, i)]) @ bs'))] (chunks_for k outs)"
      using Cons.IH [OF pp(2) _ t(1), of bs' ob'] Cons.prems(2,4,5) True by (auto simp: bs)
    have "list_all2 (origin ((as @ [(p, i)]) @ bs'))
        [frontier (length segs) (map snd as)..<frontier (length segs) (map snd ((as @ [(p, i)]) @ bs'))] (?cs @ chunks_for k outs)"
      using t(2) o(2) by (rule list_all2_upt_join) (simp_all only: map_append frontier_mono origin_mono)
    then show ?thesis using pp(1) o(1) True by (simp add: chunks_for_def bs)
  qed
qed


definition demo_packet :: "string \<Rightarrow> int \<Rightarrow> string \<Rightarrow> int \<Rightarrow> tcp_packet" where
  "demo_packet src n payload t = \<lparr>pk_src_ip = src, pk_dst_ip = ''10.0.0.9'', pk_src_port = 5060, pk_dst_port = 5060,
     pk_sequence_number = n, pk_payload = payload, pk_timestamp = UTC (seconds t), pk_fin = False\<rparr>"

lemma demo_aware [simp]: "aware (pk_timestamp (demo_packet src n d t))"
  by (simp add: demo_packet_def)


subsection \<open>The two directions of a connection\<close>

text \<open>
  Both directions of a connection have one session, and with it one expected sequence
  number: the reply is measured against the stream of the request.
\<close>

definition reply :: "tcp_packet \<Rightarrow> tcp_packet" where
  "reply p = p\<lparr>pk_src_ip := pk_dst_ip p, pk_dst_ip := pk_src_ip p, pk_src_port := pk_dst_port p, pk_dst_port := pk_src_port p\<rparr>"

lemma directions_share_session: "packet_key (reply p) = packet_key p"
  by (auto simp: packet_key_def reply_def normalise_session_key_def)

lemma reply_measured_against_request:
  assumes "fst (streams ss (packet_key p)) \<noteq> 0" and "pk_sequence_number p < fst (streams ss (packet_key p))"
  shows "snd (accept (streams ss (packet_key (reply p))) (reply p)) = []"
proof -
  have "pk_sequence_number (reply p) = pk_sequence_number p" by (simp add: reply_def)
  then show ?thesis using assms by (simp add: directions_share_session accept_def Let_def)
qed

end
