(* ===== verification/SipDecoder.thy ===== *)
theory SipDecoder
  imports TcpStream
begin

text \<open>
  \<^verbatim>\<open>telemetry_parser/protocol/message_decoder.py\<close>: the incremental framing of SIP header
  blocks. The marks record at which offset of the buffer the bytes of each chunk begin.
\<close>

definition HEADER_TERMINATOR :: string where "HEADER_TERMINATOR = [CHR 13, CHR 10, CHR 13, CHR 10]"

record message_decoder =
  dc_buffer :: string
  dc_marks :: "(nat \<times> datetime) list"

definition message_decoder_init :: message_decoder where
  "message_decoder_init = \<lparr>dc_buffer = [], dc_marks = []\<rparr>"

definition first_byte_timestamp :: "message_decoder \<Rightarrow> datetime res" where
  "first_byte_timestamp d =
     (case dc_marks d of
        [] \<Rightarrow> Inl (ValueError (''no observation timestamp for buffered data; '' @
                 ''feed() must supply a TimestampedChunk before framing''))
      | m # _ \<Rightarrow> Inr (snd m))"

definition rebase :: "nat \<Rightarrow> (nat \<times> datetime) list \<Rightarrow> nat \<times> datetime \<Rightarrow> (nat \<times> datetime) list" where
  "rebase consumed rebased m =
     (let moved = int (fst m) - int consumed in
      if moved \<le> 0 then [(0, snd m)] else rebased @ [(nat moved, snd m)])"

text \<open>Called after the consumed bytes have left the buffer.\<close>

definition advance_marks :: "nat \<Rightarrow> message_decoder \<Rightarrow> message_decoder" where
  "advance_marks consumed d =
     (if dc_buffer d = [] then d\<lparr>dc_marks := []\<rparr> else d\<lparr>dc_marks := foldl (rebase consumed) [] (dc_marks d)\<rparr>)"

function feed_loop ::
  "datetime \<Rightarrow> ('b, timestamped_message) loop_body \<Rightarrow> message_decoder \<Rightarrow> 'b \<times> observer \<Rightarrow>
     (message_decoder \<times> 'b \<times> observer) \<times> unit res" where
  "feed_loop now body d bo =
     (case find_sub HEADER_TERMINATOR (dc_buffer d) of
        None \<Rightarrow> ((d, bo), Inr ())
      | Some boundary \<Rightarrow>
          let message_end = boundary + length HEADER_TERMINATOR; message = take message_end (dc_buffer d) in
          (case first_byte_timestamp d of
             Inl e \<Rightarrow> ((d, bo), Inl e)
           | Inr observed_at \<Rightarrow>
               let ob1 = notify (MessageReconstructed (length message) now) (snd bo);
                   d1 = advance_marks message_end (d\<lparr>dc_buffer := drop message_end (dc_buffer d)\<rparr>) in
               (case body (fst bo, ob1) \<lparr>mg_timestamp = observed_at, mg_data = message\<rparr> of
                  (bo', Inl e) \<Rightarrow> ((d1, bo'), Inl e)
                | (bo', Inr _) \<Rightarrow> feed_loop now body d1 bo')))"
  by auto

lemma advance_marks_buffer [simp]: "dc_buffer (advance_marks n d) = dc_buffer d"
  by (simp add: advance_marks_def)

termination feed_loop
  by (relation "measure (\<lambda>(_, _, d, _). length (dc_buffer d))")
    (auto simp: HEADER_TERMINATOR_def dest!: find_sub_bound)

declare feed_loop.simps [simp del]

definition feed ::
  "datetime \<Rightarrow> ('b, timestamped_message) loop_body \<Rightarrow> timestamped_chunk \<Rightarrow> message_decoder \<times> 'b \<times> observer \<Rightarrow>
     (message_decoder \<times> 'b \<times> observer) \<times> unit res" where
  "feed now body chunk st =
     (let d = fst st;
          d1 = (if ck_data chunk = [] then d
                else d\<lparr>dc_marks := dc_marks d @ [(length (dc_buffer d), ck_timestamp chunk)], dc_buffer := dc_buffer d @ ck_data chunk\<rparr>)
      in feed_loop now body d1 (snd st))"

definition decoder_flush :: "message_decoder \<Rightarrow> message_decoder \<times> timestamped_message option res" where
  "decoder_flush d =
     (if dc_buffer d = [] then (d, Inr None)
      else case first_byte_timestamp d of
          Inl e \<Rightarrow> (d, Inl e)
        | Inr t \<Rightarrow> (message_decoder_init, Inr (Some \<lparr>mg_timestamp = t, mg_data = dc_buffer d\<rparr>)))"

subsection \<open>Bytes with their capture times\<close>

text \<open>What the marks stand for: each byte of the buffer with the capture time of its chunk.\<close>

fun expand :: "(nat \<times> datetime) list \<Rightarrow> nat \<Rightarrow> datetime list" where
  "expand [] n = []"
| "expand [(i, t)] n = replicate (n - i) t"
| "expand ((i, t) # (j, u) # ms) n = replicate (j - i) t @ expand ((j, u) # ms) n"

definition marks_ok :: "message_decoder \<Rightarrow> bool" where
  "marks_ok d \<longleftrightarrow>
     (if dc_buffer d = [] then dc_marks d = []
      else dc_marks d \<noteq> [] \<and> fst (hd (dc_marks d)) = 0 \<and> sorted_wrt (<) (map fst (dc_marks d)) \<and>
           (\<forall>m \<in> set (dc_marks d). fst m < length (dc_buffer d)))"

definition tagged :: "message_decoder \<Rightarrow> (char \<times> datetime) list" where
  "tagged d = zip (dc_buffer d) (expand (dc_marks d) (length (dc_buffer d)))"

definition tag_chunk :: "timestamped_chunk \<Rightarrow> (char \<times> datetime) list" where
  "tag_chunk c = map (\<lambda>b. (b, ck_timestamp c)) (ck_data c)"

text \<open>The reference: cut the tagged bytes after each terminator; a message has the time of its first byte.\<close>

function frames :: "(char \<times> datetime) list \<Rightarrow> timestamped_message list \<times> (char \<times> datetime) list" where
  "frames xs =
     (case find_sub HEADER_TERMINATOR (map fst xs) of
        None \<Rightarrow> ([], xs)
      | Some i \<Rightarrow>
          let n = i + length HEADER_TERMINATOR; r = frames (drop n xs)
          in (\<lparr>mg_timestamp = snd (hd xs), mg_data = map fst (take n xs)\<rparr> # fst r, snd r))"
  by auto

termination frames
  by (relation "measure length") (auto simp: HEADER_TERMINATOR_def dest!: find_sub_bound)

declare frames.simps [simp del]

lemma expand_length:
  "sorted (map fst ms) \<Longrightarrow> ms \<noteq> [] \<Longrightarrow> \<forall>m \<in> set ms. fst m \<le> n \<Longrightarrow> length (expand ms n) = n - fst (hd ms)"
  by (induction ms n rule: expand.induct) auto

lemma expand_snoc:
  "sorted (map fst ms) \<Longrightarrow> ms \<noteq> [] \<Longrightarrow> \<forall>m \<in> set ms. fst m \<le> n \<Longrightarrow>
   expand (ms @ [(n, t)]) (n + k) = expand ms n @ replicate k t"
  by (induction ms n rule: expand.induct) auto

lemma expand_shift:
  "\<forall>m \<in> set ms. c \<le> fst m \<Longrightarrow> expand (map (\<lambda>m. (fst m - c, snd m)) ms) (n - c) = expand ms n"
  by (induction ms n rule: expand.induct) (auto simp: diff_diff_eq)

lemma expand_append:
  "ls \<noteq> [] \<Longrightarrow> gs \<noteq> [] \<Longrightarrow> expand (ls @ gs) n = expand ls (fst (hd gs)) @ expand gs n"
proof (induction ls n rule: expand.induct)
  case (2 i t n)
  then show ?case by (cases gs) (auto split: prod.split)
qed auto

lemma rebase_le: "ms \<noteq> [] \<Longrightarrow> \<forall>m \<in> set ms. fst m \<le> c \<Longrightarrow> foldl (rebase c) acc ms = [(0, snd (last ms))]"
  by (induction ms rule: rev_induct) (auto simp: rebase_def Let_def)

lemma rebase_gt: "\<forall>m \<in> set ms. c < fst m \<Longrightarrow> foldl (rebase c) acc ms = acc @ map (\<lambda>m. (fst m - c, snd m)) ms"
  by (induction ms arbitrary: acc) (auto simp: rebase_def Let_def nat_minus_as_int)

lemma expand_last:
  assumes "sorted (map fst ms)" "ms \<noteq> []" "fst (hd ms) = 0" "c \<le> n" "\<forall>m \<in> set ms. fst m \<le> c"
  shows "drop c (expand ms n) = replicate (n - c) (snd (last ms))"
proof -
  obtain ns i t where ms: "ms = ns @ [(i, t)]" using assms(2) by (metis prod.exhaust rev_exhaust)
  have i: "i \<le> c" using assms(5) by (simp add: ms)
  have "expand ms n = expand ns i @ replicate (n - i) t \<and> length (expand ns i) = i"
  proof (cases "ns = []")
    case True
    then show ?thesis using assms(3) by (simp add: ms)
  next
    case False
    have s: "sorted (map fst ns)" "\<forall>m \<in> set ns. fst m \<le> i" using assms(1) by (auto simp: ms sorted_append)
    then show ?thesis
      using expand_snoc [OF s(1) False s(2), of t "n - i"] expand_length [OF s(1) False s(2)] assms(3,4) i False by (simp add: ms)
  qed
  then show ?thesis using i by (simp add: ms)
qed

lemma expand_rebase:
  assumes s: "sorted (map fst ms)" "ms \<noteq> []" "fst (hd ms) = 0" and c: "c < n" "\<forall>m \<in> set ms. fst m < n"
  shows "expand (foldl (rebase c) [] ms) (n - c) = drop c (expand ms n)"
proof -
  define ls gs where "ls = takeWhile (\<lambda>m. fst m \<le> c) ms" and "gs = dropWhile (\<lambda>m. fst m \<le> c) ms"
  have ms: "ms = ls @ gs" by (simp add: ls_def gs_def)
  have ls: "ls \<noteq> []" using s(2,3) by (cases ms) (auto simp: ls_def)
  have le: "\<forall>m \<in> set ls. fst m \<le> c" by (auto simp: ls_def dest: set_takeWhileD)
  have sl: "sorted (map fst ls)" "sorted (map fst gs)" using s(1) by (simp_all add: ms sorted_append)
  have hl: "fst (hd ls) = 0" using s(3) ls by (simp add: ms)
  show ?thesis
  proof (cases "gs = []")
    case True
    then have "foldl (rebase c) [] ms = [(0, snd (last ls))]" using rebase_le [OF ls le] by (simp add: ms)
    moreover have "drop c (expand ms n) = replicate (n - c) (snd (last ls))"
      using expand_last [OF sl(1) ls hl _ le, of n] c(1) True by (simp add: ms)
    ultimately show ?thesis by simp
  next
    case False
    then obtain j u gs' where gs: "gs = (j, u) # gs'" by (cases gs) auto
    have "\<not> fst (hd gs) \<le> c" using False hd_dropWhile unfolding gs_def by metis
    then have j: "c < j" by (simp add: gs)
    have gt: "\<forall>m \<in> set gs. c < fst m" using sl(2) j by (auto simp: gs)
    have "foldl (rebase c) [] ms = (0, snd (last ls)) # map (\<lambda>m. (fst m - c, snd m)) gs"
      using rebase_le [OF ls le] rebase_gt [OF gt] by (simp add: ms)
    moreover have "expand (map (\<lambda>m. (fst m - c, snd m)) gs) (n - c) = expand gs n"
      using gt by (intro expand_shift) auto
    moreover have "drop c (expand ls j) = replicate (j - c) (snd (last ls))"
      using expand_last [OF sl(1) ls hl _ le, of j] j by simp
    moreover have "length (expand ls j) = j"
      using expand_length [OF sl(1) ls, of j] le j hl by fastforce
    ultimately show ?thesis
      using expand_append [OF ls False, of n] j by (simp add: ms gs)
  qed
qed

lemma marks_okD:
  assumes "marks_ok d" and "dc_buffer d \<noteq> []"
  shows "dc_marks d \<noteq> []" "fst (hd (dc_marks d)) = 0" "sorted (map fst (dc_marks d))" "sorted_wrt (<) (map fst (dc_marks d))"
    "\<forall>m \<in> set (dc_marks d). fst m < length (dc_buffer d)" "\<forall>m \<in> set (dc_marks d). fst m \<le> length (dc_buffer d)"
  using assms by (auto simp: marks_ok_def strict_sorted_imp_sorted intro: less_imp_le)

lemma marks_ok_length: "marks_ok d \<Longrightarrow> length (expand (dc_marks d) (length (dc_buffer d))) = length (dc_buffer d)"
proof (cases "dc_buffer d = []")
  case True
  assume "marks_ok d"
  then show ?thesis using True by (simp add: marks_ok_def)
next
  case False
  assume "marks_ok d"
  note m = marks_okD [OF this False]
  show ?thesis using expand_length [OF m(3,1,6)] m(2) by simp
qed

lemma tagged_bytes: "marks_ok d \<Longrightarrow> map fst (tagged d) = dc_buffer d"
  by (simp add: tagged_def marks_ok_length)

lemma tagged_first:
  assumes ok: "marks_ok d" and ne: "dc_buffer d \<noteq> []"
  shows "first_byte_timestamp d = Inr (snd (hd (tagged d)))"
proof -
  note m = marks_okD [OF ok ne]
  obtain t ms where ms: "dc_marks d = (0, t) # ms" using m(1,2) by (cases "dc_marks d") auto
  have "\<exists>ts. expand (dc_marks d) (length (dc_buffer d)) = t # ts"
  proof (cases ms)
    case Nil
    then show ?thesis using ne by (cases "length (dc_buffer d)") (simp_all add: ms)
  next
    case (Cons x ms')
    then have "0 < fst x" using m(4) by (simp add: ms)
    then show ?thesis using Cons by (cases x; cases "fst x") (simp_all add: ms)
  qed
  then show ?thesis using ne by (cases "dc_buffer d") (auto simp: tagged_def first_byte_timestamp_def ms)
qed

lemma tagged_advance:
  assumes ok: "marks_ok d" and n: "n \<le> length (dc_buffer d)"
  defines "d' \<equiv> advance_marks n (d\<lparr>dc_buffer := drop n (dc_buffer d)\<rparr>)"
  shows "marks_ok d' \<and> tagged d' = drop n (tagged d)"
proof (cases "n = length (dc_buffer d)")
  case True
  then show ?thesis by (simp add: d'_def advance_marks_def marks_ok_def tagged_def)
next
  case False
  then have lt: "n < length (dc_buffer d)" using n by simp
  then have ne: "dc_buffer d \<noteq> []" by auto
  note m = marks_okD [OF ok ne]
  let ?ms = "foldl (rebase n) [] (dc_marks d)"
  have d': "d' = d\<lparr>dc_buffer := drop n (dc_buffer d), dc_marks := ?ms\<rparr>" using lt by (simp add: d'_def advance_marks_def)
  have "expand ?ms (length (dc_buffer d) - n) = drop n (expand (dc_marks d) (length (dc_buffer d)))"
    by (rule expand_rebase) (use m lt in auto)
  then have "tagged d' = drop n (tagged d)" by (simp add: d' tagged_def drop_zip)
  moreover have "marks_ok d'"
  proof -
    define ls gs where "ls = takeWhile (\<lambda>m. fst m \<le> n) (dc_marks d)" and "gs = dropWhile (\<lambda>m. fst m \<le> n) (dc_marks d)"
    have ms: "dc_marks d = ls @ gs" by (simp add: ls_def gs_def)
    have ls: "ls \<noteq> []" "\<forall>m \<in> set ls. fst m \<le> n"
      using m(1,2) by (cases "dc_marks d", auto simp: ls_def dest: set_takeWhileD)
    have gt: "\<forall>m \<in> set gs. n < fst m"
    proof (cases gs)
      case (Cons x xs)
      then have "n < fst x" using hd_dropWhile [of "\<lambda>m. fst m \<le> n" "dc_marks d"] by (auto simp: gs_def)
      then show ?thesis using m(4) Cons by (auto simp: ms sorted_wrt_append)
    qed simp
    have "?ms = (0, snd (last ls)) # map (\<lambda>m. (fst m - n, snd m)) gs"
      using rebase_le [OF ls] rebase_gt [OF gt] by (simp add: ms)
    moreover have "sorted_wrt (<) (map (\<lambda>m. fst m - n) gs)"
    proof -
      have "sorted_wrt (\<lambda>x y. fst x < fst y) gs" using m(4) by (simp add: ms sorted_wrt_append sorted_wrt_map)
      then have "sorted_wrt (\<lambda>x y. fst x - n < fst y - n) gs"
        by (rule sorted_wrt_mono_rel [rotated]) (use gt in \<open>auto simp: diff_less_mono less_imp_le\<close>)
      then show ?thesis by (simp add: sorted_wrt_map)
    qed
    moreover have "\<forall>m \<in> set gs. fst m - n < length (dc_buffer d) - n" using m(5) gt by (simp add: ms diff_less_mono less_imp_le)
    ultimately show ?thesis using gt lt by (auto simp: d' marks_ok_def ms comp_def)
  qed
  ultimately show ?thesis by simp
qed

lemma tagged_extend:
  assumes ok: "marks_ok d" and ne: "ck_data c \<noteq> []"
  defines "d' \<equiv> d\<lparr>dc_marks := dc_marks d @ [(length (dc_buffer d), ck_timestamp c)], dc_buffer := dc_buffer d @ ck_data c\<rparr>"
  shows "marks_ok d' \<and> tagged d' = tagged d @ tag_chunk c"
proof (cases "dc_buffer d = []")
  case True
  then have "dc_marks d = []" using ok by (simp add: marks_ok_def)
  then show ?thesis using True ne by (simp add: d'_def marks_ok_def tagged_def tag_chunk_def zip_replicate2)
next
  case False
  note m = marks_okD [OF ok False]
  have "expand (dc_marks d') (length (dc_buffer d')) = expand (dc_marks d) (length (dc_buffer d)) @ replicate (length (ck_data c)) (ck_timestamp c)"
    using expand_snoc [OF m(3,1,6), of "ck_timestamp c" "length (ck_data c)"] by (simp add: d'_def)
  moreover have "marks_ok d'" using m ne False by (auto simp: d'_def marks_ok_def sorted_wrt_append hd_append)
  ultimately show ?thesis
    using marks_ok_length [OF ok] by (simp add: d'_def tagged_def tag_chunk_def zip_append zip_replicate2)
qed

subsection \<open>Framing is exact\<close>

lemma feed_loop_frames:
  assumes g: "blind body g"
  shows "marks_ok d \<Longrightarrow> consume g b (fst (frames (tagged d))) = (b', Inr ()) \<Longrightarrow>
    \<exists>d' ob'. feed_loop now body d (b, ob) = ((d', b', ob'), Inr ()) \<and> marks_ok d' \<and> tagged d' = snd (frames (tagged d))"
proof (induction "length (dc_buffer d)" arbitrary: d b ob rule: less_induct)
  case less
  note bytes = tagged_bytes [OF less.prems(1)]
  show ?case
  proof (cases "find_sub HEADER_TERMINATOR (dc_buffer d)")
    case None
    then show ?thesis using less.prems by (simp add: feed_loop.simps [of now body d] frames.simps [of "tagged d"] bytes)
  next
    case (Some i)
    let ?n = "i + length HEADER_TERMINATOR"
    let ?d = "advance_marks ?n (d\<lparr>dc_buffer := drop ?n (dc_buffer d)\<rparr>)"
    let ?m = "\<lparr>mg_timestamp = snd (hd (tagged d)), mg_data = take ?n (dc_buffer d)\<rparr>"
    have n: "?n \<le> length (dc_buffer d)" "0 < ?n" using find_sub_bound [OF Some] by (simp_all add: HEADER_TERMINATOR_def)
    then have ne: "dc_buffer d \<noteq> []" by auto
    note adv = tagged_advance [OF less.prems(1) n(1)]
    have f: "frames (tagged d) = (?m # fst (frames (tagged ?d)), snd (frames (tagged ?d)))"
    proof -
      have "map fst (take ?n (tagged d)) = take ?n (dc_buffer d)" by (metis bytes take_map)
      moreover have "tagged ?d = drop ?n (tagged d)" using adv by blast
      ultimately show ?thesis by (subst frames.simps) (simp only: bytes Some option.case Let_def)
    qed
    obtain b1 where b1: "g b ?m = (b1, Inr ())" "consume g b1 (fst (frames (tagged ?d))) = (b', Inr ())"
      using less.prems(2) unfolding f by (auto split: prod.splits sum.splits)
    obtain ob1 where body: "body (b, notify (MessageReconstructed (length (take ?n (dc_buffer d))) now) ob) ?m = ((b1, ob1), Inr ())"
      using blindD [OF g b1(1)] by blast
    have "length (dc_buffer ?d) < length (dc_buffer d)" using n by (simp add: HEADER_TERMINATOR_def)
    from less.hyps [OF this conjunct1 [OF adv] b1(2), of ob1] obtain d' ob' where
      "feed_loop now body ?d (b1, ob1) = ((d', b', ob'), Inr ())" "marks_ok d'" "tagged d' = snd (frames (tagged ?d))" by blast
    then show ?thesis
      using Some body f tagged_first [OF less.prems(1) ne] by (simp add: feed_loop.simps [of now body d] Let_def)
  qed
qed

lemma feed_frames:
  assumes g: "blind body g" and ok: "marks_ok d" and c: "consume g b (fst (frames (tagged d @ tag_chunk chunk))) = (b', Inr ())"
  shows "\<exists>d' ob'. feed now body chunk (d, b, ob) = ((d', b', ob'), Inr ()) \<and> marks_ok d' \<and>
    tagged d' = snd (frames (tagged d @ tag_chunk chunk))"
proof (cases "ck_data chunk = []")
  case True
  then show ?thesis using feed_loop_frames [OF g ok] c by (simp add: feed_def tag_chunk_def)
next
  case False
  then show ?thesis
    using feed_loop_frames [OF g, of "d\<lparr>dc_marks := dc_marks d @ [(length (dc_buffer d), ck_timestamp chunk)], dc_buffer := dc_buffer d @ ck_data chunk\<rparr>"]
      tagged_extend [OF ok False] c by (simp add: feed_def)
qed

text \<open>Cutting is compositional: what has been framed does not change when more bytes come.\<close>

lemma frames_append:
  "frames (xs @ ys) = (fst (frames xs) @ fst (frames (snd (frames xs) @ ys)), snd (frames (snd (frames xs) @ ys)))"
proof (induction xs rule: frames.induct)
  case (1 xs)
  show ?case
  proof (cases "find_sub HEADER_TERMINATOR (map fst xs)")
    case None
    then show ?thesis by (simp add: frames.simps [of xs])
  next
    case (Some i)
    have n: "i + length HEADER_TERMINATOR \<le> length xs" using find_sub_bound [OF Some] by simp
    moreover have "xs \<noteq> []" using n by (auto simp: HEADER_TERMINATOR_def)
    moreover have "find_sub HEADER_TERMINATOR (map fst (xs @ ys)) = Some i" using find_sub_append [OF Some] by simp
    ultimately show ?thesis
      using Some 1 [OF Some refl] by (simp add: frames.simps [of "xs @ ys"] frames.simps [of xs] Let_def)
  qed
qed

lemma frames_idle: "frames (snd (frames xs)) = ([], snd (frames xs))"
proof (induction xs rule: frames.induct)
  case (1 xs)
  then show ?case
    by (cases "find_sub HEADER_TERMINATOR (map fst xs)") (simp_all add: frames.simps [of xs] Let_def)
qed

lemma frames_bytes: "concat (map mg_data (fst (frames xs))) @ map fst (snd (frames xs)) = map fst xs"
proof (induction xs rule: frames.induct)
  case (1 xs)
  then show ?case
    by (cases "find_sub HEADER_TERMINATOR (map fst xs)")
      (simp_all add: frames.simps [of xs] Let_def flip: map_append)
qed

text \<open>The loop that feeds one chunk after the other.\<close>

fun feed_all ::
  "datetime \<Rightarrow> ('b, timestamped_message) loop_body \<Rightarrow> timestamped_chunk list \<Rightarrow> message_decoder \<times> 'b \<times> observer \<Rightarrow>
     (message_decoder \<times> 'b \<times> observer) \<times> unit res" where
  "feed_all now body [] st = (st, Inr ())"
| "feed_all now body (c # cs) st =
     (case feed now body c st of (st', Inl e) \<Rightarrow> (st', Inl e) | (st', Inr _) \<Rightarrow> feed_all now body cs st')"

lemma feed_all_frames:
  assumes g: "blind body g"
  shows "marks_ok d \<Longrightarrow> fst (frames (tagged d)) = [] \<Longrightarrow>
    consume g b (fst (frames (tagged d @ concat (map tag_chunk cs)))) = (b', Inr ()) \<Longrightarrow>
    \<exists>d' ob'. feed_all now body cs (d, b, ob) = ((d', b', ob'), Inr ()) \<and> marks_ok d' \<and>
      tagged d' = snd (frames (tagged d @ concat (map tag_chunk cs)))"
proof (induction cs arbitrary: d b ob)
  case Nil
  then show ?case by (cases "frames (tagged d)") (simp add: frames.simps [of "tagged d"] Let_def split: option.splits)
next
  case (Cons c cs)
  let ?r = "frames (tagged d @ tag_chunk c)"
  have f: "frames (tagged d @ concat (map tag_chunk (c # cs))) =
      (fst ?r @ fst (frames (snd ?r @ concat (map tag_chunk cs))), snd (frames (snd ?r @ concat (map tag_chunk cs))))"
    using frames_append [of "tagged d @ tag_chunk c"] by simp
  obtain b1 where b1: "consume g b (fst ?r) = (b1, Inr ())" "consume g b1 (fst (frames (snd ?r @ concat (map tag_chunk cs)))) = (b', Inr ())"
    using Cons.prems(3) [unfolded f] by (auto simp: consume_append split: prod.splits sum.splits)
  obtain d1 ob1 where d1: "feed now body c (d, b, ob) = ((d1, b1, ob1), Inr ())" "marks_ok d1" "tagged d1 = snd ?r"
    using feed_frames [OF g Cons.prems(1) b1(1)] by blast
  then show ?case using Cons.IH [of d1 b1 ob1] b1(2) frames_idle f by auto
qed

text \<open>
  C10: framing is exact. However a stream of bytes is cut into chunks, the messages the decoder
  yields are the same: the bytes up to and including each terminator, in order, nothing
  lost and nothing added, what follows the last terminator staying in the buffer; and each
  message carries the capture time of the chunk that supplied its first byte. Nothing is
  raised.
\<close>

theorem framing_exact:
  "\<exists>d ob'. feed_all now collect cs (message_decoder_init, [], ob) =
       ((d, fst (frames (concat (map tag_chunk cs))), ob'), Inr ()) \<and>
     tagged d = snd (frames (concat (map tag_chunk cs))) \<and>
     concat (map mg_data (fst (frames (concat (map tag_chunk cs))))) @ dc_buffer d = concat (map ck_data cs) \<and>
     \<not> has_sub HEADER_TERMINATOR (dc_buffer d)"
proof -
  have t: "marks_ok message_decoder_init" "tagged message_decoder_init = []"
    by (simp_all add: message_decoder_init_def marks_ok_def tagged_def)
  have e: "frames [] = ([], [])" by (simp add: frames.simps [of "[]"] find_sub.simps [of _ "[]"] starts_with_def HEADER_TERMINATOR_def)
  let ?xs = "concat (map tag_chunk cs)"
  obtain d ob' where d: "feed_all now collect cs (message_decoder_init, [], ob) = ((d, fst (frames ?xs), ob'), Inr ())"
      "marks_ok d" "tagged d = snd (frames ?xs)"
    using feed_all_frames [OF collect_blind t(1), of "[]" cs "fst (frames ?xs)" now ob] t(2) e by (auto simp: consume_collect)
  have "dc_buffer d = map fst (snd (frames ?xs))" using tagged_bytes [OF d(2)] d(3) by simp
  moreover have "map fst ?xs = concat (map ck_data cs)" by (induction cs) (simp_all add: tag_chunk_def comp_def)
  moreover have "find_sub HEADER_TERMINATOR (map fst (snd (frames ?xs))) = None"
    using frames_idle [of ?xs] by (auto simp: frames.simps [of "snd (frames ?xs)"] Let_def split: option.splits)
  ultimately show ?thesis using d(1,3) frames_bytes [of ?xs] by (simp add: has_sub_def)
qed

end
