(* ===== verification/SipParser.thy ===== *)
theory SipParser
  imports SipDecoder
begin

text \<open>
  \<^verbatim>\<open>telemetry_parser/protocol/sip_parser.py\<close> and \<^verbatim>\<open>telemetry_parser/extraction\<close>: a framed
  message becomes a structured SIP message, and a REGISTER the attributes an event is
  built from. The parser is modelled on messages that decode to ASCII text; on other text,
  where case and blanks follow the Unicode database, its result is the parameter \<open>foreign\<close>.
\<close>

definition CRLF :: string where "CRLF = [CHR 13, CHR 10]"

record sip_message =
  sm_method :: string
  sm_headers :: "(string, string) dict"
  sm_device_label :: "string option"
  sm_call_id :: "string option"
  sm_transport :: "string option"
  sm_source_ip :: "string option"

definition before :: "char \<Rightarrow> string \<Rightarrow> string" where "before c s = takeWhile (\<lambda>x. x \<noteq> c) s"
definition after :: "char \<Rightarrow> string \<Rightarrow> string" where "after c s = tl (dropWhile (\<lambda>x. x \<noteq> c) s)"

definition header_line :: "(string, string) dict \<Rightarrow> string \<Rightarrow> (string, string) dict" where
  "header_line headers line =
     (if strip line = [] then headers
      else if CHR '':'' \<notin> set line then headers
      else dict_set (map lower (strip (before (CHR '':'') line))) (strip (after (CHR '':'') line)) headers)"

definition parse_headers :: "string list \<Rightarrow> (string, string) dict" where
  "parse_headers lines = foldl header_line [] lines"

text \<open>\<^verbatim>\<open>headers.get(k)\<close>, where an absent header and an empty one are both falsy.\<close>

definition get_truthy :: "(string, string) dict \<Rightarrow> string \<Rightarrow> string option" where
  "get_truthy headers k = (case dict_get headers k of None \<Rightarrow> None | Some v \<Rightarrow> if v = [] then None else Some v)"

definition extract_device_label :: "(string, string) dict \<Rightarrow> string option" where
  "extract_device_label headers =
     (case get_truthy headers ''from'' of
        None \<Rightarrow> None
      | Some from_header \<Rightarrow>
          if \<not> has_sub ''sip:'' from_header then None
          else let identifier = split_sub ''sip:'' from_header ! 1;
                   user = hd (split_on (CHR ''@'') identifier)
               in Some (filter (\<lambda>c. c \<noteq> CHR ''<'' \<and> c \<noteq> CHR ''>'') user))"

definition extract_transport :: "(string, string) dict \<Rightarrow> string option \<times> string option" where
  "extract_transport headers =
     (case get_truthy headers ''via'' of
        None \<Rightarrow> (None, None)
      | Some via \<Rightarrow>
          (case words via of
             protocol_part # address_part # _ \<Rightarrow>
               (Some (last (split_on (CHR ''/'') protocol_part)), Some (hd (split_on (CHR '':'') address_part)))
           | _ \<Rightarrow> (None, None)))"

definition parse_text :: "string \<Rightarrow> sip_message option" where
  "parse_text txt =
     (let lines = split_sub CRLF txt; parts = words (hd lines) in
      if length parts < 3 then None
      else let headers = parse_headers (tl lines); (transport, source_ip) = extract_transport headers in
           Some \<lparr>sm_method = map upper (hd parts), sm_headers = headers, sm_device_label = extract_device_label headers,
                 sm_call_id = dict_get headers ''call-id'', sm_transport = transport, sm_source_ip = source_ip\<rparr>)"

definition ascii_text :: "string \<Rightarrow> string option" where
  "ascii_text raw = (let t = text_of raw in if list_all (\<lambda>n. n < 128) t then Some (map char_of t) else None)"

definition sip_parse :: "(string \<Rightarrow> sip_message option) \<Rightarrow> string \<Rightarrow> sip_message option" where
  "sip_parse foreign raw = (case ascii_text raw of Some t \<Rightarrow> parse_text t | None \<Rightarrow> foreign raw)"

subsection \<open>Extraction\<close>

record extracted_fields =
  ef_device_label :: string
  ef_registration_status :: string
  ef_transport_protocol :: "string option"
  ef_call_id :: "string option"
  ef_source_ip :: "string option"

definition map_registration_status :: "(string, string) dict \<Rightarrow> string option" where
  "map_registration_status headers =
     (case get_truthy headers ''cseq'' of
        None \<Rightarrow> None
      | Some cseq \<Rightarrow> if has_sub ''REGISTER'' cseq then Some ''registered'' else None)"

abbreviation UnsupportedProtocolEvent :: "string \<Rightarrow> exn" where
  "UnsupportedProtocolEvent m \<equiv> Exn ''UnsupportedProtocolEvent'' m"

definition extract_fields :: "observer \<Rightarrow> sip_message \<Rightarrow> observer \<times> extracted_fields option res" where
  "extract_fields ob message =
     (if sm_method message \<noteq> ''REGISTER''
      then (ob, Inl (UnsupportedProtocolEvent (''Unsupported SIP method: '' @ sm_method message)))
      else case map_registration_status (sm_headers message) of
          None \<Rightarrow> (notify (ParseError ''register_cseq_mismatch'' None) ob, Inr None)
        | Some registration_status \<Rightarrow>
            (case sm_device_label message of
               None \<Rightarrow> (notify (ParseError ''register_missing_device_label'' None) ob, Inr None)
             | Some device_label \<Rightarrow>
                 (ob, Inr (Some \<lparr>ef_device_label = device_label, ef_registration_status = registration_status,
                    ef_transport_protocol = sm_transport message, ef_call_id = sm_call_id message,
                    ef_source_ip = sm_source_ip message\<rparr>))))"

subsection \<open>Printing a message\<close>

text \<open>A request as a device sends it: the request line, one line per header, the empty line.\<close>

definition print_header :: "string \<times> string \<Rightarrow> string" where "print_header h = fst h @ '': '' @ snd h"

definition print_request :: "string \<Rightarrow> string \<Rightarrow> (string \<times> string) list \<Rightarrow> string" where
  "print_request mtd uri hs =
     mtd @ '' '' @ uri @ '' SIP/2.0'' @ CRLF @ concat (map (\<lambda>h. print_header h @ CRLF) hs) @ CRLF"

definition token :: "string \<Rightarrow> bool" where
  "token s \<longleftrightarrow> s \<noteq> [] \<and> (\<forall>c \<in> set s. \<not> is_space c \<and> of_char c < (128 :: nat))"

definition header_ok :: "string \<times> string \<Rightarrow> bool" where
  "header_ok h \<longleftrightarrow> token (fst h) \<and> CHR '':'' \<notin> set (fst h) \<and> strip (snd h) = snd h \<and>
     (\<forall>c \<in> set (snd h). c \<noteq> CHR 13 \<and> of_char c < (128 :: nat))"

definition header_dict :: "(string \<times> string) list \<Rightarrow> (string, string) dict" where
  "header_dict hs = foldl (\<lambda>d h. dict_set (map lower (fst h)) (snd h) d) [] hs"

lemma is_space_simps [simp]: "is_space (CHR 13)" "is_space (CHR 10)" "is_space (CHR '' '')" "\<not> is_space (CHR '':'')"
  by (simp_all add: is_space_def)

lemma token_no_space: "token s \<Longrightarrow> is_space c \<Longrightarrow> c \<notin> set s"
  by (auto simp: token_def)

lemma strip_token: "token s \<Longrightarrow> strip s = s"
  by (rule strip_id) (auto simp: token_def)

lemma split_sub_step: "CHR 13 \<notin> set s \<Longrightarrow> split_sub CRLF (s @ CRLF @ t) = s # split_sub CRLF t"
proof -
  assume s: "CHR 13 \<notin> set s"
  have "find_sub CRLF (CRLF @ t) = Some 0" by (simp add: find_sub.simps [of CRLF] starts_with_def)
  then have "find_sub CRLF (s @ CRLF @ t) = Some (length s)" using s find_sub_skip [of CRLF s "CRLF @ t"] by (simp add: CRLF_def)
  then show ?thesis by (subst split_sub.simps) (simp add: CRLF_def)
qed

lemma split_sub_end: "split_sub CRLF [] = [[]]"
  by (subst split_sub.simps) (simp add: find_sub.simps [of _ "[]"] starts_with_def CRLF_def)

lemma split_headers:
  "\<forall>h \<in> set hs. header_ok h \<Longrightarrow>
   split_sub CRLF (concat (map (\<lambda>h. print_header h @ CRLF) hs) @ CRLF) = map print_header hs @ [[], []]"
proof (induction hs)
  case Nil
  then show ?case using split_sub_step [of "[]" "[]"] by (simp add: split_sub_end)
next
  case (Cons h hs)
  then have "CHR 13 \<notin> set (print_header h)"
    using token_no_space [of "fst h" "CHR 13"] by (auto simp: header_ok_def print_header_def)
  then show ?case using Cons split_sub_step [of "print_header h"] by simp
qed

lemma header_line_print:
  assumes "header_ok h"
  shows "header_line d (print_header h) = dict_set (map lower (fst h)) (snd h) d"
proof -
  have k: "fst h \<noteq> []" "\<not> is_space (hd (fst h))" "CHR '':'' \<notin> set (fst h)" and v: "strip (snd h) = snd h"
    using assms by (auto simp: header_ok_def token_def)
  have b: "before (CHR '':'') (print_header h) = fst h" "after (CHR '':'') (print_header h) = CHR '' '' # snd h"
    using k(3) by (auto simp: before_def after_def print_header_def takeWhile_append dropWhile_append)
  have "strip (print_header h) \<noteq> []"
  proof
    assume e: "strip (print_header h) = []"
    obtain c cs where c: "print_header h = c # cs" "\<not> is_space c" using k(1,2) by (cases "fst h") (auto simp: print_header_def)
    then show False using e by (auto simp: strip_def dropWhile_eq_Nil_conv)
  qed
  then show ?thesis
    using b v strip_token [of "fst h"] assms by (simp add: header_line_def strip_blank header_ok_def print_header_def)
qed

lemma parse_headers_print:
  assumes "\<forall>h \<in> set hs. header_ok h"
  shows "parse_headers (map print_header hs @ [[], []]) = header_dict hs"
proof -
  have "foldl header_line d (map print_header hs) = foldl (\<lambda>d h. dict_set (map lower (fst h)) (snd h) d) d hs" for d
    using assms by (induction hs arbitrary: d) (simp_all add: header_line_print)
  then show ?thesis by (simp add: parse_headers_def header_dict_def header_line_def strip_def)
qed

lemma ascii_text_ascii:
  assumes "\<forall>c \<in> set s. of_char c < (128 :: nat)"
  shows "ascii_text s = Some s"
proof -
  have "text_of s = map of_char s" unfolding text_of_def using assms by (intro decode_ascii) auto
  then show ?thesis using assms by (simp add: ascii_text_def list_all_iff comp_def)
qed

lemma print_request_ascii:
  assumes "token mtd" "token uri" "\<forall>h \<in> set hs. header_ok h"
  shows "\<forall>c \<in> set (print_request mtd uri hs). of_char c < (128 :: nat)"
proof -
  have "of_char c < (128 :: nat)" if "h \<in> set hs" "c \<in> set (print_header h)" for h c
  proof -
    have "header_ok h" using assms(3) that(1) by blast
    moreover have "c \<in> set (fst h) \<or> c = CHR '':'' \<or> c = CHR '' '' \<or> c \<in> set (snd h)" using that(2) by (simp add: print_header_def) blast
    ultimately show ?thesis unfolding header_ok_def token_def by (elim disjE) simp_all
  qed
  then show ?thesis using assms(1,2) by (auto simp: print_request_def CRLF_def token_def)
qed

lemma split_request:
  assumes "token mtd" "token uri" "\<forall>h \<in> set hs. header_ok h"
  shows "split_sub CRLF (print_request mtd uri hs) = (mtd @ '' '' @ uri @ '' SIP/2.0'') # map print_header hs @ [[], []]"
    "words (mtd @ '' '' @ uri @ '' SIP/2.0'') = [mtd, uri, ''SIP/2.0'']"
proof -
  have "CHR 13 \<notin> set (mtd @ '' '' @ uri @ '' SIP/2.0'')"
    using token_no_space [OF assms(1), of "CHR 13"] token_no_space [OF assms(2), of "CHR 13"] by simp
  from split_sub_step [OF this] show "split_sub CRLF (print_request mtd uri hs) =
      (mtd @ '' '' @ uri @ '' SIP/2.0'') # map print_header hs @ [[], []]"
    using split_headers [OF assms(3)] by (simp add: print_request_def)
  have "words ''SIP/2.0'' = [''SIP/2.0'']" by code_simp
  then show "words (mtd @ '' '' @ uri @ '' SIP/2.0'') = [mtd, uri, ''SIP/2.0'']"
    using words_step [of mtd "CHR '' ''" "uri @ '' SIP/2.0''"] words_step [of uri "CHR '' ''" "''SIP/2.0''"] assms
    by (simp add: token_def)
qed

lemma parse_request:
  assumes "token mtd" and "token uri" and "\<forall>h \<in> set hs. header_ok h"
  shows "sip_parse foreign (print_request mtd uri hs) =
     Some \<lparr>sm_method = map upper mtd, sm_headers = header_dict hs, sm_device_label = extract_device_label (header_dict hs),
       sm_call_id = dict_get (header_dict hs) ''call-id'', sm_transport = fst (extract_transport (header_dict hs)),
       sm_source_ip = snd (extract_transport (header_dict hs))\<rparr>"
  using split_request [OF assms] parse_headers_print [OF assms(3)] ascii_text_ascii [OF print_request_ascii [OF assms]]
  by (simp add: sip_parse_def parse_text_def Let_def split_def)

text \<open>
  C11: a printed request is parsed back. For every method and every list of headers, whatever
  their number, order and repetition, the parser returns the method in upper case and
  exactly the headers, by their lower-case names, the last of a repeated name counting.
\<close>

theorem parse_print:
  assumes "token mtd" and "token uri" and "\<forall>h \<in> set hs. header_ok h"
  shows "sip_parse foreign (print_request mtd uri hs) =
     Some \<lparr>sm_method = map upper mtd, sm_headers = header_dict hs, sm_device_label = extract_device_label (header_dict hs),
       sm_call_id = dict_get (header_dict hs) ''call-id'', sm_transport = fst (extract_transport (header_dict hs)),
       sm_source_ip = snd (extract_transport (header_dict hs))\<rparr>"
  by (rule parse_request [OF assms])

subsection \<open>The fields of a registration\<close>

text \<open>The user part of the \<^verbatim>\<open>From\<close> address, the last element of the protocol and the host of \<^verbatim>\<open>Via\<close>.\<close>

lemma device_label_of:
  assumes f: "dict_get hs ''from'' = Some (pre @ ''sip:'' @ user @ ''@'' @ rest)" and pre: "CHR ''s'' \<notin> set pre"
    and user: "\<forall>c \<in> set user. c \<notin> {CHR ''@'', CHR ''<'', CHR ''>''}" and no: "\<not> has_sub ''sip:'' (user @ ''@'' @ rest)"
  shows "extract_device_label hs = Some user"
proof -
  let ?u = "user @ ''@'' @ rest" and ?f = "pre @ ''sip:'' @ user @ ''@'' @ rest"
  have "find_sub ''sip:'' (''sip:'' @ ?u) = Some 0" by (simp add: find_sub.simps [of "''sip:''"] starts_with_def)
  then have i: "find_sub ''sip:'' ?f = Some (length pre)" using pre find_sub_skip [of "''sip:''" pre "''sip:'' @ ?u"] by simp
  have "split_sub ''sip:'' ?u = [?u]" using no by (subst split_sub.simps) (simp add: has_sub_def)
  then have "split_sub ''sip:'' ?f ! 1 = ?u" using i by (subst split_sub.simps) simp
  moreover have "CHR ''@'' \<notin> set user" using user by blast
  from split_on_append_sep [OF this, of rest] have "hd (split_on (CHR ''@'') ?u) = user" by (simp only: append.simps list.sel)
  moreover have "filter (\<lambda>c. c \<noteq> CHR ''<'' \<and> c \<noteq> CHR ''>'') user = user" using user by (simp add: filter_id_conv)
  moreover have "has_sub ''sip:'' ?f" using i by (simp add: has_sub_def)
  ultimately show ?thesis by (simp add: extract_device_label_def get_truthy_def f del: append.simps)
qed

lemma transport_of:
  assumes v: "dict_get hs ''via'' = Some (''SIP/2.0/'' @ tr @ '' '' @ ip @ '':'' @ rest)"
    and tr: "token tr" "CHR ''/'' \<notin> set tr" and ip: "token ip" "CHR '':'' \<notin> set ip" and rest: "token rest"
  shows "extract_transport hs = (Some tr, Some ip)"
proof -
  have "words (''SIP/2.0/'' @ tr @ '' '' @ ip @ '':'' @ rest) = [''SIP/2.0/'' @ tr, ip @ '':'' @ rest]"
    using words_step [of "''SIP/2.0/'' @ tr" "CHR '' ''" "ip @ '':'' @ rest"] words_last [of "ip @ '':'' @ rest"] tr(1) ip(1) rest
    by (auto simp: token_def is_space_def)
  moreover have "last (split_on (CHR ''/'') (''SIP/2.0/'' @ tr)) = tr"
    using split_on_append_sep [of "CHR ''/''" "''SIP''" "''2.0/'' @ tr"] split_on_append_sep [of "CHR ''/''" "''2.0''" tr]
      split_on_no_sep [OF tr(2)] by simp
  moreover have "hd (split_on (CHR '':'') (ip @ '':'' @ rest)) = ip"
    using split_on_append_sep [OF ip(2), of rest] by simp
  ultimately show ?thesis by (simp add: extract_transport_def get_truthy_def v)
qed

theorem parse_print_witness:
  "sip_parse (\<lambda>_. None) (print_request ''register'' ''sip:pbx'' [(''From'', ''<sip:headset-12@pbx>''), (''CSeq'', ''1 REGISTER'')]) =
     Some \<lparr>sm_method = ''REGISTER'', sm_headers = [(''from'', ''<sip:headset-12@pbx>''), (''cseq'', ''1 REGISTER'')],
       sm_device_label = Some ''headset-12'', sm_call_id = None, sm_transport = None, sm_source_ip = None\<rparr>"
proof -
  let ?hs = "[(''From'', ''<sip:headset-12@pbx>''), (''CSeq'', ''1 REGISTER'')]"
  have "token ''register''" "token ''sip:pbx''" "\<forall>h \<in> set ?hs. header_ok h" "map upper ''register'' = ''REGISTER''"
      "header_dict ?hs = [(''from'', ''<sip:headset-12@pbx>''), (''cseq'', ''1 REGISTER'')]"
      "extract_device_label (header_dict ?hs) = Some ''headset-12''" "extract_transport (header_dict ?hs) = (None, None)"
    by code_simp+
  with parse_print [of "''register''" "''sip:pbx''" ?hs "\<lambda>_. None"] show ?thesis by simp
qed

end
