(* ===== verification/ParserPipeline.thy ===== *)
theory ParserPipeline
  imports SipParser
begin

text \<open>
  \<^verbatim>\<open>telemetry_parser/normalisation\<close>, \<^verbatim>\<open>telemetry_parser/output\<close> and
  \<^verbatim>\<open>telemetry_parser/pipeline\<close>: extracted attributes become contract events, and the stages
  are composed into the parser of a packet stream. \<open>ipv6\<close> stands for the standard library's
  parser of addresses with a colon, \<open>clock\<close> and \<open>fresh\<close> for the readings of the clock and the
  random trace ids of successive events.
\<close>

subsection \<open>Normalisation\<close>

definition ensure_utc :: "datetime \<Rightarrow> datetime" where
  "ensure_utc ts = (case utcoff ts of None \<Rightarrow> DateTime (wall ts) (Some 0) | Some z \<Rightarrow> DateTime (wall ts - z) (Some 0))"

definition normalise_event_timestamp :: "datetime \<Rightarrow> datetime" where
  "normalise_event_timestamp observed_at = ensure_utc observed_at"

definition STORE_ID_PATTERN :: string where
  "STORE_ID_PATTERN = ''^[a-z0-9]+([.'' @ [CHR 0x5C] @ ''-_][a-z0-9]+)*$''"

definition validate_store_id :: "string \<Rightarrow> string res" where
  "validate_store_id store_id =
     (if strip store_id = []
      then Inl (ValueError (''store_id is required and must be a non-empty string; it comes from the controller'' @
             [CHR 0x27] @ ''s provisioned configuration''))
      else if \<not> sep_words store_id
      then Inl (ValueError (''store_id does not satisfy the sip.registration grammar ('' @ STORE_ID_PATTERN @ ''): '' @
             repr_str store_id))
      else Inr store_id)"

definition octet_ok :: "string \<Rightarrow> bool" where
  "octet_ok s \<longleftrightarrow> s \<noteq> [] \<and> list_all is_digit s \<and> length s \<le> 3 \<and> (s \<noteq> ''0'' \<longrightarrow> hd s \<noteq> CHR ''0'') \<and> nat_of_digits s \<le> 255"

definition ip_address :: "(string \<Rightarrow> string option) \<Rightarrow> string \<Rightarrow> string res" where
  "ip_address ipv6 s =
     (let os = split_on (CHR ''.'') s; bad = Inl (ValueError (repr_str s @ '' does not appear to be an IPv4 or IPv6 address'')) in
      if length os = 4 \<and> list_all octet_ok os then Inr s
      else if CHR '':'' \<in> set s then (case ipv6 s of Some a \<Rightarrow> Inr a | None \<Rightarrow> bad) else bad)"

definition transport_of_value :: "string \<Rightarrow> transport_protocol res" where
  "transport_of_value v =
     (if v = ''TCP'' then Inr TCP else if v = ''UDP'' then Inr UDP else if v = ''TLS'' then Inr TLS
      else Inl (ValueError (repr_str v @ '' is not a valid SipTransportProtocol'')))"

definition status_of_value :: "string \<Rightarrow> registration_status res" where
  "status_of_value v =
     (if v = ''REGISTERED'' then Inr REGISTERED else Inl (ValueError (repr_str v @ '' is not a valid RegistrationStatus'')))"

definition opt_res :: "('a \<Rightarrow> 'b res) \<Rightarrow> 'a option \<Rightarrow> 'b option res" where
  "opt_res f v = (case v of None \<Rightarrow> Inr None | Some x \<Rightarrow> bind_res (f x) (\<lambda>y. Inr (Some y)))"

definition build_payload ::
  "(string \<Rightarrow> string option) \<Rightarrow> string \<Rightarrow> extracted_fields \<Rightarrow> datetime \<Rightarrow> sip_registration_payload res" where
  "build_payload ipv6 store_id extracted observed_at =
     bind_res (status_of_value (map upper (ef_registration_status extracted))) (\<lambda>status.
     bind_res (opt_res (\<lambda>t. transport_of_value (map upper t)) (ef_transport_protocol extracted)) (\<lambda>transport.
     bind_res (opt_res (ip_address ipv6) (ef_source_ip extracted)) (\<lambda>ip.
       sip_registration_payload_init
         \<lparr>sr_device_id = derive_device_id store_id (ef_device_label extracted), sr_device_label = ef_device_label extracted,
          sr_store_id = store_id, sr_registration_status = status, sr_observed_at = observed_at,
          sr_transport_protocol = transport, sr_source_ip = ip, sr_registration_call_id = ef_call_id extracted\<rparr>)))"

definition EVENT_ID_ROLE :: string where "EVENT_ID_ROLE = ''event.sip_registration''"

definition NORMALISER_SOURCE :: string where "NORMALISER_SOURCE = ''telemetry-parser''"

text \<open>The name contains \<^verbatim>\<open>str(None)\<close> where there is no call id.\<close>

definition derive_event_id :: "sip_registration_payload \<Rightarrow> uuid" where
  "derive_event_id p = derive EVENT_ID_ROLE
     [str_uuid (sr_device_id p), isoformat (sr_observed_at p), (case sr_registration_call_id p of None \<Rightarrow> ''None'' | Some c \<Rightarrow> c)]"

type_synonym sip_event = "sip_registration_payload base_event"

definition normalise ::
  "(string \<Rightarrow> string option) \<Rightarrow> datetime \<Rightarrow> uuid \<Rightarrow> string \<Rightarrow> extracted_fields \<Rightarrow> datetime \<Rightarrow> uuid option \<Rightarrow> sip_event res" where
  "normalise ipv6 now fresh store_id extracted observed_at trace_id =
     (let event_timestamp = normalise_event_timestamp observed_at in
      bind_res (build_payload ipv6 store_id extracted event_timestamp) (\<lambda>payload.
      bind_res (event_metadata_init (sc_schema_version SipRegistrationEvent) (sc_event_type SipRegistrationEvent)
                  NORMALISER_SOURCE) (\<lambda>md.
        base_event_init SipRegistrationEvent (derive_event_id payload) (Some md)
          (trace_context_init fresh (Some (case trace_id of None \<Rightarrow> fresh | Some t \<Rightarrow> t)) None INGESTION)
          event_timestamp now payload)))"

subsection \<open>Emission\<close>

text \<open>The callbacks of an emitter act on a world \<open>'w\<close>.\<close>

record 'w event_emitter =
  em_on_emit :: "('w \<Rightarrow> sip_event \<Rightarrow> 'w \<times> unit res) option"
  em_preserve_event_ids :: bool
  em_id_provider :: "('w \<Rightarrow> 'w \<times> uuid) option"

definition emit :: "'w event_emitter \<Rightarrow> 'w \<times> observer \<Rightarrow> sip_event \<Rightarrow> ('w \<times> observer) \<times> sip_event res" where
  "emit em wo event =
     (let (w1, ev) = (case em_id_provider em of
            Some provide \<Rightarrow>
              if em_preserve_event_ids em then (fst wo, event)
              else (case provide (fst wo) of (w', u) \<Rightarrow> (w', event\<lparr>ev_event_id := u\<rparr>))
          | None \<Rightarrow> (fst wo, event));
          (w2, r) = (case em_on_emit em of None \<Rightarrow> (w1, Inr ()) | Some f \<Rightarrow> f w1 ev)
      in case r of
           Inl e \<Rightarrow> ((w2, snd wo), Inl e)
         | Inr _ \<Rightarrow>
             ((w2, notify (EventEmitted (md_event_type (ev_metadata ev)) (str_uuid (ev_event_id ev))) (snd wo)), Inr ev))"

subsection \<open>The pipeline\<close>

record parser_env =
  pe_ipv6 :: "string \<Rightarrow> string option"
  pe_foreign :: "string \<Rightarrow> sip_message option"
  pe_mktime :: "int \<Rightarrow> pyfloat"
  pe_clock :: "nat \<Rightarrow> datetime"
  pe_fresh :: "nat \<Rightarrow> uuid"

record parser_pipeline =
  pp_store_id :: string
  pp_sessions :: sessions
  pp_decoder :: message_decoder
  pp_observer :: observer

definition parser_pipeline_init :: "string \<Rightarrow> observer \<Rightarrow> parser_pipeline res" where
  "parser_pipeline_init store_id ob =
     bind_res (validate_store_id store_id) (\<lambda>s.
       Inr \<lparr>pp_store_id = s, pp_sessions = [], pp_decoder = message_decoder_init, pp_observer = ob\<rparr>)"

definition PIPELINE_EMITTER :: "unit event_emitter" where
  "PIPELINE_EMITTER = \<lparr>em_on_emit = None, em_preserve_event_ids = False, em_id_provider = None\<rparr>"

text \<open>The bodies of the three nested loops; the state of the innermost is the list of the events yielded.\<close>

definition on_message :: "parser_env \<Rightarrow> string \<Rightarrow> uuid option \<Rightarrow> (sip_event list, timestamped_message) loop_body" where
  "on_message env store_id trace_id eo m =
     (case sip_parse (pe_foreign env) (mg_data m) of
        None \<Rightarrow> (eo, Inr ())
      | Some sip \<Rightarrow>
     (case extract_fields (snd eo) sip of
        (ob, Inl e) \<Rightarrow> ((fst eo, ob), if exn_type e = ''UnsupportedProtocolEvent'' then Inr () else Inl e)
      | (ob, Inr None) \<Rightarrow> ((fst eo, ob), Inr ())
      | (ob, Inr (Some extracted)) \<Rightarrow>
     (case normalise (pe_ipv6 env) (pe_clock env (length (fst eo))) (pe_fresh env (length (fst eo))) store_id extracted
             (mg_timestamp m) trace_id of
        Inl e \<Rightarrow> ((fst eo, ob), Inl e)
      | Inr event \<Rightarrow>
     (case emit PIPELINE_EMITTER ((), ob) event of
        ((_, ob'), Inl e) \<Rightarrow> ((fst eo, ob'), Inl e)
      | ((_, ob'), Inr ev) \<Rightarrow> ((fst eo @ [ev], ob'), Inr ())))))"

definition on_chunk ::
  "parser_env \<Rightarrow> string \<Rightarrow> uuid option \<Rightarrow> (message_decoder \<times> sip_event list, timestamped_chunk) loop_body" where
  "on_chunk env store_id trace_id st c =
     (case st of ((d, evs), ob) \<Rightarrow>
      case feed (pe_clock env (length evs)) (on_message env store_id trace_id) c (d, evs, ob) of
        ((d', evs', ob'), r) \<Rightarrow> (((d', evs'), ob'), r))"

fun packet_loop ::
  "(int \<Rightarrow> pyfloat) \<Rightarrow> ('b, timestamped_chunk) loop_body \<Rightarrow> tcp_packet list \<Rightarrow> sessions \<times> 'b \<times> observer \<Rightarrow>
     (sessions \<times> 'b \<times> observer) \<times> unit res" where
  "packet_loop mktime body [] st = (st, Inr ())"
| "packet_loop mktime body (p # ps) st =
     (case process_packet mktime body p st of (st', Inl e) \<Rightarrow> (st', Inl e) | (st', Inr _) \<Rightarrow> packet_loop mktime body ps st')"

definition discard_incomplete_buffers :: "parser_pipeline \<Rightarrow> parser_pipeline \<times> unit res" where
  "discard_incomplete_buffers pp =
     (case discard_incomplete (pp_sessions pp) of (ss, segments, segment_bytes) \<Rightarrow>
      let ob = (if segments = 0 then pp_observer pp
                else notify (PacketDropped ''incomplete_reassembly_at_end_of_stream''
                       [(''segments'', PyInt (int segments)), (''bytes'', PyInt (int segment_bytes))]) (pp_observer pp));
          pp1 = pp\<lparr>pp_sessions := ss, pp_observer := ob\<rparr>
      in case decoder_flush (pp_decoder pp) of
           (d, Inl e) \<Rightarrow> (pp1\<lparr>pp_decoder := d\<rparr>, Inl e)
         | (d, Inr None) \<Rightarrow> (pp1\<lparr>pp_decoder := d\<rparr>, Inr ())
         | (d, Inr (Some m)) \<Rightarrow>
             (pp1\<lparr>pp_decoder := d, pp_observer := notify (PacketDropped ''incomplete_message_at_end_of_stream''
                [(''bytes'', PyInt (int (length (mg_data m)))), (''observed_at'', PyStr (isoformat (mg_timestamp m)))]) ob\<rparr>, Inr ()))"

text \<open>The events yielded, and what the exhausted generator ended with.\<close>

definition parse_stream ::
  "parser_env \<Rightarrow> uuid option \<Rightarrow> tcp_packet list \<Rightarrow> parser_pipeline \<Rightarrow> (parser_pipeline \<times> sip_event list) \<times> unit res" where
  "parse_stream env trace_id packets pp =
     (case packet_loop (pe_mktime env) (on_chunk env (pp_store_id pp) trace_id) packets
             (pp_sessions pp, (pp_decoder pp, []), pp_observer pp) of
        ((ss, (d, evs), ob), r) \<Rightarrow>
          let pp1 = pp\<lparr>pp_sessions := ss, pp_decoder := d, pp_observer := ob\<rparr> in
          (case r of
             Inl e \<Rightarrow> ((pp1, evs), Inl e)
           | Inr _ \<Rightarrow> (case discard_incomplete_buffers pp1 of (pp2, r2) \<Rightarrow> ((pp2, evs), r2))))"

subsection \<open>What normalisation accepts and produces\<close>

lemma ensure_utc_instant: "ensure_utc t = UTC (instant t)"
  by (simp add: ensure_utc_def instant_def UTC_def split: option.split)

text \<open>The attributes the schema accepts from a controller of a given store, with their converted values.\<close>

definition acceptable ::
  "(string \<Rightarrow> string option) \<Rightarrow> string \<Rightarrow> extracted_fields \<Rightarrow> transport_protocol option \<Rightarrow> string option \<Rightarrow> bool" where
  "acceptable ipv6 store_id ex tp ip \<longleftrightarrow>
     status_of_value (map upper (ef_registration_status ex)) = Inr REGISTERED \<and>
     opt_res (\<lambda>t. transport_of_value (map upper t)) (ef_transport_protocol ex) = Inr tp \<and>
     opt_res (ip_address ipv6) (ef_source_ip ex) = Inr ip \<and>
     1 \<le> length (ef_device_label ex) \<and> length (ef_device_label ex) \<le> 128 \<and> store_id \<noteq> [] \<and> sep_words store_id \<and>
     (\<forall>c. ef_call_id ex = Some c \<longrightarrow> length c \<le> 256)"

definition payload_of ::
  "string \<Rightarrow> extracted_fields \<Rightarrow> transport_protocol option \<Rightarrow> string option \<Rightarrow> datetime \<Rightarrow> sip_registration_payload" where
  "payload_of store_id ex tp ip t =
     \<lparr>sr_device_id = derive_device_id store_id (ef_device_label ex), sr_device_label = ef_device_label ex, sr_store_id = store_id,
      sr_registration_status = REGISTERED, sr_observed_at = t, sr_transport_protocol = tp, sr_source_ip = ip,
      sr_registration_call_id = ef_call_id ex\<rparr>"

lemma sip_payload_init_Inr:
  "sip_registration_payload_init p = Inr q \<longleftrightarrow> q = p \<and> uuid_version (sr_device_id p) \<in> {Some 4, Some 5} \<and>
     1 \<le> length (sr_device_label p) \<and> length (sr_device_label p) \<le> 128 \<and> sr_store_id p \<noteq> [] \<and> sep_words (sr_store_id p) \<and>
     utc_ok (sr_observed_at p) \<and> (\<forall>c. sr_registration_call_id p = Some c \<longrightarrow> length c \<le> 256)"
  by (auto simp: sip_registration_payload_init_def uuid_check_iff allowed_versions_def utc_checks_def utc_ok_aware
      split: option.split)

lemma status_REGISTERED: "status_of_value v = Inr st \<Longrightarrow> st = REGISTERED"
  by (cases st) simp

lemma build_payload_Inr:
  "build_payload ipv6 store_id ex (UTC t) = Inr p \<longleftrightarrow>
     (\<exists>tp ip. acceptable ipv6 store_id ex tp ip \<and> p = payload_of store_id ex tp ip (UTC t))"
  by (auto simp: build_payload_def acceptable_def payload_of_def sip_payload_init_Inr derive_device_id_def
      dest: status_REGISTERED)

lemma normaliser_patterns: "SEMVER_PATTERN (sc_schema_version SipRegistrationEvent)"
    "EVENT_TYPE_PATTERN (sc_event_type SipRegistrationEvent)" "SOURCE_PATTERN NORMALISER_SOURCE"
  by code_simp+

definition event_of :: "datetime \<Rightarrow> uuid \<Rightarrow> sip_registration_payload \<Rightarrow> sip_event" where
  "event_of now trace p =
     \<lparr>ev_event_id = derive_event_id p,
      ev_metadata = \<lparr>md_schema_version = ''v1'', md_event_type = ''sip.registration'', md_source = ''telemetry-parser''\<rparr>,
      ev_trace = \<lparr>tc_trace_id = trace, tc_root_trace_id = Some trace, tc_pipeline_stage = INGESTION\<rparr>,
      ev_event_timestamp = sr_observed_at p, ev_ingest_timestamp = now, ev_payload = p\<rparr>"

lemma normalise_Inr:
  assumes "aware now"
  shows "normalise ipv6 now fresh store_id ex observed_at trace_id = Inr ev \<longleftrightarrow>
     (\<exists>tp ip. acceptable ipv6 store_id ex tp ip \<and> instant observed_at \<le> instant now + MAX_CLOCK_SKEW \<and>
        ev = event_of now (case trace_id of None \<Rightarrow> fresh | Some t \<Rightarrow> t)
               (payload_of store_id ex tp ip (UTC (instant observed_at))))"
  using normaliser_patterns assms
  by (auto simp: normalise_def normalise_event_timestamp_def ensure_utc_instant build_payload_Inr event_metadata_init_Inr
      base_event_init_Inr inject_metadata_def event_of_def payload_of_def SipRegistrationEvent_def NORMALISER_SOURCE_def
      trace_context_init_def Let_def)

text \<open>
  Normalisation, exactly. An event is produced if and only if the attributes satisfy the
  schema and the message was not captured too far ahead of the clock; the event is dated by
  the capture time in UTC, its device is derived from store and label, and its identity is
  derived from device, capture time and call id, so it depends neither on the clock nor on
  the trace nor on the run.
\<close>

theorem normalise_exact:
  assumes "aware now"
  shows "normalise ipv6 now fresh store_id ex observed_at trace_id = Inr ev \<longleftrightarrow>
     (\<exists>tp ip. acceptable ipv6 store_id ex tp ip \<and> instant observed_at \<le> instant now + MAX_CLOCK_SKEW \<and>
        ev = event_of now (case trace_id of None \<Rightarrow> fresh | Some t \<Rightarrow> t)
               (payload_of store_id ex tp ip (UTC (instant observed_at))))"
  using normalise_Inr [OF assms] .

subsection \<open>The stages composed\<close>

lemma consume_total: "(\<And>b x. x \<in> set xs \<Longrightarrow> g b x = (h b x, Inr ())) \<Longrightarrow> consume g b xs = (foldl h b xs, Inr ())"
  by (induction xs arbitrary: b) simp_all

text \<open>The effect of the inner loops without the observer.\<close>

definition message_effect ::
  "parser_env \<Rightarrow> string \<Rightarrow> uuid option \<Rightarrow> sip_event list \<Rightarrow> timestamped_message \<Rightarrow> sip_event list \<times> unit res" where
  "message_effect env store_id trace_id evs m =
     (case on_message env store_id trace_id (evs, None) m of ((evs', _), r) \<Rightarrow> (evs', r))"

lemma extract_fields_observer:
  "snd (extract_fields ob m) = snd (extract_fields None m)"
  by (auto simp: extract_fields_def split: option.split)

lemma on_message_blind: "blind (on_message env store_id trace_id) (message_effect env store_id trace_id)"
  unfolding blind_def
proof (intro allI)
  fix evs ob m
  show "\<exists>ob'. on_message env store_id trace_id (evs, ob) m =
      ((fst (message_effect env store_id trace_id evs m), ob'), snd (message_effect env store_id trace_id evs m))"
  proof (cases "sip_parse (pe_foreign env) (mg_data m)")
    case None
    then show ?thesis by (simp add: on_message_def message_effect_def)
  next
    case (Some sip)
    obtain o1 o2 r where "extract_fields ob sip = (o1, r)" "extract_fields None sip = (o2, r)"
      using extract_fields_observer [of ob sip] by (metis prod.collapse)
    then show ?thesis using Some
      by (auto simp: on_message_def message_effect_def emit_def PIPELINE_EMITTER_def split: sum.split option.split)
  qed
qed

text \<open>A message the extractor accepts, and the event it yields.\<close>

definition expected_event ::
  "parser_env \<Rightarrow> string \<Rightarrow> uuid option \<Rightarrow> nat \<Rightarrow> datetime \<Rightarrow> extracted_fields \<times> transport_protocol option \<times> string option \<Rightarrow> sip_event" where
  "expected_event env store_id trace_id i observed_at x =
     (case x of (ex, tp, ip) \<Rightarrow>
        event_of (pe_clock env i) (case trace_id of None \<Rightarrow> pe_fresh env i | Some t \<Rightarrow> t)
          (payload_of store_id ex tp ip (UTC (instant observed_at))))"

lemma message_effect_event:
  assumes "sip_parse (pe_foreign env) (mg_data m) = Some sip" and "extract_fields None sip = (None, Inr (Some ex))"
    and "acceptable (pe_ipv6 env) store_id ex tp ip" and "aware (pe_clock env (length evs))"
    and "instant (mg_timestamp m) \<le> instant (pe_clock env (length evs)) + MAX_CLOCK_SKEW"
  shows "message_effect env store_id trace_id evs m =
    (evs @ [expected_event env store_id trace_id (length evs) (mg_timestamp m) (ex, tp, ip)], Inr ())"
proof -
  have "normalise (pe_ipv6 env) (pe_clock env (length evs)) (pe_fresh env (length evs)) store_id ex (mg_timestamp m) trace_id =
      Inr (expected_event env store_id trace_id (length evs) (mg_timestamp m) (ex, tp, ip))"
    using normalise_Inr [OF assms(4)] assms(3,5) by (auto simp: expected_event_def)
  then show ?thesis using assms(1,2) by (simp add: message_effect_def on_message_def emit_def PIPELINE_EMITTER_def)
qed

lemma feed_loop_blind:
  assumes g: "blind body g"
  shows "\<exists>d' b' r. \<forall>ob. \<exists>ob'. feed_loop now body d (b, ob) = ((d', b', ob'), r)"
proof (induction "length (dc_buffer d)" arbitrary: d b rule: less_induct)
  case less
  show ?case
  proof (cases "find_sub HEADER_TERMINATOR (dc_buffer d)")
    case None
    then show ?thesis by (simp add: feed_loop.simps [of now body d])
  next
    case (Some i)
    let ?n = "i + length HEADER_TERMINATOR"
    let ?d = "advance_marks ?n (d\<lparr>dc_buffer := drop ?n (dc_buffer d)\<rparr>)"
    show ?thesis
    proof (cases "first_byte_timestamp d")
      case (Inl e)
      then show ?thesis using Some by (simp add: feed_loop.simps [of now body d] Let_def)
    next
      case (Inr t)
      let ?m = "\<lparr>mg_timestamp = t, mg_data = take ?n (dc_buffer d)\<rparr>"
      obtain b1 r1 where b1: "g b ?m = (b1, r1)" by fastforce
      have "?n \<le> length (dc_buffer d)" using find_sub_bound [OF Some] by simp
      then have "length (dc_buffer ?d) < length (dc_buffer d)" by (simp add: HEADER_TERMINATOR_def)
      from less [OF this, of b1] obtain d' b' r where IH: "\<And>ob. \<exists>ob'. feed_loop now body ?d (b1, ob) = ((d', b', ob'), r)" by blast
      have step: "feed_loop now body d (b, ob) =
          (case body (b, notify (MessageReconstructed (length (take ?n (dc_buffer d))) now) ob) ?m of
             (bo', Inl e) \<Rightarrow> ((?d, bo'), Inl e) | (bo', Inr _) \<Rightarrow> feed_loop now body ?d bo')" for ob
        using Some Inr by (simp add: feed_loop.simps [of now body d] Let_def)
      have bd: "\<exists>ob'. body (b, ob) ?m = ((b1, ob'), r1)" for ob using blindD [OF g b1] .
      show ?thesis
      proof (cases r1)
        case (Inl e)
        then have "\<exists>ob'. feed_loop now body d (b, ob) = ((?d, b1, ob'), Inl e)" for ob
          using step [of ob] bd [of "notify (MessageReconstructed (length (take ?n (dc_buffer d))) now) ob"] by auto
        then show ?thesis by blast
      next
        case (Inr u)
        then have "\<exists>ob'. feed_loop now body d (b, ob) = ((d', b', ob'), r)" for ob
          using step [of ob] bd [of "notify (MessageReconstructed (length (take ?n (dc_buffer d))) now) ob"] IH by auto
        then show ?thesis by blast
      qed
    qed
  qed
qed

definition chunk_effect ::
  "parser_env \<Rightarrow> string \<Rightarrow> uuid option \<Rightarrow> message_decoder \<times> sip_event list \<Rightarrow> timestamped_chunk \<Rightarrow>
     (message_decoder \<times> sip_event list) \<times> unit res" where
  "chunk_effect env store_id trace_id b c = (case on_chunk env store_id trace_id (b, None) c of ((b', _), r) \<Rightarrow> (b', r))"

lemma on_chunk_blind: "blind (on_chunk env store_id trace_id) (chunk_effect env store_id trace_id)"
  unfolding blind_def
proof (intro allI)
  fix b :: "message_decoder \<times> sip_event list" and ob :: observer and c :: timestamped_chunk
  obtain d evs where b: "b = (d, evs)" by fastforce
  let ?d = "if ck_data c = [] then d
     else d\<lparr>dc_marks := dc_marks d @ [(length (dc_buffer d), ck_timestamp c)], dc_buffer := dc_buffer d @ ck_data c\<rparr>"
  obtain d' b' r where f: "\<And>ob. \<exists>ob'. feed_loop (pe_clock env (length evs)) (on_message env store_id trace_id) ?d (evs, ob) = ((d', b', ob'), r)"
    using feed_loop_blind [OF on_message_blind] by metis
  have "\<exists>ob'. on_chunk env store_id trace_id (b, ob) c = (((d', b'), ob'), r)" for ob
    using f [of ob] by (auto simp: on_chunk_def feed_def b)
  then show "\<exists>ob'. on_chunk env store_id trace_id (b, ob) c =
      ((fst (chunk_effect env store_id trace_id b c), ob'), snd (chunk_effect env store_id trace_id b c))"
    by (metis (no_types, lifting) chunk_effect_def case_prod_conv fst_conv snd_conv)
qed

lemma chunk_effect_frames:
  assumes "marks_ok d" and "consume (message_effect env store_id trace_id) evs (fst (frames (tagged d @ tag_chunk c))) = (evs', Inr ())"
  shows "\<exists>d'. chunk_effect env store_id trace_id (d, evs) c = ((d', evs'), Inr ()) \<and> marks_ok d' \<and>
    tagged d' = snd (frames (tagged d @ tag_chunk c))"
proof -
  obtain d' ob' where "feed (pe_clock env (length evs)) (on_message env store_id trace_id) c (d, evs, None) = ((d', evs', ob'), Inr ())"
      "marks_ok d'" "tagged d' = snd (frames (tagged d @ tag_chunk c))"
    using feed_frames [OF on_message_blind assms] by blast
  then show ?thesis by (simp add: chunk_effect_def on_chunk_def)
qed

lemma consume_chunks:
  "marks_ok d \<Longrightarrow> fst (frames (tagged d)) = [] \<Longrightarrow>
   consume (message_effect env store_id trace_id) evs (fst (frames (tagged d @ concat (map tag_chunk cs)))) = (evs', Inr ()) \<Longrightarrow>
   \<exists>d'. consume (chunk_effect env store_id trace_id) (d, evs) cs = ((d', evs'), Inr ()) \<and> marks_ok d' \<and>
     tagged d' = snd (frames (tagged d @ concat (map tag_chunk cs)))"
proof (induction cs arbitrary: d evs)
  case Nil
  then show ?case by (cases "frames (tagged d)") (simp add: frames.simps [of "tagged d"] Let_def split: option.splits)
next
  case (Cons c cs)
  let ?r = "frames (tagged d @ tag_chunk c)" and ?g = "message_effect env store_id trace_id"
  have f: "frames (tagged d @ concat (map tag_chunk (c # cs))) =
      (fst ?r @ fst (frames (snd ?r @ concat (map tag_chunk cs))), snd (frames (snd ?r @ concat (map tag_chunk cs))))"
    using frames_append [of "tagged d @ tag_chunk c"] by simp
  obtain e1 where e1: "consume ?g evs (fst ?r) = (e1, Inr ())"
      "consume ?g e1 (fst (frames (snd ?r @ concat (map tag_chunk cs)))) = (evs', Inr ())"
    using Cons.prems(3) [unfolded f] by (auto simp: consume_append split: prod.splits sum.splits)
  obtain d1 where d1: "chunk_effect env store_id trace_id (d, evs) c = ((d1, e1), Inr ())" "marks_ok d1" "tagged d1 = snd ?r"
    using chunk_effect_frames [OF Cons.prems(1) e1(1)] by blast
  then show ?case using Cons.IH [of d1 e1] e1(2) frames_idle f by auto
qed

subsection \<open>The packets of one connection\<close>

fun accept_all :: "stream \<Rightarrow> tcp_packet list \<Rightarrow> stream \<times> timestamped_chunk list" where
  "accept_all st [] = (st, [])"
| "accept_all st (p # ps) =
     (case accept st p of (st1, cs) \<Rightarrow> case accept_all st1 ps of (st2, cs') \<Rightarrow> (st2, cs @ cs'))"

lemma packet_loop_accept:
  assumes g: "blind body g"
  shows "starts_aware ss \<Longrightarrow> \<forall>p \<in> set ps. packet_key p = k \<and> aware (pk_timestamp p) \<Longrightarrow>
    consume g b (snd (accept_all (streams ss k) ps)) = (b', Inr ()) \<Longrightarrow>
    \<exists>ss' ob'. packet_loop mktime body ps (ss, b, ob) = ((ss', b', ob'), Inr ())"
proof (induction ps arbitrary: ss b ob)
  case (Cons p ps)
  obtain st1 cs where a: "accept (streams ss k) p = (st1, cs)" by fastforce
  obtain st2 cs' where a': "accept_all st1 ps = (st2, cs')" by fastforce
  obtain b1 where b1: "consume g b cs = (b1, Inr ())" "consume g b1 cs' = (b', Inr ())"
    using Cons.prems(3) by (auto simp: a a' consume_append split: prod.splits sum.splits)
  have k: "packet_key p = k" "aware (pk_timestamp p)" using Cons.prems(2) by simp_all
  obtain ss1 ob1 where s1: "process_packet mktime body p (ss, b, ob) = ((ss1, b1, ob1), Inr ())" "starts_aware ss1"
      "streams ss1 = (streams ss)(k := st1)"
    using process_packet_streams [OF g Cons.prems(1) k(2), of b b1 mktime ob] b1(1) a k(1) by auto
  then show ?case using Cons.IH [OF s1(2), of b1 ob1] Cons.prems(2) b1(2) a' by simp
qed simp

lemma accept_all_segments:
  assumes cut: "cut isn segs"
  shows "all_carry isn segs (as @ bs) \<Longrightarrow> tracks_stream isn segs as st \<Longrightarrow> as = [] \<longrightarrow> bs = [] \<or> snd (hd bs) = 0 \<Longrightarrow>
    list_all2 (origin (as @ bs)) [frontier (length segs) (map snd as)..<frontier (length segs) (map snd (as @ bs))]
      (snd (accept_all st (map fst bs)))"
proof (induction bs arbitrary: as st)
  case (Cons x bs)
  obtain p i where x: "x = (p, i)" by fastforce
  have all: "all_carry isn segs (as @ [(p, i)])" using Cons.prems(1) by (simp add: x all_carry_def)
  obtain st1 cs where a: "accept st p = (st1, cs)" by fastforce
  have t: "tracks_stream isn segs (as @ [(p, i)]) st1"
      "list_all2 (origin (as @ [(p, i)])) [frontier (length segs) (map snd as)..<frontier (length segs) (map snd (as @ [(p, i)]))] cs"
    using accept_tracks [OF cut all Cons.prems(2)] Cons.prems(3) a by (simp_all add: x)
  have IH: "list_all2 (origin ((as @ [(p, i)]) @ bs))
      [frontier (length segs) (map snd (as @ [(p, i)]))..<frontier (length segs) (map snd ((as @ [(p, i)]) @ bs))]
      (snd (accept_all st1 (map fst bs)))"
    using Cons.IH [of "as @ [(p, i)]" st1] Cons.prems(1) t(1) by (simp add: x)
  have "list_all2 (origin ((as @ [(p, i)]) @ bs))
      [frontier (length segs) (map snd as)..<frontier (length segs) (map snd ((as @ [(p, i)]) @ bs))] (cs @ snd (accept_all st1 (map fst bs)))"
    using t(2) IH by (rule list_all2_upt_join) (simp_all only: map_append frontier_mono origin_mono)
  then show ?case by (simp add: x a split_def)
qed simp

subsection \<open>A stream of printed requests\<close>

lemma terminator_parts: "HEADER_TERMINATOR = CRLF @ CRLF"
  by (simp add: HEADER_TERMINATOR_def CRLF_def)

lemma find_terminator_line:
  assumes "CHR 13 \<notin> set line" and "rest \<noteq> []" and "hd rest \<noteq> CHR 13"
  shows "find_sub HEADER_TERMINATOR (line @ CRLF @ rest) = map_option ((+) (length line + 2)) (find_sub HEADER_TERMINATOR rest)"
proof -
  obtain c r where r: "rest = c # r" "c \<noteq> CHR 13" using assms(2,3) by (cases rest) auto
  have "find_sub HEADER_TERMINATOR (CRLF @ rest) = map_option ((+) 2) (find_sub HEADER_TERMINATOR rest)"
  proof -
    have "\<not> starts_with HEADER_TERMINATOR (CHR 13 # CHR 10 # rest)" "\<not> starts_with HEADER_TERMINATOR (CHR 10 # rest)"
      using r by (simp_all add: starts_with_def HEADER_TERMINATOR_def)
    then show ?thesis
      by (cases "find_sub HEADER_TERMINATOR rest")
        (simp_all add: CRLF_def find_sub.simps [of _ "CHR 13 # CHR 10 # rest"] find_sub.simps [of _ "CHR 10 # rest"])
  qed
  then show ?thesis
    using find_sub_skip [of HEADER_TERMINATOR line "CRLF @ rest"] assms(1)
    by (cases "find_sub HEADER_TERMINATOR rest") (simp_all add: HEADER_TERMINATOR_def)
qed

lemma find_terminator_last:
  assumes "CHR 13 \<notin> set line"
  shows "find_sub HEADER_TERMINATOR (line @ CRLF @ CRLF) = Some (length line)"
proof -
  have "find_sub HEADER_TERMINATOR (CRLF @ CRLF) = Some 0"
    by (subst find_sub.simps) (simp add: starts_with_def terminator_parts)
  then show ?thesis
    using find_sub_skip [of HEADER_TERMINATOR line "CRLF @ CRLF"] assms by (simp add: HEADER_TERMINATOR_def)
qed

lemma find_terminator_lines:
  "CHR 13 \<notin> set line \<Longrightarrow> \<forall>l \<in> set ls. l \<noteq> [] \<and> CHR 13 \<notin> set l \<Longrightarrow>
   find_sub HEADER_TERMINATOR (line @ CRLF @ concat (map (\<lambda>l. l @ CRLF) ls) @ CRLF) =
     Some (length (line @ CRLF @ concat (map (\<lambda>l. l @ CRLF) ls) @ CRLF) - 4)"
proof (induction ls arbitrary: line)
  case Nil
  then show ?case using find_terminator_last by (simp add: CRLF_def)
next
  case (Cons l ls)
  have "hd (l @ CRLF @ concat (map (\<lambda>l. l @ CRLF) ls) @ CRLF) \<noteq> CHR 13" using Cons.prems(2) by (cases l) auto
  then show ?case
    using find_terminator_line [OF Cons.prems(1), of "l @ CRLF @ concat (map (\<lambda>l. l @ CRLF) ls) @ CRLF"] Cons.IH [of l] Cons.prems(2)
    by (simp add: CRLF_def)
qed

lemma request_framed:
  assumes "token mtd" "token uri" "\<forall>h \<in> set hs. header_ok h"
  shows "find_sub HEADER_TERMINATOR (print_request mtd uri hs) = Some (length (print_request mtd uri hs) - 4)"
    "4 \<le> length (print_request mtd uri hs)"
proof -
  have l: "CHR 13 \<notin> set (mtd @ '' '' @ uri @ '' SIP/2.0'')"
    using token_no_space [OF assms(1), of "CHR 13"] token_no_space [OF assms(2), of "CHR 13"] by simp
  have "\<forall>l \<in> set (map print_header hs). l \<noteq> [] \<and> CHR 13 \<notin> set l"
    using assms(3) token_no_space [of _ "CHR 13"] by (auto simp: header_ok_def print_header_def)
  from find_terminator_lines [OF l this] show "find_sub HEADER_TERMINATOR (print_request mtd uri hs) = Some (length (print_request mtd uri hs) - 4)"
    by (simp add: print_request_def comp_def)
qed (simp add: print_request_def)

text \<open>Framing gives back the requests, each with the tag of its first byte.\<close>

fun cut_at :: "string list \<Rightarrow> (char \<times> datetime) list \<Rightarrow> timestamped_message list" where
  "cut_at [] xs = []"
| "cut_at (m # ms) xs = \<lparr>mg_timestamp = snd (hd xs), mg_data = m\<rparr> # cut_at ms (drop (length m) xs)"

lemma frames_requests:
  "\<forall>m \<in> set ms. find_sub HEADER_TERMINATOR m = Some (length m - 4) \<and> 4 \<le> length m \<Longrightarrow> map fst xs = concat ms \<Longrightarrow>
   frames xs = (cut_at ms xs, [])"
proof (induction ms arbitrary: xs)
  case Nil
  then show ?case by (simp add: frames.simps [of "[]"] find_sub.simps [of _ "[]"] starts_with_def HEADER_TERMINATOR_def)
next
  case (Cons m ms)
  have m: "find_sub HEADER_TERMINATOR (map fst xs) = Some (length m - 4)" "4 \<le> length m"
    using Cons.prems find_sub_append [of HEADER_TERMINATOR m "length m - 4" "concat ms"] by auto
  have t: "map fst (take (length m) xs) = m" "map fst (drop (length m) xs) = concat ms"
    using Cons.prems(2) by (simp_all flip: take_map drop_map)
  have "length m - 4 + length HEADER_TERMINATOR = length m" using m(2) by (simp add: HEADER_TERMINATOR_def)
  then show ?case using m(1) t Cons.IH [OF _ t(2)] Cons.prems(1) by (simp add: frames.simps [of xs] Let_def)
qed

lemma cut_at_nth:
  "map fst xs = concat ms \<Longrightarrow> \<forall>m \<in> set ms. m \<noteq> [] \<Longrightarrow> i < length ms \<Longrightarrow>
   cut_at ms xs ! i = \<lparr>mg_timestamp = snd (xs ! length (concat (take i ms))), mg_data = ms ! i\<rparr>"
proof (induction ms arbitrary: xs i)
  case (Cons m ms)
  have d: "map fst (drop (length m) xs) = concat ms" using Cons.prems(1) by (simp flip: drop_map)
  have l: "length m \<le> length xs" "xs \<noteq> []" using arg_cong [OF Cons.prems(1), of length] Cons.prems(2) by (auto simp: Suc_le_eq)
  show ?case using Cons.IH [OF d] Cons.prems(2,3) l by (cases i) (simp_all add: hd_conv_nth)
qed simp

lemma cut_at_length [simp]: "length (cut_at ms xs) = length ms"
  by (induction ms arbitrary: xs) auto

text \<open>The segment that contains a given byte.\<close>

definition in_segment :: "string list \<Rightarrow> nat \<Rightarrow> nat \<Rightarrow> bool" where
  "in_segment segs off j \<longleftrightarrow> j < length segs \<and> length (concat (take j segs)) \<le> off \<and> off < length (concat (take (Suc j) segs))"

lemma length_tag_chunk: "length (tag_chunk c) = length (ck_data c)"
  by (simp add: tag_chunk_def)

lemma tagged_byte:
  "map ck_data cs = segs \<Longrightarrow> off < length (concat segs) \<Longrightarrow>
   \<exists>j. in_segment segs off j \<and> snd (concat (map tag_chunk cs) ! off) = ck_timestamp (cs ! j)"
proof (induction cs arbitrary: segs off)
  case (Cons c cs)
  then obtain ss where ss: "segs = ck_data c # ss" "map ck_data cs = ss" by auto
  show ?case
  proof (cases "off < length (ck_data c)")
    case True
    then show ?thesis by (intro exI [of _ 0]) (simp add: in_segment_def ss tag_chunk_def nth_append)
  next
    case False
    then have "off - length (ck_data c) < length (concat ss)" using Cons.prems(2) by (simp add: ss)
    from Cons.IH [OF ss(2) this] obtain j where "in_segment ss (off - length (ck_data c)) j"
        "snd (concat (map tag_chunk cs) ! (off - length (ck_data c))) = ck_timestamp (cs ! j)" by blast
    then show ?thesis using False by (intro exI [of _ "Suc j"]) (auto simp: in_segment_def ss length_tag_chunk nth_append)
  qed
qed simp

subsection \<open>From packets to events\<close>

text \<open>A printed REGISTER, given by its request address and headers, and the attributes it stands for.\<close>

definition registers ::
  "parser_env \<Rightarrow> string \<Rightarrow> string \<times> (string \<times> string) list \<Rightarrow> extracted_fields \<times> transport_protocol option \<times> string option \<Rightarrow> bool" where
  "registers env store_id r x \<longleftrightarrow>
     token (fst r) \<and> (\<forall>h \<in> set (snd r). header_ok h) \<and>
     (case x of (ex, tp, ip) \<Rightarrow>
        (let d = header_dict (snd r) in
         map_registration_status d = Some (ef_registration_status ex) \<and> extract_device_label d = Some (ef_device_label ex) \<and>
         (ef_transport_protocol ex, ef_source_ip ex) = extract_transport d \<and> ef_call_id ex = dict_get d ''call-id'') \<and>
        acceptable (pe_ipv6 env) store_id ex tp ip)"

definition printed :: "string \<times> (string \<times> string) list \<Rightarrow> string" where
  "printed r = print_request ''REGISTER'' (fst r) (snd r)"

lemma register_token: "token ''REGISTER''" and register_upper: "map upper ''REGISTER'' = ''REGISTER''"
  by code_simp+

lemma printed_framed:
  "registers env store_id r x \<Longrightarrow> find_sub HEADER_TERMINATOR (printed r) = Some (length (printed r) - 4) \<and> 4 \<le> length (printed r)"
  using request_framed [OF register_token] by (auto simp: registers_def printed_def)

lemma printed_effect:
  assumes "registers env store_id r x" and "aware (pe_clock env (length evs))"
    and "instant t \<le> instant (pe_clock env (length evs)) + MAX_CLOCK_SKEW"
  shows "message_effect env store_id trace_id evs \<lparr>mg_timestamp = t, mg_data = printed r\<rparr> =
    (evs @ [expected_event env store_id trace_id (length evs) t x], Inr ())"
proof -
  obtain ex tp ip where x: "x = (ex, tp, ip)" by (metis prod_cases3)
  have r: "token (fst r)" "\<forall>h \<in> set (snd r). header_ok h" using assms(1) by (simp_all add: registers_def)
  let ?d = "header_dict (snd r)"
  obtain sip where sip: "sip_parse (pe_foreign env) (printed r) = Some sip" "sm_method sip = ''REGISTER''" "sm_headers sip = ?d"
      "sm_device_label sip = extract_device_label ?d" "sm_call_id sip = dict_get ?d ''call-id''"
      "(sm_transport sip, sm_source_ip sip) = extract_transport ?d"
    using parse_request [OF register_token r, unfolded register_upper] by (simp add: printed_def)
  have "extract_fields None sip = (None, Inr (Some ex))"
  proof -
    have "map_registration_status ?d = Some (ef_registration_status ex)" "extract_device_label ?d = Some (ef_device_label ex)"
        "(sm_transport sip, sm_source_ip sip) = (ef_transport_protocol ex, ef_source_ip ex)" "ef_call_id ex = sm_call_id sip"
      using assms(1) sip(5,6) by (simp_all add: registers_def x Let_def)
    then show ?thesis using sip(2-4) by (simp add: extract_fields_def)
  qed
  then show ?thesis
    using message_effect_event [of env "\<lparr>mg_timestamp = t, mg_data = printed r\<rparr>" sip ex store_id tp ip evs trace_id] assms sip(1)
    by (simp add: registers_def x)
qed

lemma consume_printed:
  "list_all2 (\<lambda>m x. \<exists>r. registers env store_id r x \<and> mg_data m = printed r) ms xs \<Longrightarrow>
   \<forall>i. aware (pe_clock env i) \<and> (\<forall>m \<in> set ms. instant (mg_timestamp m) \<le> instant (pe_clock env i) + MAX_CLOCK_SKEW) \<Longrightarrow>
   consume (message_effect env store_id trace_id) evs ms =
     (evs @ map (\<lambda>i. expected_event env store_id trace_id (length evs + i) (mg_timestamp (ms ! i)) (xs ! i)) [0..<length ms], Inr ())"
proof (induction ms xs arbitrary: evs rule: list_all2_induct)
  case (Cons m ms x xs)
  from Cons.hyps(1) obtain r where r: "registers env store_id r x" "m = \<lparr>mg_timestamp = mg_timestamp m, mg_data = printed r\<rparr>" by auto
  have "message_effect env store_id trace_id evs m =
      (evs @ [expected_event env store_id trace_id (length evs) (mg_timestamp m) x], Inr ())"
    using printed_effect [OF r(1), of evs "mg_timestamp m"] Cons.prems r(2) by simp
  then show ?case
    using Cons.IH [of "evs @ [expected_event env store_id trace_id (length evs) (mg_timestamp m) x]"] Cons.prems
    by (simp add: upt_conv_Cons map_Suc_upt [symmetric] comp_def del: upt_Suc)
qed simp

lemma delivered:
  assumes cut: "cut isn segs" and as: "all_carry isn segs as" "as \<noteq> []" "snd (hd as) = 0" "\<forall>j < length segs. j \<in> set (map snd as)"
  obtains cs where "snd (accept_all (0, []) (map fst as)) = cs" "map ck_data cs = segs" "\<And>j. j < length segs \<Longrightarrow> origin as j (cs ! j)"
proof -
  define cs where "cs = snd (accept_all (0, []) (map fst as))"
  have "frontier (length segs) (map snd as) = length segs" using as(4) by (intro frontier_eq) auto
  then have o: "list_all2 (origin as) [0..<length segs] cs"
    using accept_all_segments [OF cut, of "[]" as "(0, [])"] as by (simp add: cs_def tracks_stream_def)
  have oj: "origin as j (cs ! j)" if "j < length segs" for j using list_all2_nthD [OF o, of j] that by simp
  have "length cs = length segs" using o by (simp add: list_all2_lengthD [symmetric])
  moreover have "ck_data (cs ! j) = segs ! j" if "j < length segs" for j using origin_data [OF as(1) oj [OF that]] by simp
  ultimately have "map ck_data cs = segs" by (simp add: list_eq_iff_nth_eq)
  then show thesis using that oj cs_def by blast
qed

lemma framed_requests:
  assumes data: "map ck_data cs = segs" and oj: "\<And>j. j < length segs \<Longrightarrow> origin as j (cs ! j)" and eq: "concat segs = concat ms"
    and framed: "\<forall>m \<in> set ms. find_sub HEADER_TERMINATOR m = Some (length m - 4) \<and> 4 \<le> length m"
  shows "\<exists>msgs. frames (concat (map tag_chunk cs)) = (msgs, []) \<and> length msgs = length ms \<and>
    (\<forall>i < length ms. \<exists>p j. (p, j) \<in> set as \<and> in_segment segs (length (concat (take i ms))) j \<and>
       msgs ! i = \<lparr>mg_timestamp = pk_timestamp p, mg_data = ms ! i\<rparr>)"
proof -
  define tg where "tg = concat (map tag_chunk cs)"
  have "map fst tg = concat (map ck_data cs)" unfolding tg_def by (induction cs) (simp_all add: tag_chunk_def comp_def)
  then have bytes: "map fst tg = concat ms" using data eq by simp
  have ne: "\<forall>m \<in> set ms. m \<noteq> []" using framed by auto
  have "\<exists>p j. (p, j) \<in> set as \<and> in_segment segs (length (concat (take i ms))) j \<and>
      cut_at ms tg ! i = \<lparr>mg_timestamp = pk_timestamp p, mg_data = ms ! i\<rparr>" if i: "i < length ms" for i
  proof -
    have "concat ms = concat (take i ms) @ ms ! i @ concat (drop (Suc i) ms)"
      using i by (metis concat.simps(2) concat_append id_take_nth_drop)
    moreover have "ms ! i \<noteq> []" using ne i by simp
    ultimately have "length (concat (take i ms)) < length (concat segs)" using eq by simp
    from tagged_byte [OF data this] obtain j where j: "in_segment segs (length (concat (take i ms))) j"
        "snd (tg ! length (concat (take i ms))) = ck_timestamp (cs ! j)" by (auto simp: tg_def)
    have "origin as j (cs ! j)" using j(1) oj by (simp add: in_segment_def)
    then obtain p where "(p, j) \<in> set as" "ck_timestamp (cs ! j) = pk_timestamp p" by (auto simp: origin_def chunk_of_def)
    then show ?thesis using j cut_at_nth [OF bytes ne i] by auto
  qed
  then show ?thesis using frames_requests [OF framed bytes] by (simp add: tg_def)
qed

lemma parse_stream_yields:
  assumes init: "parser_pipeline_init store_id ob = Inr pp" and ps: "\<forall>p \<in> set ps. packet_key p = k \<and> aware (pk_timestamp p)"
    and fr: "frames (concat (map tag_chunk (snd (accept_all (0, []) ps)))) = (msgs, [])"
    and c: "consume (message_effect env store_id trace_id) [] msgs = (evs, Inr ())"
  shows "\<exists>pp'. parse_stream env trace_id ps pp = ((pp', evs), Inr ())"
proof -
  have pp: "pp_store_id pp = store_id" "pp_sessions pp = []" "pp_decoder pp = message_decoder_init" "pp_observer pp = ob"
    using init by (auto simp: parser_pipeline_init_def validate_store_id_def split: if_splits)
  have d0: "marks_ok message_decoder_init" "tagged message_decoder_init = []"
    by (simp_all add: message_decoder_init_def marks_ok_def tagged_def)
  have e: "frames [] = ([], [])" by (simp add: frames.simps [of "[]"] find_sub.simps [of _ "[]"] starts_with_def HEADER_TERMINATOR_def)
  obtain d where d: "consume (chunk_effect env store_id trace_id) (message_decoder_init, []) (snd (accept_all (0, []) ps)) = ((d, evs), Inr ())"
      "marks_ok d" "tagged d = []"
    using consume_chunks [OF d0(1), where cs = "snd (accept_all (0, []) ps)" and evs = "[]" and evs' = evs
      and env = env and store_id = store_id and trace_id = trace_id] d0(2) e fr c by auto
  have st: "streams [] k = (0, [])" "starts_aware []" by (simp_all add: streams_def starts_aware_def)
  obtain ss' ob' where "packet_loop (pe_mktime env) (on_chunk env store_id trace_id) ps ([], (message_decoder_init, []), ob) =
      ((ss', (d, evs), ob'), Inr ())"
    using packet_loop_accept [OF on_chunk_blind st(2) ps, where b = "(message_decoder_init, [])" and b' = "(d, evs)"] st(1) d(1) by simp blast
  moreover have "dc_buffer d = []" using tagged_bytes [OF d(2)] d(3) by simp
  ultimately show ?thesis
    using pp by (simp add: parse_stream_def discard_incomplete_buffers_def decoder_flush_def Let_def split_def)
qed

lemma parse_stream_events:
  assumes init: "parser_pipeline_init store_id ob = Inr pp" and rs: "list_all2 (registers env store_id) rs xs"
    and cut: "cut isn segs" "concat segs = concat (map printed rs)"
    and as: "all_carry isn segs as" "as \<noteq> []" "snd (hd as) = 0" "\<forall>j < length segs. j \<in> set (map snd as)"
    and ps: "\<forall>p \<in> set (map fst as). packet_key p = k \<and> aware (pk_timestamp p)"
    and clock: "\<forall>i. aware (pe_clock env i) \<and> (\<forall>p \<in> set (map fst as). instant (pk_timestamp p) \<le> instant (pe_clock env i) + MAX_CLOCK_SKEW)"
  shows "\<exists>pp' evs. parse_stream env trace_id (map fst as) pp = ((pp', evs), Inr ()) \<and> length evs = length rs \<and>
     (\<forall>i < length rs. \<exists>p j. (p, j) \<in> set as \<and> in_segment segs (length (concat (map printed (take i rs)))) j \<and>
        evs ! i = expected_event env store_id trace_id i (pk_timestamp p) (xs ! i))"
proof -
  obtain cs where cs: "snd (accept_all (0, []) (map fst as)) = cs" "map ck_data cs = segs" "\<And>j. j < length segs \<Longrightarrow> origin as j (cs ! j)"
    using delivered [OF cut(1) as] by metis
  have framed: "\<forall>m \<in> set (map printed rs). find_sub HEADER_TERMINATOR m = Some (length m - 4) \<and> 4 \<le> length m"
  proof
    fix m assume "m \<in> set (map printed rs)"
    then obtain i where "i < length rs" "m = printed (rs ! i)" by (auto simp: in_set_conv_nth)
    then show "find_sub HEADER_TERMINATOR m = Some (length m - 4) \<and> 4 \<le> length m"
      using printed_framed [of env store_id "rs ! i" "xs ! i"] rs by (simp add: list_all2_conv_all_nth)
  qed
  obtain msgs where msgs: "frames (concat (map tag_chunk cs)) = (msgs, [])" "length msgs = length rs"
      "\<And>i. i < length rs \<Longrightarrow> \<exists>p j. (p, j) \<in> set as \<and> in_segment segs (length (concat (map printed (take i rs)))) j \<and>
         msgs ! i = \<lparr>mg_timestamp = pk_timestamp p, mg_data = printed (rs ! i)\<rparr>"
    using framed_requests [OF cs(2,3) cut(2) framed] by (auto simp: take_map)
  have l: "list_all2 (\<lambda>m x. \<exists>r. registers env store_id r x \<and> mg_data m = printed r) msgs xs"
  proof (rule list_all2_all_nthI)
    show "length msgs = length xs" using rs msgs(2) by (simp add: list_all2_lengthD)
    fix i assume "i < length msgs"
    then have "registers env store_id (rs ! i) (xs ! i)" "mg_data (msgs ! i) = printed (rs ! i)"
      using list_all2_nthD [OF rs, of i] msgs(2) msgs(3) [of i] by auto
    then show "\<exists>r. registers env store_id r (xs ! i) \<and> mg_data (msgs ! i) = printed r" by blast
  qed
  have "\<exists>p. p \<in> set (map fst as) \<and> mg_timestamp m = pk_timestamp p" if m: "m \<in> set msgs" for m
  proof -
    obtain i where i: "i < length rs" "m = msgs ! i" using m msgs(2) by (auto simp: in_set_conv_nth)
    then show ?thesis using msgs(3) [OF i(1)] by force
  qed
  then have ck: "\<forall>i. aware (pe_clock env i) \<and> (\<forall>m \<in> set msgs. instant (mg_timestamp m) \<le> instant (pe_clock env i) + MAX_CLOCK_SKEW)"
    using clock by fastforce
  let ?evs = "map (\<lambda>i. expected_event env store_id trace_id i (mg_timestamp (msgs ! i)) (xs ! i)) [0..<length msgs]"
  have ev: "consume (message_effect env store_id trace_id) [] msgs = (?evs, Inr ())" using consume_printed [OF l ck, of trace_id "[]"] by simp
  have fr: "frames (concat (map tag_chunk (snd (accept_all (0, []) (map fst as))))) = (msgs, [])" using msgs(1) cs(1) by simp
  have "\<exists>p j. (p, j) \<in> set as \<and> in_segment segs (length (concat (map printed (take i rs)))) j \<and>
      ?evs ! i = expected_event env store_id trace_id i (pk_timestamp p) (xs ! i)" if "i < length rs" for i
    using msgs(3) [OF that] that msgs(2) by (elim exE conjE) auto
  moreover have "length ?evs = length rs" using msgs(2) by simp
  ultimately show ?thesis using parse_stream_yields [OF init ps fr ev] by blast
qed


subsection \<open>A concrete capture\<close>

definition demo_env :: parser_env where
  "demo_env = \<lparr>pe_ipv6 = (\<lambda>_. None), pe_foreign = (\<lambda>_. None), pe_mktime = (\<lambda>_. 0), pe_clock = (\<lambda>_. UTC (seconds 1000)), pe_fresh = (\<lambda>_. 7)\<rparr>"

definition demo_request :: "string \<times> (string \<times> string) list" where
  "demo_request = (''sip:pbx'', [(''Via'', ''SIP/2.0/TCP 10.0.0.1:5060''), (''From'', ''<sip:h1@pbx>''), (''Call-ID'', ''c1''), (''CSeq'', ''1 REGISTER'')])"

definition demo_fields :: extracted_fields where
  "demo_fields = \<lparr>ef_device_label = ''h1'', ef_registration_status = ''registered'', ef_transport_protocol = Some ''TCP'',
     ef_call_id = Some ''c1'', ef_source_ip = Some ''10.0.0.1''\<rparr>"

definition demo_segments :: "string list" where
  "demo_segments = (let s = printed demo_request in [take 10 s, take 10 (drop 10 s), drop 20 s])"

definition demo_arrivals :: arrivals where
  "demo_arrivals = map (\<lambda>(j, t). (demo_packet ''10.0.0.1'' (seq_of 100 demo_segments j) (demo_segments ! j) t, j)) [(0, 1), (2, 2), (1, 3)]"

lemma demo_acceptable: "acceptable (pe_ipv6 demo_env) ''store-1'' demo_fields (Some TCP) (Some ''10.0.0.1'')"
proof -
  have "status_of_value (map upper (ef_registration_status demo_fields)) = Inr REGISTERED"
      "opt_res (\<lambda>t. transport_of_value (map upper t)) (ef_transport_protocol demo_fields) = Inr (Some TCP)"
      "opt_res (ip_address (pe_ipv6 demo_env)) (ef_source_ip demo_fields) = Inr (Some ''10.0.0.1'')" "sep_words ''store-1''"
    by code_simp+
  then show ?thesis by (simp add: acceptable_def) (simp add: demo_fields_def)
qed

lemma demo_registers: "registers demo_env ''store-1'' demo_request (demo_fields, Some TCP, Some ''10.0.0.1'')"
proof -
  have "token (fst demo_request)" "\<forall>h \<in> set (snd demo_request). header_ok h"
      "map_registration_status (header_dict (snd demo_request)) = Some (ef_registration_status demo_fields)"
      "extract_device_label (header_dict (snd demo_request)) = Some (ef_device_label demo_fields)"
      "(ef_transport_protocol demo_fields, ef_source_ip demo_fields) = extract_transport (header_dict (snd demo_request))"
      "ef_call_id demo_fields = dict_get (header_dict (snd demo_request)) ''call-id''"
    by code_simp+
  then show ?thesis using demo_acceptable by (simp add: registers_def Let_def)
qed

theorem normalise_exact_witness:
  "\<exists>ev. normalise (pe_ipv6 demo_env) (UTC (seconds 1000)) 7 ''store-1'' demo_fields (DateTime (seconds 3601) (Some (seconds 3600))) None = Inr ev \<and>
     ev_event_timestamp ev = UTC (seconds 1)"
proof -
  let ?p = "payload_of ''store-1'' demo_fields (Some TCP) (Some ''10.0.0.1'') (UTC (seconds 1))"
  have now: "aware (UTC (seconds 1000))" by simp
  have i: "instant (DateTime (seconds 3601) (Some (seconds 3600))) = seconds 1" by (simp add: instant_def)
  then have le: "instant (DateTime (seconds 3601) (Some (seconds 3600))) \<le> instant (UTC (seconds 1000)) + MAX_CLOCK_SKEW"
    by (simp only: i) (simp add: MAX_CLOCK_SKEW_def)
  have "normalise (pe_ipv6 demo_env) (UTC (seconds 1000)) 7 ''store-1'' demo_fields (DateTime (seconds 3601) (Some (seconds 3600))) None =
      Inr (event_of (UTC (seconds 1000)) (case None of None \<Rightarrow> 7 | Some t \<Rightarrow> t) ?p)"
    by (rule normalise_exact [OF now, THEN iffD2]) (use demo_acceptable le in \<open>simp only: i, blast\<close>)
  then show ?thesis by (simp add: event_of_def payload_of_def)
qed

lemma demo_cut: "cut 100 demo_segments" "concat demo_segments = concat (map printed [demo_request])"
proof -
  have l: "length (printed demo_request) > 20" by code_simp
  then show "cut 100 demo_segments" by (auto simp: cut_def demo_segments_def Let_def)
  have "take 10 s @ take 10 (drop 10 s) @ drop 20 s = s" for s :: string
    using append_take_drop_id [of 10 s] append_take_drop_id [of 10 "drop 10 s"] by simp
  then show "concat demo_segments = concat (map printed [demo_request])" by (simp add: demo_segments_def Let_def)
qed

lemma demo_arrivals_ok:
  "length demo_segments = 3" "all_carry 100 demo_segments demo_arrivals" "demo_arrivals \<noteq> []" "snd (hd demo_arrivals) = 0"
  "map snd demo_arrivals = [0, 2, 1]"
  "\<forall>p \<in> set (map fst demo_arrivals). packet_key p = packet_key (demo_packet ''10.0.0.1'' 0 [] 0) \<and> aware (pk_timestamp p)"
  "\<forall>i. aware (pe_clock demo_env i) \<and> (\<forall>p \<in> set (map fst demo_arrivals). instant (pk_timestamp p) \<le> instant (pe_clock demo_env i) + MAX_CLOCK_SKEW)"
proof -
  show l: "length demo_segments = 3" by (simp add: demo_segments_def Let_def)
  show "all_carry 100 demo_segments demo_arrivals" using l by (simp add: demo_arrivals_def all_carry_def carries_def demo_packet_def)
  have k: "packet_key (demo_packet ''10.0.0.1'' n d t) = packet_key (demo_packet ''10.0.0.1'' 0 [] 0)" for n d t
    by (simp add: packet_key_def demo_packet_def)
  show "\<forall>p \<in> set (map fst demo_arrivals). packet_key p = packet_key (demo_packet ''10.0.0.1'' 0 [] 0) \<and> aware (pk_timestamp p)"
    by (simp add: demo_arrivals_def k [symmetric, of "seq_of 100 demo_segments 0"]) (metis k)
  show "\<forall>i. aware (pe_clock demo_env i) \<and> (\<forall>p \<in> set (map fst demo_arrivals). instant (pk_timestamp p) \<le> instant (pe_clock demo_env i) + MAX_CLOCK_SKEW)"
    by (simp add: demo_env_def demo_arrivals_def demo_packet_def MAX_CLOCK_SKEW_def)
qed (simp_all add: demo_arrivals_def)


end
