(* ===== verification/Tracing.thy ===== *)
theory Tracing
  imports Versioning
begin

text \<open>
  \<^verbatim>\<open>structured_logging/trace\<close>: the trace context and its propagation across services. The
  context variable is a field of the state of the process; reading a fresh id, a clock or
  the environment goes through the arguments of the model. The fields of a trace state are
  Python values, because messages of any shape may supply them.
\<close>

record trace_state =
  ts_trace_id :: pyval
  ts_span_id :: pyval
  ts_parent_span_id :: pyval
  ts_correlation_id :: pyval
  ts_pipeline_stage :: pyval

text \<open>
  The state of a process: the context variable, how many ids were drawn and how often a
  clock was read, and the rest, which the logger and the adapters keep.
\<close>

record 'r process =
  pr_trace :: "trace_state option"
  pr_ids :: nat
  pr_ticks :: nat
  pr_rest :: 'r

text \<open>\<open>fresh n\<close> is the text of the \<open>n\<close>th random UUID of the process.\<close>

type_synonym ids = "nat \<Rightarrow> string"

definition generate_id :: "ids \<Rightarrow> 'r process \<Rightarrow> 'r process \<times> pyval" where
  "generate_id fresh p = (p\<lparr>pr_ids := pr_ids p + 1\<rparr>, PyStr (fresh (pr_ids p)))"

text \<open>\<^verbatim>\<open>a or b\<close>, with the second operand a computation.\<close>

definition or_else :: "pyval \<Rightarrow> ('r process \<Rightarrow> 'r process \<times> pyval) \<Rightarrow> 'r process \<Rightarrow> 'r process \<times> pyval" where
  "or_else v f p = (if truthy v then (p, v) else f p)"

definition start_trace :: "ids \<Rightarrow> pyval \<Rightarrow> pyval \<Rightarrow> pyval \<Rightarrow> 'r process \<Rightarrow> 'r process \<times> trace_state" where
  "start_trace fresh trace_id correlation_id pipeline_stage p =
     (case or_else trace_id (generate_id fresh) p of (p, tid) \<Rightarrow>
      case generate_id fresh p of (p, sid) \<Rightarrow>
        let st = \<lparr>ts_trace_id = tid, ts_span_id = sid, ts_parent_span_id = PyNone,
                  ts_correlation_id = correlation_id, ts_pipeline_stage = pipeline_stage\<rparr>
        in (p\<lparr>pr_trace := Some st\<rparr>, st))"

definition child_trace :: "ids \<Rightarrow> pyval \<Rightarrow> 'r process \<Rightarrow> 'r process \<times> trace_state" where
  "child_trace fresh pipeline_stage p =
     (case pr_trace p of
        None \<Rightarrow> start_trace fresh PyNone PyNone pipeline_stage p
      | Some current \<Rightarrow>
          (case generate_id fresh p of (p, sid) \<Rightarrow>
             let st = \<lparr>ts_trace_id = ts_trace_id current, ts_span_id = sid, ts_parent_span_id = ts_span_id current,
                       ts_correlation_id = ts_correlation_id current,
                       ts_pipeline_stage = (if truthy pipeline_stage then pipeline_stage else ts_pipeline_stage current)\<rparr>
             in (p\<lparr>pr_trace := Some st\<rparr>, st)))"

definition clear_trace :: "'r process \<Rightarrow> 'r process" where "clear_trace p = p\<lparr>pr_trace := None\<rparr>"

definition end_trace :: "'r process \<Rightarrow> 'r process" where "end_trace p = clear_trace p"

definition restore_trace :: "trace_state option \<Rightarrow> 'r process \<Rightarrow> 'r process" where
  "restore_trace previous p = (case previous of Some st \<Rightarrow> p\<lparr>pr_trace := Some st\<rparr> | None \<Rightarrow> clear_trace p)"

text \<open>The \<^verbatim>\<open>with\<close> statement over \<^verbatim>\<open>TraceContext.span\<close>; the body may raise.\<close>

definition with_span :: "ids \<Rightarrow> pyval \<Rightarrow> (trace_state \<Rightarrow> 'r process \<Rightarrow> 'r process \<times> 'a res) \<Rightarrow> 'r process \<Rightarrow> 'r process \<times> 'a res" where
  "with_span fresh pipeline_stage body p =
     (let previous = pr_trace p in
      case child_trace fresh pipeline_stage p of (p, new_span) \<Rightarrow>
      case body new_span p of (p, r) \<Rightarrow>
        (case previous of Some st \<Rightarrow> p\<lparr>pr_trace := Some st\<rparr> | None \<Rightarrow> clear_trace p, r))"

subsection \<open>Propagation\<close>

definition TRACE_HEADER_TRACE_ID :: string where "TRACE_HEADER_TRACE_ID = ''x-trace-id''"
definition TRACE_HEADER_SPAN_ID :: string where "TRACE_HEADER_SPAN_ID = ''x-trace-span-id''"
definition TRACE_HEADER_PARENT_ID :: string where "TRACE_HEADER_PARENT_ID = ''x-trace-parent-id''"
definition TRACE_HEADER_CORRELATION_ID :: string where "TRACE_HEADER_CORRELATION_ID = ''x-trace-correlation-id''"
definition TRACE_HEADER_PIPELINE_STAGE :: string where "TRACE_HEADER_PIPELINE_STAGE = ''x-trace-pipeline-stage''"

lemmas trace_header_defs = TRACE_HEADER_TRACE_ID_def TRACE_HEADER_SPAN_ID_def TRACE_HEADER_PARENT_ID_def
  TRACE_HEADER_CORRELATION_ID_def TRACE_HEADER_PIPELINE_STAGE_def

definition set_if :: "string \<Rightarrow> pyval \<Rightarrow> (string, pyval) dict \<Rightarrow> (string, pyval) dict" where
  "set_if k v headers = (if truthy v then dict_set k v headers else headers)"

definition inject_headers :: "'r process \<Rightarrow> (string, pyval) dict \<Rightarrow> (string, pyval) dict" where
  "inject_headers p headers =
     (case pr_trace p of
        None \<Rightarrow> headers
      | Some st \<Rightarrow>
          set_if TRACE_HEADER_PIPELINE_STAGE (ts_pipeline_stage st)
            (set_if TRACE_HEADER_CORRELATION_ID (ts_correlation_id st)
              (set_if TRACE_HEADER_PARENT_ID (ts_parent_span_id st)
                (dict_set TRACE_HEADER_SPAN_ID (ts_span_id st)
                  (dict_set TRACE_HEADER_TRACE_ID (ts_trace_id st) headers)))))"

text \<open>\<open>get\<close> is \<^verbatim>\<open>headers.get\<close> of the mapping at hand, \<open>PyNone\<close> where a header is absent.\<close>

definition extract_headers :: "ids \<Rightarrow> (string \<Rightarrow> pyval) \<Rightarrow> 'r process \<Rightarrow> 'r process" where
  "extract_headers fresh get p =
     (let trace_id = get TRACE_HEADER_TRACE_ID in
      if \<not> truthy trace_id then p
      else let upstream_span_id = get TRACE_HEADER_SPAN_ID in
        case start_trace fresh trace_id (get TRACE_HEADER_CORRELATION_ID) (get TRACE_HEADER_PIPELINE_STAGE) p of
          (p, st) \<Rightarrow> if truthy upstream_span_id then p\<lparr>pr_trace := Some (st\<lparr>ts_parent_span_id := upstream_span_id\<rparr>)\<rparr> else p)"

subsection \<open>Properties\<close>

lemma start_trace_simps:
  "start_trace fresh tid corr stage p =
     (let n = pr_ids p; k = (if truthy tid then 0 else 1);
          st = \<lparr>ts_trace_id = (if truthy tid then tid else PyStr (fresh n)), ts_span_id = PyStr (fresh (n + k)), ts_parent_span_id = PyNone,
                ts_correlation_id = corr, ts_pipeline_stage = stage\<rparr>
      in (p\<lparr>pr_trace := Some st, pr_ids := n + k + 1\<rparr>, st))"
  by (simp add: start_trace_def or_else_def generate_id_def Let_def)

lemma child_trace_Some:
  "pr_trace p = Some cur \<Longrightarrow> child_trace fresh stage p =
     (let st = \<lparr>ts_trace_id = ts_trace_id cur, ts_span_id = PyStr (fresh (pr_ids p)), ts_parent_span_id = ts_span_id cur,
        ts_correlation_id = ts_correlation_id cur, ts_pipeline_stage = (if truthy stage then stage else ts_pipeline_stage cur)\<rparr>
      in (p\<lparr>pr_trace := Some st, pr_ids := pr_ids p + 1\<rparr>, st))"
  by (simp add: child_trace_def generate_id_def Let_def)

lemma header_neq [simp]:
  "TRACE_HEADER_TRACE_ID \<noteq> TRACE_HEADER_SPAN_ID" "TRACE_HEADER_TRACE_ID \<noteq> TRACE_HEADER_PARENT_ID" "TRACE_HEADER_TRACE_ID
  \<noteq> TRACE_HEADER_CORRELATION_ID" "TRACE_HEADER_TRACE_ID \<noteq> TRACE_HEADER_PIPELINE_STAGE" "TRACE_HEADER_SPAN_ID \<noteq>
  TRACE_HEADER_TRACE_ID" "TRACE_HEADER_SPAN_ID \<noteq> TRACE_HEADER_PARENT_ID" "TRACE_HEADER_SPAN_ID \<noteq> TRACE_HEADER_CORRELATION_ID"
  "TRACE_HEADER_SPAN_ID \<noteq> TRACE_HEADER_PIPELINE_STAGE" "TRACE_HEADER_PARENT_ID \<noteq> TRACE_HEADER_TRACE_ID" "TRACE_HEADER_PARENT_ID
  \<noteq> TRACE_HEADER_SPAN_ID" "TRACE_HEADER_PARENT_ID \<noteq> TRACE_HEADER_CORRELATION_ID" "TRACE_HEADER_PARENT_ID \<noteq>
  TRACE_HEADER_PIPELINE_STAGE" "TRACE_HEADER_CORRELATION_ID \<noteq> TRACE_HEADER_TRACE_ID" "TRACE_HEADER_CORRELATION_ID \<noteq>
  TRACE_HEADER_SPAN_ID" "TRACE_HEADER_CORRELATION_ID \<noteq> TRACE_HEADER_PARENT_ID" "TRACE_HEADER_CORRELATION_ID \<noteq>
  TRACE_HEADER_PIPELINE_STAGE" "TRACE_HEADER_PIPELINE_STAGE \<noteq> TRACE_HEADER_TRACE_ID" "TRACE_HEADER_PIPELINE_STAGE \<noteq>
  TRACE_HEADER_SPAN_ID" "TRACE_HEADER_PIPELINE_STAGE \<noteq> TRACE_HEADER_PARENT_ID" "TRACE_HEADER_PIPELINE_STAGE \<noteq>
  TRACE_HEADER_CORRELATION_ID"
  by (simp_all add: trace_header_defs)

lemma dict_item_set_if: "dict_item (set_if k v d) k' = (if k' = k \<and> truthy v then v else dict_item d k')"
  by (simp add: dict_item_def dict_get_default_def set_if_def)

lemma dict_item_set: "dict_item (dict_set k v d) k' = (if k' = k then v else dict_item d k')"
  by (simp add: dict_item_def dict_get_default_def)

definition header_names :: "string set" where
  "header_names = {TRACE_HEADER_TRACE_ID, TRACE_HEADER_SPAN_ID, TRACE_HEADER_PARENT_ID, TRACE_HEADER_CORRELATION_ID, TRACE_HEADER_PIPELINE_STAGE}"

text \<open>A trace state whose ids are non-empty texts and whose other fields are texts or absent.\<close>

definition well_traced :: "trace_state \<Rightarrow> bool" where
  "well_traced st \<longleftrightarrow> truthy (ts_trace_id st) \<and> truthy (ts_span_id st) \<and>
     (\<forall>v \<in> {ts_parent_span_id st, ts_correlation_id st, ts_pipeline_stage st}. v = PyNone \<or> truthy v)"

text \<open>
  C36: propagation keeps the lineage. Headers written by one service and read by another, in
  whatever state that one is, continue the trace there: same trace, correlation and stage,
  a new span, and the sender's span as its parent. Other headers are carried unchanged.
\<close>

theorem propagation_continues_trace:
  assumes "pr_trace p = Some st" "well_traced st" and "\<forall>(k, v) \<in> set headers. k \<notin> header_names"
  shows "pr_trace (extract_headers fresh (dict_item (inject_headers p headers)) q) =
      Some \<lparr>ts_trace_id = ts_trace_id st, ts_span_id = PyStr (fresh (pr_ids q)), ts_parent_span_id = ts_span_id st,
            ts_correlation_id = ts_correlation_id st, ts_pipeline_stage = ts_pipeline_stage st\<rparr> \<and>
    (k \<in> header_names \<or> dict_item (inject_headers p headers) k = dict_item headers k)"
proof -
  have absent: "dict_item headers k = PyNone" if "k \<in> header_names" for k
    using assms(3) that dict_get_in [of headers k] by (auto simp: dict_item_def dict_get_default_def split: option.split)
  have g: "dict_item (inject_headers p headers) k =
      (if k = TRACE_HEADER_PIPELINE_STAGE \<and> truthy (ts_pipeline_stage st) then ts_pipeline_stage st
       else if k = TRACE_HEADER_CORRELATION_ID \<and> truthy (ts_correlation_id st) then ts_correlation_id st
       else if k = TRACE_HEADER_PARENT_ID \<and> truthy (ts_parent_span_id st) then ts_parent_span_id st
       else if k = TRACE_HEADER_SPAN_ID then ts_span_id st else if k = TRACE_HEADER_TRACE_ID then ts_trace_id st else dict_item headers k)" for k
    unfolding inject_headers_def assms(1) option.case dict_item_set_if dict_item_set by (rule refl)
  have v: "dict_item (inject_headers p headers) TRACE_HEADER_TRACE_ID = ts_trace_id st"
    "dict_item (inject_headers p headers) TRACE_HEADER_SPAN_ID = ts_span_id st"
    "dict_item (inject_headers p headers) TRACE_HEADER_CORRELATION_ID = ts_correlation_id st"
    "dict_item (inject_headers p headers) TRACE_HEADER_PIPELINE_STAGE = ts_pipeline_stage st"
    unfolding g using assms(2) absent [of TRACE_HEADER_CORRELATION_ID] absent [of TRACE_HEADER_PIPELINE_STAGE]
    by (auto simp: well_traced_def header_names_def)
  have "k \<in> header_names \<or> dict_item (inject_headers p headers) k = dict_item headers k" unfolding g header_names_def by simp
  then show ?thesis using assms(2) unfolding extract_headers_def v start_trace_simps well_traced_def by (auto simp: Let_def)
qed

theorem propagation_continues_trace_witness:
  "let p = fst (start_trace (\<lambda>n. ''a'' @ show_nat n) PyNone (PyStr ''corr'') (PyStr ''stage'') \<lparr>pr_trace = None, pr_ids = 0, pr_ticks = 0, pr_rest = ()\<rparr>)
   in pr_trace (extract_headers (\<lambda>n. ''b'' @ show_nat n) (dict_item (inject_headers p [(''accept'', PyStr ''json'')])) \<lparr>pr_trace = None, pr_ids = 4, pr_ticks = 0, pr_rest = ()\<rparr>) =
      Some \<lparr>ts_trace_id = PyStr (''a'' @ show_nat 0), ts_span_id = PyStr (''b'' @ show_nat 4), ts_parent_span_id = PyStr (''a'' @ show_nat 1),
            ts_correlation_id = PyStr ''corr'', ts_pipeline_stage = PyStr ''stage''\<rparr>"
proof -
  let ?p = "fst (start_trace (\<lambda>n. ''a'' @ show_nat n) PyNone (PyStr ''corr'') (PyStr ''stage'') \<lparr>pr_trace = None, pr_ids = 0, pr_ticks = 0, pr_rest = ()\<rparr>)"
  let ?st = "\<lparr>ts_trace_id = PyStr (''a'' @ show_nat 0), ts_span_id = PyStr (''a'' @ show_nat 1), ts_parent_span_id = PyNone,
            ts_correlation_id = PyStr ''corr'', ts_pipeline_stage = PyStr ''stage''\<rparr>"
  have "pr_trace ?p = Some ?st" by (simp add: start_trace_simps Let_def)
  moreover have "well_traced ?st" by (simp add: well_traced_def)
  moreover have "\<forall>(k, v) \<in> set [(''accept'', PyStr ''json'')]. k \<notin> header_names" by (simp add: header_names_def trace_header_defs)
  ultimately show ?thesis
    using propagation_continues_trace [of ?p ?st "[(''accept'', PyStr ''json'')]" "\<lambda>n. ''b'' @ show_nat n" "\<lparr>pr_trace = None, pr_ids = 4, pr_ticks = 0, pr_rest = ()\<rparr>" "''k''"]
    by (simp add: Let_def)
qed

end
