(* ===== verification/StructuredLog.thy ===== *)
theory StructuredLog
  imports Tracing Json IsoTime
begin

text \<open>
  \<^verbatim>\<open>structured_logging/core\<close>, \<^verbatim>\<open>schema\<close> and \<^verbatim>\<open>metrics\<close>: the service context, the log event
  and its JSON form, the logger on top of Python's \<^verbatim>\<open>logging\<close>, and the latency timer. Of
  \<^verbatim>\<open>logging\<close> the model has the named loggers with their handlers and levels, the check of the
  effective level, and the rule that a handler reports an exception of its formatter and
  never raises it.
\<close>

subsection \<open>Service context\<close>

record service_context =
  sc_service_name :: "string option"
  sc_environment :: "string option"
  sc_initialised :: bool

definition empty_context :: service_context where
  "empty_context = \<lparr>sc_service_name = None, sc_environment = None, sc_initialised = False\<rparr>"

abbreviation RuntimeError :: "string \<Rightarrow> exn" where "RuntimeError m \<equiv> Exn ''RuntimeError'' m"

definition initialise :: "string \<Rightarrow> string \<Rightarrow> service_context \<Rightarrow> service_context \<times> unit res" where
  "initialise name env sc =
     (if sc_initialised sc then (sc, Inl (RuntimeError ''ServiceContext already initialised''))
      else if name = [] then (sc, Inl (ValueError ''service_name must be non-empty''))
      else if env = [] then (sc, Inl (ValueError ''environment must be non-empty''))
      else (\<lparr>sc_service_name = Some name, sc_environment = Some env, sc_initialised = True\<rparr>, Inr ()))"

definition required :: "string option \<Rightarrow> string res" where
  "required v = (case v of Some (c # cs) \<Rightarrow> Inr (c # cs) | _ \<Rightarrow> Inl (RuntimeError ''ServiceContext not initialised''))"

definition context_service_name :: "service_context \<Rightarrow> string res" where "context_service_name sc = required (sc_service_name sc)"
definition context_environment :: "service_context \<Rightarrow> string res" where "context_environment sc = required (sc_environment sc)"

definition reset_for_tests :: "service_context \<Rightarrow> service_context" where
  "reset_for_tests sc = \<lparr>sc_service_name = None, sc_environment = None, sc_initialised = False\<rparr>"

subsection \<open>The log event\<close>

definition LOG_SCHEMA_VERSION :: string where "LOG_SCHEMA_VERSION = ''0.1''"

record structured_error =
  se_error_code :: string
  se_message :: string
  se_exception_type :: pyval
  se_stack_trace :: pyval
  se_severity :: pyval
  se_retryable :: pyval
  se_origin :: pyval
  se_metadata :: pyval

record log_event_schema =
  lv_timestamp :: datetime
  lv_level :: string
  lv_service :: string
  lv_environment :: string
  lv_event_type :: string
  lv_message :: string
  lv_trace_id :: pyval
  lv_parent_trace_id :: pyval
  lv_correlation_id :: pyval
  lv_pipeline_stage :: pyval
  lv_error :: "structured_error option"
  lv_metadata :: "(string, pyval) dict"

text \<open>A record of the logging module, with the attributes the formatter looks for.\<close>

record log_record =
  rec_levelno :: int
  rec_created :: pyfloat
  rec_message :: string
  rec_event_type :: "string option"
  rec_metadata :: "(string, pyval) dict option"
  rec_trace_id :: pyval
  rec_error :: "structured_error option"

definition STANDARD_LEVELS :: "(int, string) dict" where
  "STANDARD_LEVELS = [(10, ''DEBUG''), (20, ''INFO''), (30, ''WARNING''), (40, ''ERROR''), (50, ''CRITICAL'')]"

definition narrow_level :: "int \<Rightarrow> string" where
  "narrow_level levelno =
     (case dict_get STANDARD_LEVELS levelno of
        Some standard \<Rightarrow> standard
      | None \<Rightarrow>
          (let below = filter (\<lambda>level. level \<le> levelno) (dict_keys STANDARD_LEVELS) in
           if below \<noteq> [] then the (dict_get STANDARD_LEVELS (foldl max (hd below) (tl below))) else ''DEBUG''))"

text \<open>\<^verbatim>\<open>datetime.fromtimestamp(x, timezone.utc)\<close>: the fraction is rounded to microseconds, ties to even.\<close>

definition from_timestamp :: "pyfloat \<Rightarrow> datetime" where
  "from_timestamp x =
     (let i = trunc x in UTC (seconds i + round_half_even (fl ((x - of_int i) * 1000000))))"

definition build_log_event :: "service_context \<Rightarrow> trace_state option \<Rightarrow> log_record \<Rightarrow> log_event_schema res" where
  "build_log_event sc tr r =
     bind_res (context_service_name sc) (\<lambda>service. bind_res (context_environment sc) (\<lambda>env.
       Inr \<lparr>lv_timestamp = from_timestamp (rec_created r), lv_level = narrow_level (rec_levelno r), lv_service = service,
            lv_environment = env, lv_event_type = (case rec_event_type r of Some t \<Rightarrow> t | None \<Rightarrow> ''log.event''),
            lv_message = rec_message r,
            lv_trace_id = (if truthy (rec_trace_id r) then rec_trace_id r else case tr of Some st \<Rightarrow> ts_trace_id st | None \<Rightarrow> PyNone),
            lv_parent_trace_id = (case tr of Some st \<Rightarrow> ts_parent_span_id st | None \<Rightarrow> PyNone),
            lv_correlation_id = (case tr of Some st \<Rightarrow> ts_correlation_id st | None \<Rightarrow> PyNone),
            lv_pipeline_stage = (case tr of Some st \<Rightarrow> ts_pipeline_stage st | None \<Rightarrow> PyNone),
            lv_error = rec_error r, lv_metadata = (case rec_metadata r of Some m \<Rightarrow> m | None \<Rightarrow> [])\<rparr>))"

text \<open>\<^verbatim>\<open>asdict\<close> of the event, with its timestamp as text; the schema version is a fixed field.\<close>

definition error_dict :: "structured_error \<Rightarrow> pyval" where
  "error_dict e = PyDict [(''error_code'', PyStr (se_error_code e)), (''message'', PyStr (se_message e)),
     (''exception_type'', se_exception_type e), (''stack_trace'', se_stack_trace e), (''severity'', se_severity e),
     (''retryable'', se_retryable e), (''origin'', se_origin e), (''metadata'', se_metadata e)]"

definition serialise_event :: "log_event_schema \<Rightarrow> (string, pyval) dict" where
  "serialise_event v = [(''timestamp'', PyStr (isoformat (lv_timestamp v))), (''level'', PyStr (lv_level v)), (''service'', PyStr (lv_service v)),
     (''environment'', PyStr (lv_environment v)), (''event_type'', PyStr (lv_event_type v)), (''message'', PyStr (lv_message v)),
     (''trace_id'', lv_trace_id v), (''parent_trace_id'', lv_parent_trace_id v), (''correlation_id'', lv_correlation_id v),
     (''pipeline_stage'', lv_pipeline_stage v), (''error'', case lv_error v of None \<Rightarrow> PyNone | Some e \<Rightarrow> error_dict e),
     (''metadata'', PyDict (lv_metadata v)), (''schema_version'', PyStr LOG_SCHEMA_VERSION)]"

definition format_record :: "service_context \<Rightarrow> trace_state option \<Rightarrow> log_record \<Rightarrow> string res" where
  "format_record sc tr r = bind_res (build_log_event sc tr r) (\<lambda>v. dumps (PyDict (serialise_event v)))"

subsection \<open>Loggers\<close>

datatype log_handler = StructuredHandler | OtherHandler string

record logger_state =
  lr_handlers :: "log_handler list"
  lr_level :: int
  lr_propagate :: bool

text \<open>
  What logging does outside the process: a line on the stream of a handler, the report of an
  exception inside a handler, a record given to a handler or a logger of somebody else.
\<close>

datatype log_output = Line string | HandlerError exn | Foreign string log_record | Propagated log_record

record logging =
  lo_service :: service_context
  lo_loggers :: "(string, logger_state) dict"
  lo_output :: "log_output list"
  lo_cold_start :: bool

type_synonym proc = "logging process"

record log_env =
  en_fresh :: ids
  en_perf :: "nat \<Rightarrow> pyfloat"
  en_now :: "nat \<Rightarrow> datetime"
  en_created :: "nat \<Rightarrow> pyfloat"
  en_vars :: "(string, string) dict"
  en_parent_level :: int

definition tick :: "'r process \<Rightarrow> 'r process" where "tick p = p\<lparr>pr_ticks := pr_ticks p + 1\<rparr>"

definition NEW_LOGGER :: logger_state where
  "NEW_LOGGER = \<lparr>lr_handlers = [], lr_level = 0, lr_propagate = True\<rparr>"

definition logger_of :: "string \<Rightarrow> proc \<Rightarrow> logger_state" where
  "logger_of name p = dict_get_default (lo_loggers (pr_rest p)) name NEW_LOGGER"

definition set_logger :: "string \<Rightarrow> logger_state \<Rightarrow> proc \<Rightarrow> proc" where
  "set_logger name l p = p\<lparr>pr_rest := (pr_rest p)\<lparr>lo_loggers := dict_set name l (lo_loggers (pr_rest p))\<rparr>\<rparr>"

definition put_out :: "log_output list \<Rightarrow> proc \<Rightarrow> proc" where
  "put_out out p = p\<lparr>pr_rest := (pr_rest p)\<lparr>lo_output := lo_output (pr_rest p) @ out\<rparr>\<rparr>"

text \<open>
  \<^verbatim>\<open>getattr(logging, name, logging.INFO)\<close> for an upper-case name, given to \<^verbatim>\<open>setLevel\<close>: besides
  the levels, the module has two attributes of that shape, which \<^verbatim>\<open>setLevel\<close> rejects.
\<close>

definition level_named :: "string \<Rightarrow> int res" where
  "level_named name =
     (if name = ''BASIC_FORMAT'' then Inl (ValueError ''Unknown level: BASIC_FORMAT'')
      else if name = ''_STYLES'' then Inl (TypeError ''Level not an integer or a valid string'')
      else case dict_get [(''CRITICAL'', 50), (''FATAL'', 50), (''ERROR'', 40), (''WARNING'', 30), (''WARN'', 30), (''INFO'', 20),
          (''DEBUG'', 10), (''NOTSET'', 0)] name of Some l \<Rightarrow> Inr l | None \<Rightarrow> Inr 20)"

definition configure_logger :: "log_env \<Rightarrow> string \<Rightarrow> proc \<Rightarrow> proc \<times> unit res" where
  "configure_logger env name p =
     (let l = logger_of name p in
      if StructuredHandler \<in> set (lr_handlers l) then (p, Inr ())
      else case level_named (map upper (dict_get_default (en_vars env) ''LOG_LEVEL'' ''INFO'')) of
          Inl e \<Rightarrow> (p, Inl e)
        | Inr log_level \<Rightarrow>
            (set_logger name \<lparr>lr_handlers = lr_handlers l @ [StructuredHandler], lr_level = log_level, lr_propagate = False\<rparr> p, Inr ()))"

text \<open>A \<^verbatim>\<open>StructuredLogger\<close> is its name.\<close>

definition structured_logger :: "log_env \<Rightarrow> string \<Rightarrow> proc \<Rightarrow> proc \<times> string res" where
  "structured_logger env name p =
     (case configure_logger env name (set_logger name (logger_of name p) p) of
        (p, Inl e) \<Rightarrow> (p, Inl e) | (p, Inr _) \<Rightarrow> (p, Inr name))"

definition run_handler :: "log_record \<Rightarrow> proc \<Rightarrow> log_handler \<Rightarrow> log_output" where
  "run_handler r p h =
     (case h of
        OtherHandler who \<Rightarrow> Foreign who r
      | StructuredHandler \<Rightarrow>
          (case format_record (lo_service (pr_rest p)) (pr_trace p) r of Inr line \<Rightarrow> Line line | Inl e \<Rightarrow> HandlerError e))"

definition log_call ::
  "log_env \<Rightarrow> string \<Rightarrow> int \<Rightarrow> string \<Rightarrow> string \<Rightarrow> (string, pyval) dict option \<Rightarrow> pyval \<Rightarrow> structured_error option \<Rightarrow> proc \<Rightarrow> proc" where
  "log_call env name level message event_type metadata trace_id error p =
     (let l = logger_of name p; effective = (if lr_level l \<noteq> 0 then lr_level l else en_parent_level env) in
      if level < effective then p
      else let r = \<lparr>rec_levelno = level, rec_created = en_created env (pr_ticks p), rec_message = message, rec_event_type = Some event_type,
                    rec_metadata = Some (case metadata of None \<Rightarrow> [] | Some m \<Rightarrow> m), rec_trace_id = trace_id, rec_error = error\<rparr>
        in put_out (map (run_handler r p) (lr_handlers l) @
             (if lr_propagate l then [Propagated r] else if lr_handlers l = [] then [Foreign ''lastResort'' r] else [])) (tick p))"

definition log_info where "log_info env name message event_type metadata trace_id = log_call env name 20 message event_type metadata trace_id None"
definition log_warning where "log_warning env name message event_type metadata trace_id = log_call env name 30 message event_type metadata trace_id None"
definition log_error where "log_error env name message event_type metadata trace_id error = log_call env name 40 message event_type metadata trace_id error"
definition log_debug where "log_debug env name message event_type metadata trace_id = log_call env name 10 message event_type metadata trace_id None"

definition emit_error ::
  "log_env \<Rightarrow> string \<Rightarrow> string \<Rightarrow> string \<Rightarrow> string \<Rightarrow> (string, pyval) dict option \<Rightarrow> pyval \<Rightarrow> pyval \<Rightarrow> pyval \<Rightarrow> pyval \<Rightarrow> pyval \<Rightarrow> pyval \<Rightarrow> proc \<Rightarrow> proc" where
  "emit_error env name error_code message event_type metadata trace_id severity retryable origin exception_type stack_trace =
     log_call env name 40 message event_type metadata trace_id
       (Some \<lparr>se_error_code = error_code, se_message = message, se_exception_type = exception_type, se_stack_trace = stack_trace,
              se_severity = severity, se_retryable = retryable, se_origin = origin,
              se_metadata = (case metadata of None \<Rightarrow> PyNone | Some m \<Rightarrow> PyDict m)\<rparr>)"

subsection \<open>Latency\<close>

record latency =
  la_stage :: string
  la_metadata :: "(string, pyval) dict"
  la_event_type :: string
  la_start_time :: "pyfloat option"
  la_start_timestamp :: string
  la_trace_token :: "trace_state option"
  la_logger :: string

definition latency_init :: "string \<Rightarrow> string option \<Rightarrow> (string, pyval) dict option \<Rightarrow> string option \<Rightarrow> string \<Rightarrow> latency" where
  "latency_init stage logger metadata event_type default_logger =
     \<lparr>la_stage = stage, la_metadata = (case metadata of None \<Rightarrow> [] | Some m \<Rightarrow> m),
      la_event_type = (case event_type of Some (c # cs) \<Rightarrow> c # cs | _ \<Rightarrow> ''pipeline.'' @ stage @ ''.latency''),
      la_start_time = None, la_start_timestamp = [], la_trace_token = None,
      la_logger = (case logger of Some l \<Rightarrow> l | None \<Rightarrow> default_logger)\<rparr>"

definition read_perf :: "log_env \<Rightarrow> proc \<Rightarrow> proc \<times> pyfloat" where "read_perf env p = (tick p, en_perf env (pr_ticks p))"
definition read_now :: "log_env \<Rightarrow> proc \<Rightarrow> proc \<times> string" where "read_now env p = (tick p, isoformat (en_now env (pr_ticks p)))"

text \<open>\<^verbatim>\<open>round((end - start) * 1000, 3)\<close>\<close>

definition duration_ms :: "pyfloat \<Rightarrow> pyfloat \<Rightarrow> pyfloat" where
  "duration_ms start end_time = fl (of_int (round_half_even (fl (fl (end_time - start) * 1000) * 1000)) / 1000)"

definition latency_enter :: "log_env \<Rightarrow> latency \<Rightarrow> proc \<Rightarrow> proc \<times> latency" where
  "latency_enter env l p =
     (case read_perf env p of (p, start) \<Rightarrow> case read_now env p of (p, stamp) \<Rightarrow>
        let token = pr_trace p; p = fst (child_trace (en_fresh env) (PyStr (la_stage l)) p)
        in (p, l\<lparr>la_start_time := Some start, la_start_timestamp := stamp, la_trace_token := token\<rparr>))"

definition latency_payload :: "latency \<Rightarrow> pyfloat \<Rightarrow> string \<Rightarrow> exn option \<Rightarrow> (string, pyval) dict" where
  "latency_payload l duration end_timestamp exc =
     foldl (\<lambda>d (k, v). dict_set k v d)
       ([(''pipeline_stage'', PyStr (la_stage l)), (''duration_ms'', PyFloat duration), (''start_time'', PyStr (la_start_timestamp l)),
         (''end_time'', PyStr end_timestamp), (''status'', PyStr (if exc \<noteq> None then ''error'' else ''success''))] @
        (case exc of None \<Rightarrow> [] | Some e \<Rightarrow> [(''exception_type'', PyStr (exn_type e))]))
       (la_metadata l)"

definition latency_exit :: "log_env \<Rightarrow> latency \<Rightarrow> exn option \<Rightarrow> proc \<Rightarrow> proc" where
  "latency_exit env l exc p =
     (case la_start_time l of
        None \<Rightarrow> p
      | Some start \<Rightarrow>
          (case read_perf env p of (p, end_time) \<Rightarrow> case read_now env p of (p, end_stamp) \<Rightarrow>
             let payload = latency_payload l (duration_ms start end_time) end_stamp exc;
                 level = (if exc \<noteq> None then 40 else 20)
             in restore_trace (la_trace_token l)
                  (log_call env (la_logger l) level ''pipeline stage completed'' (la_event_type l) (Some payload) PyNone None p)))"

text \<open>\<^verbatim>\<open>with timer: body\<close> where the body may use the same timer again.\<close>

definition with_latency :: "log_env \<Rightarrow> (latency \<Rightarrow> proc \<Rightarrow> proc \<times> latency \<times> 'a res) \<Rightarrow> latency \<Rightarrow> proc \<Rightarrow> proc \<times> latency \<times> 'a res" where
  "with_latency env body l p =
     (case latency_enter env l p of (p, l) \<Rightarrow>
      case body l p of (p, l, r) \<Rightarrow>
        (latency_exit env l (case r of Inl e \<Rightarrow> Some e | Inr _ \<Rightarrow> None) p, l, r))"

text \<open>\<^verbatim>\<open>pipeline_latency_decorator\<close>: every call has a timer of its own.\<close>

definition timed :: "log_env \<Rightarrow> string \<Rightarrow> string option \<Rightarrow> (string, pyval) dict option \<Rightarrow> string \<Rightarrow> (proc \<Rightarrow> proc \<times> 'a res) \<Rightarrow> proc \<Rightarrow> proc \<times> 'a res" where
  "timed env stage logger metadata default_logger func p =
     (case with_latency env (\<lambda>l p. case func p of (p, r) \<Rightarrow> (p, l, r)) (latency_init stage logger metadata None default_logger) p of
        (p, l, r) \<Rightarrow> (p, r))"

subsection \<open>Printable lines\<close>

definition printable :: "char \<Rightarrow> bool" where
  "printable c \<longleftrightarrow> 32 \<le> (of_char c :: nat) \<and> (of_char c :: nat) \<le> 126"

definition plain :: "string \<Rightarrow> bool" where "plain s \<longleftrightarrow> (\<forall>c \<in> set s. printable c)"

lemma plain_simps [simp]: "plain []" "plain (c # s) \<longleftrightarrow> printable c \<and> plain s" "plain (s @ t) \<longleftrightarrow> plain s \<and> plain t"
  by (auto simp: plain_def)

lemma plain_replicate [simp]: "printable c \<Longrightarrow> plain (replicate n c)" by (simp add: plain_def)
lemma plain_take [simp]: "plain s \<Longrightarrow> plain (take n s)" by (auto simp: plain_def dest: in_set_takeD)
lemma plain_drop [simp]: "plain s \<Longrightarrow> plain (drop n s)" by (auto simp: plain_def dest: in_set_dropD)

lemma printable_digit: "is_digit c \<Longrightarrow> printable c" by (simp add: is_digit_iff printable_def)

lemma plain_show_nat [simp]: "plain (show_nat n)"
  using show_nat_digits [of n] printable_digit by (simp add: plain_def)

lemma printable_chars: "list_all printable ''0.-+:e,[]{}nulltruefasbrtu''" by code_simp

lemma printable_escapes: "printable (CHR 0x5C)" "printable (CHR 0x22)" by code_simp+

lemma plain_show_pad [simp]: "plain (show_pad w n)"
  using printable_chars by (simp add: show_pad_def Let_def)

lemma plain_show_int [simp]: "plain (show_int i)" using printable_chars by (simp add: show_int_def)

lemma plain_show_float [simp]: "plain (show_float x)"
  using printable_chars by (simp add: show_float_def Let_def split_def)

lemma plain_hex: "plain (hex_digits k n)"
proof (induction k arbitrary: n)
  case (Suc k)
  have "printable (hex_char m)" if "0 \<le> m" "m < 16" for m
  proof -
    have "m \<in> set [0..15]" using that by auto
    moreover have "list_all (\<lambda>m. printable (hex_char m)) [0..15]" by code_simp
    ultimately show ?thesis by (simp only: list_all_iff)
  qed
  then show ?case using Suc by simp
qed simp

lemma plain_json_char: "plain (json_char c)"
proof -
  have "printable c" if "\<not> (of_char c :: int) < 32" "\<not> 126 < (of_char c :: int)"
  proof -
    have "(of_char c :: int) = int (of_char c :: nat)" by (simp add: of_nat_of_char)
    then show ?thesis using that unfolding printable_def by linarith
  qed
  then show ?thesis using printable_chars printable_escapes by (auto simp: json_char_def Let_def plain_hex)
qed

lemma plain_json_string [simp]: "plain (json_string s)"
  using printable_escapes plain_json_char by (induction s) (auto simp: json_string_def)

lemma plain_join: "\<forall>s \<in> set ss. plain s \<Longrightarrow> printable c \<Longrightarrow> plain (join_with c ss)"
  by (induction ss rule: join_with.induct [of _ c]) auto

lemma dumps_plain:
  "dumps v = Inr s \<Longrightarrow> plain s" "dumps_list vs = Inr ss \<Longrightarrow> \<forall>s \<in> set ss. plain s" "dumps_fields kvs = Inr ts \<Longrightarrow> \<forall>s \<in> set ts. plain s"
proof (induction v and vs and kvs arbitrary: s and ss and ts rule: dumps_dumps_list_dumps_fields.induct)
qed (use printable_chars in \<open>auto simp: plain_join split: if_splits\<close>)

subsection \<open>One entry per call\<close>

definition configured :: "string \<Rightarrow> proc \<Rightarrow> bool" where
  "configured name p \<longleftrightarrow> (let l = logger_of name p in lr_handlers l = [StructuredHandler] \<and> \<not> lr_propagate l \<and> lr_level l \<noteq> 0)"

lemma put_out_simps [simp]:
  "pr_trace (put_out out p) = pr_trace p" "pr_ids (put_out out p) = pr_ids p" "lo_output (pr_rest (put_out out p)) = lo_output (pr_rest p) @ out"
  "lo_service (pr_rest (put_out out p)) = lo_service (pr_rest p)" "lo_loggers (pr_rest (put_out out p)) = lo_loggers (pr_rest p)"
  "lo_cold_start (pr_rest (put_out out p)) = lo_cold_start (pr_rest p)"
  "pr_trace (tick q) = pr_trace q" "pr_ids (tick q) = pr_ids q" "pr_rest (tick q) = pr_rest q"
  by (simp_all add: put_out_def tick_def)

lemma log_call_keeps [simp]:
  "pr_trace (log_call env name level m et md tid err p) = pr_trace p" "pr_ids (log_call env name level m et md tid err p) = pr_ids p"
  "lo_service (pr_rest (log_call env name level m et md tid err p)) = lo_service (pr_rest p)"
  "lo_loggers (pr_rest (log_call env name level m et md tid err p)) = lo_loggers (pr_rest p)"
  "lo_cold_start (pr_rest (log_call env name level m et md tid err p)) = lo_cold_start (pr_rest p)"
  by (simp_all add: log_call_def Let_def)

lemma configured_cong: "lo_loggers (pr_rest p) = lo_loggers (pr_rest q) \<Longrightarrow> configured name p = configured name q"
  by (simp add: configured_def logger_of_def)

definition call_record :: "log_env \<Rightarrow> int \<Rightarrow> string \<Rightarrow> string \<Rightarrow> (string, pyval) dict option \<Rightarrow> pyval \<Rightarrow> structured_error option \<Rightarrow> proc \<Rightarrow> log_record" where
  "call_record env level m et md tid err p =
     \<lparr>rec_levelno = level, rec_created = en_created env (pr_ticks p), rec_message = m, rec_event_type = Some et,
      rec_metadata = Some (case md of None \<Rightarrow> [] | Some d \<Rightarrow> d), rec_trace_id = tid, rec_error = err\<rparr>"

lemma log_call_output:
  assumes "configured name p"
  shows "lo_output (pr_rest (log_call env name level m et md tid err p)) =
    lo_output (pr_rest p) @ (if level < lr_level (logger_of name p) then [] else [run_handler (call_record env level m et md tid err p) p StructuredHandler])"
  using assms by (simp add: log_call_def configured_def call_record_def Let_def)

definition initialised :: "service_context \<Rightarrow> bool" where
  "initialised sc \<longleftrightarrow> (\<exists>n e. n \<noteq> [] \<and> e \<noteq> [] \<and> sc_service_name sc = Some n \<and> sc_environment sc = Some e)"

lemma build_log_event_Inr: "(\<exists>v. build_log_event sc tr r = Inr v) \<longleftrightarrow> initialised sc"
  by (auto simp: build_log_event_def context_service_name_def context_environment_def required_def initialised_def split: option.splits list.splits)

lemma build_log_event_Inl: "build_log_event sc tr r = Inl e \<Longrightarrow> exn_type e = ''RuntimeError''"
  by (auto simp: build_log_event_def context_service_name_def context_environment_def required_def bind_res_def split: option.splits list.splits)

lemma dumps_errors:
  "dumps v = Inl e \<Longrightarrow> exn_type e = ''TypeError''" "dumps_list vs = Inl e \<Longrightarrow> exn_type e = ''TypeError''" "dumps_fields kvs = Inl e \<Longrightarrow> exn_type e = ''TypeError''"
  by (induction v and vs and kvs rule: dumps_dumps_list_dumps_fields.induct) (auto simp: not_serialisable_def bind_res_def split: sum.splits)

text \<open>
  A call to a configured logger never raises and leaves one entry or none. Below the level
  of the logger nothing is written. Otherwise the process writes one line, of printable
  ASCII characters only, so no value a caller logs can break a line or forge another; it is
  missing exactly when the service was not initialised or a value has no JSON form, and
  then the reason is reported instead. The trace context is untouched.
\<close>

theorem one_entry_per_call:
  assumes "configured name p"
  shows "\<exists>x. lo_output (pr_rest (log_call env name level m et md tid err p)) =
       lo_output (pr_rest p) @ (if level < lr_level (logger_of name p) then [] else [x]) \<and>
     (case x of
        Line s \<Rightarrow> initialised (lo_service (pr_rest p)) \<and> (\<forall>c \<in> set s. printable c)
      | HandlerError e \<Rightarrow> exn_type e = (if initialised (lo_service (pr_rest p)) then ''TypeError'' else ''RuntimeError'')
      | _ \<Rightarrow> False) \<and>
     pr_trace (log_call env name level m et md tid err p) = pr_trace p"
proof -
  let ?sc = "lo_service (pr_rest p)" and ?r = "call_record env level m et md tid err p"
  let ?x = "run_handler ?r p StructuredHandler"
  have "case ?x of
        Line s \<Rightarrow> initialised ?sc \<and> (\<forall>c \<in> set s. printable c)
      | HandlerError e \<Rightarrow> exn_type e = (if initialised ?sc then ''TypeError'' else ''RuntimeError'')
      | _ \<Rightarrow> False"
  proof (cases "build_log_event ?sc (pr_trace p) ?r")
    case (Inl e)
    then have "\<not> initialised ?sc" using build_log_event_Inr [of ?sc "pr_trace p" ?r] by auto
    then show ?thesis using build_log_event_Inl [OF Inl] Inl by (simp add: run_handler_def format_record_def)
  next
    case (Inr v)
    then have "initialised ?sc" using build_log_event_Inr [of ?sc "pr_trace p" ?r] by auto
    then show ?thesis using Inr dumps_errors(1) [of "PyDict (serialise_event v)"] dumps_plain(1) [of "PyDict (serialise_event v)"]
      by (auto simp: run_handler_def format_record_def plain_def simp del: dumps.simps split: sum.split)
  qed
  then show ?thesis using log_call_output [OF assms] by (intro exI [of _ ?x]) simp
qed

subsection \<open>Handlers are installed once\<close>

lemma logger_of_set: "logger_of n (set_logger name l p) = (if n = name then l else logger_of n p)"
  by (simp add: logger_of_def set_logger_def dict_get_default_def)

fun structured_loggers :: "log_env \<Rightarrow> string list \<Rightarrow> proc \<Rightarrow> proc" where
  "structured_loggers env [] p = p"
| "structured_loggers env (n # ns) p = structured_loggers env ns (fst (structured_logger env n p))"

lemma structured_logger_effect:
  assumes "level_named (map upper (dict_get_default (en_vars env) ''LOG_LEVEL'' ''INFO'')) = Inr lv"
  shows "logger_of n (fst (structured_logger env name p)) =
     (if n = name \<and> StructuredHandler \<notin> set (lr_handlers (logger_of name p))
      then \<lparr>lr_handlers = lr_handlers (logger_of name p) @ [StructuredHandler], lr_level = lv, lr_propagate = False\<rparr> else logger_of n p)"
  using assms by (auto simp: structured_logger_def configure_logger_def Let_def logger_of_set split: prod.split)

text \<open>
  However often and for whatever names a logger is constructed, the logging backend of each
  of these names ends with one structured handler and the configured level, and every other
  name is untouched.
\<close>

theorem handler_installed_once:
  assumes "level_named (map upper (dict_get_default (en_vars env) ''LOG_LEVEL'' ''INFO'')) = Inr lv"
    and "lr_handlers (logger_of n p) = []"
  shows "logger_of n (structured_loggers env names p) =
     (if n \<in> set names then \<lparr>lr_handlers = [StructuredHandler], lr_level = lv, lr_propagate = False\<rparr> else logger_of n p)"
proof -
  have stays: "logger_of n (structured_loggers env names q) = logger_of n q" if "lr_handlers (logger_of n q) = [StructuredHandler]" for names q
    using that
  proof (induction names arbitrary: q)
    case (Cons a names)
    then have "logger_of n (fst (structured_logger env a q)) = logger_of n q" by (auto simp: structured_logger_effect [OF assms(1)])
    then show ?case using Cons by simp
  qed simp
  show ?thesis using assms(2)
  proof (induction names arbitrary: p)
    case (Cons m names)
    show ?case
    proof (cases "n = m")
      case True
      then have "logger_of n (fst (structured_logger env m p)) = \<lparr>lr_handlers = [StructuredHandler], lr_level = lv, lr_propagate = False\<rparr>"
        using Cons.prems by (simp add: structured_logger_effect [OF assms(1)])
      then show ?thesis using stays [of "fst (structured_logger env m p)" names] True by simp
    next
      case False
      then show ?thesis using Cons.IH [of "fst (structured_logger env m p)"] Cons.prems by (simp add: structured_logger_effect [OF assms(1)])
    qed
  qed simp
qed

subsection \<open>Programs of nested spans\<close>

text \<open>
  A program that logs, opens spans, times stages and may fail anywhere. Its timers are those
  of \<^verbatim>\<open>pipeline_latency\<close>, one for each use.
\<close>

datatype action =
    Record int string string "(string, pyval) dict option"
  | Spanned pyval "action list"
  | Timed string "action list"
  | Fail exn

fun run_action :: "log_env \<Rightarrow> string \<Rightarrow> action \<Rightarrow> proc \<Rightarrow> proc \<times> unit res"
  and run_actions :: "log_env \<Rightarrow> string \<Rightarrow> action list \<Rightarrow> proc \<Rightarrow> proc \<times> unit res" where
  "run_action env lg (Record level m et md) p = (log_call env lg level m et md PyNone None p, Inr ())"
| "run_action env lg (Spanned stage as) p = with_span (en_fresh env) stage (\<lambda>_ p. run_actions env lg as p) p"
| "run_action env lg (Timed stage as) p = timed env stage (Some lg) None lg (\<lambda>p. run_actions env lg as p) p"
| "run_action env lg (Fail e) p = (p, Inl e)"
| "run_actions env lg [] p = (p, Inr ())"
| "run_actions env lg (a # as) p = (case run_action env lg a p of (p, Inl e) \<Rightarrow> (p, Inl e) | (p, Inr _) \<Rightarrow> run_actions env lg as p)"

text \<open>
  \<open>belongs S st v\<close>: the event belongs to the trace of \<open>st\<close>, and its parent is one of the spans \<open>S\<close>.
\<close>

definition belongs :: "pyval set \<Rightarrow> trace_state \<Rightarrow> log_event_schema \<Rightarrow> bool" where
  "belongs S st v \<longleftrightarrow> lv_trace_id v = ts_trace_id st \<and> lv_correlation_id v = ts_correlation_id st \<and> lv_parent_trace_id v \<in> S"

definition entry_under :: "pyval set \<Rightarrow> trace_state \<Rightarrow> log_output \<Rightarrow> bool" where
  "entry_under S st x \<longleftrightarrow> (case x of Line s \<Rightarrow> (\<exists>v. dumps (PyDict (serialise_event v)) = Inr s \<and> belongs S st v) | HandlerError _ \<Rightarrow> True | _ \<Rightarrow> False)"

definition spans_from :: "log_env \<Rightarrow> nat \<Rightarrow> pyval set" where "spans_from env n = {PyStr (en_fresh env k) |k. n \<le> k}"

text \<open>What a computation may do to a process in the trace of \<open>st\<close>.\<close>

definition stays_under :: "log_env \<Rightarrow> string \<Rightarrow> pyval set \<Rightarrow> trace_state \<Rightarrow> proc \<Rightarrow> proc \<Rightarrow> bool" where
  "stays_under env lg S st p p' \<longleftrightarrow> pr_trace p' = pr_trace p \<and> pr_ids p \<le> pr_ids p' \<and> lo_loggers (pr_rest p') = lo_loggers (pr_rest p) \<and>
     lo_service (pr_rest p') = lo_service (pr_rest p) \<and> (\<exists>out. lo_output (pr_rest p') = lo_output (pr_rest p) @ out \<and> list_all (entry_under S st) out)"

definition in_trace :: "pyval set \<Rightarrow> trace_state \<Rightarrow> proc \<Rightarrow> bool" where
  "in_trace S st p \<longleftrightarrow> (\<exists>cur. pr_trace p = Some cur \<and> ts_trace_id cur = ts_trace_id st \<and> ts_correlation_id cur = ts_correlation_id st \<and>
     ts_parent_span_id cur \<in> S \<and> ts_span_id cur \<in> S)"

lemma stays_under_refl: "stays_under env lg S st p p" by (simp add: stays_under_def)

lemma stays_under_trans: "stays_under env lg S st p q \<Longrightarrow> stays_under env lg S st q r \<Longrightarrow> stays_under env lg S st p r"
  by (fastforce simp: stays_under_def)

lemma in_trace_cong: "pr_trace p = pr_trace q \<Longrightarrow> in_trace S st p = in_trace S st q" by (simp add: in_trace_def)

lemma log_call_under:
  assumes "configured lg p" "in_trace S st p"
  shows "stays_under env lg S st p (log_call env lg level m et md PyNone err p)"
proof -
  obtain cur where cur: "pr_trace p = Some cur" "ts_trace_id cur = ts_trace_id st" "ts_correlation_id cur = ts_correlation_id st" "ts_parent_span_id cur \<in> S"
    using assms(2) by (auto simp: in_trace_def)
  have "entry_under S st (run_handler (call_record env level m et md PyNone err p) p StructuredHandler)"
    using cur by (auto simp: entry_under_def run_handler_def format_record_def build_log_event_def belongs_def call_record_def bind_res_def
        simp del: dumps.simps split: sum.split)
  then show ?thesis using log_call_output [OF assms(1)] by (auto simp: stays_under_def)
qed

lemma child_trace_in:
  assumes "in_trace S st p" "spans_from env (pr_ids p) \<subseteq> S"
  shows "in_trace S st (fst (child_trace (en_fresh env) stage p))" "pr_rest (fst (child_trace (en_fresh env) stage p)) = pr_rest p"
    "pr_ids (fst (child_trace (en_fresh env) stage p)) = pr_ids p + 1"
  using assms by (auto simp: in_trace_def child_trace_Some Let_def spans_from_def)

text \<open>The conditions under which a program runs, and that a computation keeps them.\<close>

definition ready :: "log_env \<Rightarrow> string \<Rightarrow> pyval set \<Rightarrow> trace_state \<Rightarrow> proc \<Rightarrow> bool" where
  "ready env lg S st p \<longleftrightarrow> configured lg p \<and> in_trace S st p \<and> spans_from env (pr_ids p) \<subseteq> S"

lemma spans_from_mono: "n \<le> m \<Longrightarrow> spans_from env m \<subseteq> spans_from env n"
  by (auto simp: spans_from_def intro: le_trans)

lemma ready_step: "ready env lg S st p \<Longrightarrow> stays_under env lg S st p q \<Longrightarrow> ready env lg S st q"
  unfolding ready_def stays_under_def using configured_cong [of p q lg] in_trace_cong [of p q S st] spans_from_mono [of "pr_ids p" "pr_ids q" env] by auto

lemma ready_child:
  assumes "ready env lg S st p"
  shows "ready env lg S st (fst (child_trace (en_fresh env) stage p))"
  using assms child_trace_in [of S st p env stage] configured_cong [of p "fst (child_trace (en_fresh env) stage p)" lg]
    spans_from_mono [of "pr_ids p" "pr_ids p + 1" env] by (auto simp: ready_def)

lemma restore_simps [simp]:
  "pr_trace (restore_trace t q) = t" "pr_rest (restore_trace t q) = pr_rest q" "pr_ids (restore_trace t q) = pr_ids q"
  by (auto simp: restore_trace_def clear_trace_def split: option.split)

lemma tick_under: "stays_under env lg S st p (tick p)" by (simp add: stays_under_def)

lemma with_span_under:
  assumes "ready env lg S st p" and body: "\<And>q sp. ready env lg S st q \<Longrightarrow> stays_under env lg S st q (fst (body sp q)) \<and> snd (body sp q) = r"
  shows "stays_under env lg S st p (fst (with_span (en_fresh env) stage body p)) \<and> snd (with_span (en_fresh env) stage body p) = r"
proof -
  obtain q sp where c: "child_trace (en_fresh env) stage p = (q, sp)" by fastforce
  then have q: "ready env lg S st q" "pr_rest q = pr_rest p" "pr_ids q = pr_ids p + 1"
    using ready_child [OF assms(1), of stage] child_trace_in [of S st p env stage] assms(1) by (auto simp: ready_def)
  obtain q' r' where b: "body sp q = (q', r')" by fastforce
  then have "stays_under env lg S st q q'" "r' = r" using body [OF q(1), of sp] by auto
  then show ?thesis using c b q(2,3) by (auto simp: with_span_def Let_def stays_under_def clear_trace_def split: option.split)
qed

lemma timed_under:
  assumes "ready env lg S st p" and body: "\<And>q. ready env lg S st q \<Longrightarrow> stays_under env lg S st q (fst (func q)) \<and> snd (func q) = r"
  shows "stays_under env lg S st p (fst (timed env stage (Some lg) None lg func p)) \<and> snd (timed env stage (Some lg) None lg func p) = r"
proof -
  let ?l = "latency_init stage (Some lg) None None lg" and ?p2 = "tick (tick p)"
  define l where "l = ?l\<lparr>la_start_time := Some (en_perf env (pr_ticks p)), la_start_timestamp := isoformat (en_now env (pr_ticks (tick p))), la_trace_token := pr_trace p\<rparr>"
  define q where "q = fst (child_trace (en_fresh env) (PyStr stage) ?p2)"
  have enter: "latency_enter env ?l p = (q, l)"
    by (simp add: latency_enter_def read_perf_def read_now_def Let_def q_def l_def latency_init_def)
  have p2: "ready env lg S st ?p2" using assms(1) ready_step tick_under by blast
  have q: "ready env lg S st q" "pr_rest q = pr_rest p" "pr_ids q = pr_ids p + 1"
    using ready_child [OF p2, of "PyStr stage"] child_trace_in(2,3) [of S st ?p2 env "PyStr stage"] p2 by (simp_all add: q_def ready_def)
  obtain q' r' where b: "func q = (q', r')" by fastforce
  then have q': "stays_under env lg S st q q'" "r' = r" using body [OF q(1)] by auto
  let ?exc = "case r of Inl e \<Rightarrow> Some e | Inr _ \<Rightarrow> None"
  have ready': "ready env lg S st (tick (tick q'))" using ready_step [OF q(1) q'(1)] ready_step tick_under by blast
  obtain level et md where ex: "latency_exit env l ?exc q' =
      restore_trace (pr_trace p) (log_call env lg level ''pipeline stage completed'' et (Some md) PyNone None (tick (tick q')))"
    by (simp add: latency_exit_def l_def latency_init_def read_perf_def read_now_def Let_def)
  have "stays_under env lg S st (tick (tick q')) (log_call env lg level ''pipeline stage completed'' et (Some md) PyNone None (tick (tick q')))"
    using log_call_under ready' by (auto simp: ready_def)
  then have "stays_under env lg S st q (log_call env lg level ''pipeline stage completed'' et (Some md) PyNone None (tick (tick q')))"
    using stays_under_trans [OF q'(1) stays_under_trans [OF tick_under stays_under_trans [OF tick_under]]] by blast
  then have "stays_under env lg S st p (latency_exit env l ?exc q')"
    using q(2,3) unfolding ex by (auto simp: stays_under_def)
  then show ?thesis using enter b q'(2) by (simp add: timed_def with_latency_def)
qed

text \<open>What a program raises, whatever its spans and timers.\<close>

fun outcome :: "action \<Rightarrow> unit res" and outcomes :: "action list \<Rightarrow> unit res" where
  "outcome (Record level m et md) = Inr ()"
| "outcome (Spanned stage as) = outcomes as"
| "outcome (Timed stage as) = outcomes as"
| "outcome (Fail e) = Inl e"
| "outcomes [] = Inr ()"
| "outcomes (a # as) = (case outcome a of Inl e \<Rightarrow> Inl e | Inr _ \<Rightarrow> outcomes as)"

lemma run_under:
  "ready env lg S st p \<Longrightarrow> stays_under env lg S st p (fst (run_action env lg a p)) \<and> snd (run_action env lg a p) = outcome a"
  "ready env lg S st p \<Longrightarrow> stays_under env lg S st p (fst (run_actions env lg as p)) \<and> snd (run_actions env lg as p) = outcomes as"
proof (induction env lg a p and env lg as p rule: run_action_run_actions.induct)
  case (1 env lg level m et md p)
  then show ?case using log_call_under by (simp add: ready_def)
next
  case (2 env lg stage as p)
  then show ?case using with_span_under [of env lg S st p "\<lambda>_ p. run_actions env lg as p" "outcomes as" stage] by simp
next
  case (3 env lg stage as p)
  then show ?case using timed_under [of env lg S st p "\<lambda>p. run_actions env lg as p" "outcomes as" stage] by simp
next
  case (6 env lg a as p)
  obtain q r where q: "run_action env lg a p = (q, r)" by fastforce
  then have "stays_under env lg S st p q" "r = outcome a" using 6 by auto
  then show ?case using 6(2) [OF q [symmetric]] 6(3) q ready_step [OF 6(3)] stays_under_trans by (auto split: sum.splits)
qed (simp_all add: stays_under_refl)

text \<open>
  C38: spans and timers nest. A program of log calls, spans and timed stages, run inside a trace
  and failing anywhere or nowhere, raises exactly what it would raise without them, leaves
  the trace context as it was, and every line it writes carries the trace and the
  correlation id of the surrounding trace, with a parent that is the surrounding span, its
  parent, or a span opened since.
\<close>

theorem spans_nest:
  assumes "configured lg p" and "pr_trace p = Some st"
  shows "\<exists>out. snd (run_actions env lg as p) = outcomes as \<and> pr_trace (fst (run_actions env lg as p)) = Some st \<and>
     lo_output (pr_rest (fst (run_actions env lg as p))) = lo_output (pr_rest p) @ out \<and>
     (\<forall>s. Line s \<in> set out \<longrightarrow> (\<exists>v. dumps (PyDict (serialise_event v)) = Inr s \<and>
        lv_trace_id v = ts_trace_id st \<and> lv_correlation_id v = ts_correlation_id st \<and>
        (lv_parent_trace_id v \<in> {ts_parent_span_id st, ts_span_id st} \<or> (\<exists>k \<ge> pr_ids p. lv_parent_trace_id v = PyStr (en_fresh env k)))))"
proof -
  let ?S = "{ts_parent_span_id st, ts_span_id st} \<union> spans_from env (pr_ids p)"
  have "ready env lg ?S st p" using assms unfolding ready_def in_trace_def by blast
  note run = run_under(2) [OF this, of as]
  then obtain out where out: "lo_output (pr_rest (fst (run_actions env lg as p))) = lo_output (pr_rest p) @ out" "list_all (entry_under ?S st) out"
    by (auto simp: stays_under_def)
  have "\<exists>v. dumps (PyDict (serialise_event v)) = Inr s \<and> lv_trace_id v = ts_trace_id st \<and> lv_correlation_id v = ts_correlation_id st \<and>
      (lv_parent_trace_id v \<in> {ts_parent_span_id st, ts_span_id st} \<or> (\<exists>k \<ge> pr_ids p. lv_parent_trace_id v = PyStr (en_fresh env k)))"
    if l: "Line s \<in> set out" for s
  proof -
    have "entry_under ?S st (Line s)" using out(2) l by (simp only: list_all_iff)
    then obtain v where v: "dumps (PyDict (serialise_event v)) = Inr s" "belongs ?S st v"
      by (auto simp: entry_under_def simp del: dumps.simps)
    then show ?thesis unfolding belongs_def spans_from_def by blast
  qed
  then show ?thesis using run out(1) assms(2) by (intro exI [of _ out]) (simp add: stays_under_def)
qed

subsection \<open>Timers used twice at once\<close>

text \<open>
  One timer entered again before it is left, as the decorator form of a recursive function
  does, keeps the context of the inner entry only: after the outer exit the process is left
  in the span of the outer entry and not in the context it started from.
\<close>

lemma reentrant_timer_leaks:
  "pr_trace (fst (with_latency env (\<lambda>l p. with_latency env (\<lambda>l p. (p, l, Inr ())) l p) l p)) =
     Some (snd (child_trace (en_fresh env) (PyStr (la_stage l)) (tick (tick p))))"
proof -
  have child: "pr_trace (fst (child_trace fresh stage q)) = Some (snd (child_trace fresh stage q))" for fresh stage and q :: proc
    by (auto simp: child_trace_def start_trace_simps generate_id_def Let_def split: option.split)
  show ?thesis
    by (simp add: with_latency_def latency_enter_def latency_exit_def read_perf_def read_now_def Let_def child split: prod.split)
qed

subsection \<open>A concrete process\<close>

definition demo_log_env :: log_env where
  "demo_log_env = \<lparr>en_fresh = (\<lambda>n. ''id'' @ show_nat n), en_perf = (\<lambda>n. of_nat n), en_now = (\<lambda>n. UTC (int n)), en_created = (\<lambda>n. of_nat n),
     en_vars = [(''LOG_LEVEL'', ''debug'')], en_parent_level = 30\<rparr>"

definition demo_process :: proc where
  "demo_process = fst (start_trace (en_fresh demo_log_env) PyNone PyNone PyNone
     \<lparr>pr_trace = None, pr_ids = 0, pr_ticks = 0,
      pr_rest = \<lparr>lo_service = \<lparr>sc_service_name = Some ''svc'', sc_environment = Some ''test'', sc_initialised = True\<rparr>,
        lo_loggers = [(''app'', \<lparr>lr_handlers = [StructuredHandler], lr_level = 10, lr_propagate = False\<rparr>)], lo_output = [], lo_cold_start = True\<rparr>\<rparr>)"

definition demo_state :: trace_state where
  "demo_state = \<lparr>ts_trace_id = PyStr (''id'' @ show_nat 0), ts_span_id = PyStr (''id'' @ show_nat 1), ts_parent_span_id = PyNone,
     ts_correlation_id = PyNone, ts_pipeline_stage = PyNone\<rparr>"

lemma demo_process_ok: "configured ''app'' demo_process" "pr_trace demo_process = Some demo_state" "lo_output (pr_rest demo_process) = []"
  "initialised (lo_service (pr_rest demo_process))" "lr_level (logger_of ''app'' demo_process) = 10" "lr_handlers (logger_of ''other'' demo_process) = []"
  by (simp_all add: demo_process_def demo_log_env_def start_trace_simps Let_def configured_def logger_of_def dict_get_default_def demo_state_def initialised_def NEW_LOGGER_def)

theorem one_entry_per_call_witness:
  "\<exists>x. lo_output (pr_rest (log_call demo_log_env ''app'' 20 ''hello'' ''log.info'' None PyNone None demo_process)) = [x] \<and>
     (case x of Line s \<Rightarrow> \<forall>c \<in> set s. printable c | HandlerError e \<Rightarrow> exn_type e = ''TypeError'' | _ \<Rightarrow> False)"
  using one_entry_per_call [OF demo_process_ok(1), of demo_log_env 20 "''hello''" "''log.info''" None PyNone None]
  by (auto simp: demo_process_ok split: log_output.splits)

theorem handler_installed_once_witness:
  "logger_of ''other'' (structured_loggers demo_log_env [''other'', ''app'', ''other''] demo_process) =
     \<lparr>lr_handlers = [StructuredHandler], lr_level = 10, lr_propagate = False\<rparr>"
proof -
  have "level_named (map upper (dict_get_default (en_vars demo_log_env) ''LOG_LEVEL'' ''INFO'')) = Inr 10" by code_simp
  from handler_installed_once [OF this demo_process_ok(6), of "[''other'', ''app'', ''other'']"] show ?thesis by simp
qed

theorem spans_nest_witness:
  "snd (run_actions demo_log_env ''app'' [Spanned (PyStr ''load'') [Record 20 ''m'' ''log.info'' None, Timed ''fit'' [Fail (ValueError ''bad'')]]] demo_process) =
     Inl (ValueError ''bad'') \<and>
   pr_trace (fst (run_actions demo_log_env ''app'' [Spanned (PyStr ''load'') [Record 20 ''m'' ''log.info'' None, Timed ''fit'' [Fail (ValueError ''bad'')]]] demo_process)) =
     Some demo_state"
  using spans_nest [OF demo_process_ok(1,2), of demo_log_env "[Spanned (PyStr ''load'') [Record 20 ''m'' ''log.info'' None, Timed ''fit'' [Fail (ValueError ''bad'')]]]"]
  by (elim exE conjE) (simp del: run_actions.simps run_action.simps)

end
