(* ===== verification/LogAdapters.thy ===== *)
theory LogAdapters
  imports StructuredLog
begin

text \<open>
  \<^verbatim>\<open>structured_logging/adapters\<close>: the decorators that give a worker, a Lambda function or a
  web application its log lines and its trace. The decorated function, with its arguments
  already bound, is an argument: a computation on the process that returns or raises. A
  coroutine is run to its end; the context variable belongs to its task, so other tasks
  do not disturb it. The value of the logger is its name.
\<close>

definition resolve_logger :: "log_env \<Rightarrow> string \<Rightarrow> string option \<Rightarrow> proc \<Rightarrow> proc \<times> string res" where
  "resolve_logger env default_name logger p =
     (case logger of Some l \<Rightarrow> (p, Inr l) | None \<Rightarrow> structured_logger env default_name p)"

text \<open>
  \<^verbatim>\<open>except Exception\<close> lets the classes pass that derive from \<^verbatim>\<open>BaseException\<close> only.
\<close>

definition is_exception :: "exn \<Rightarrow> bool" where
  "is_exception e \<longleftrightarrow> exn_type e \<notin> {''CancelledError'', ''KeyboardInterrupt'', ''SystemExit'', ''GeneratorExit''}"

text \<open>What every adapter does first: the clocks, the upstream trace, a span of its own.\<close>

definition open_invocation :: "log_env \<Rightarrow> string \<Rightarrow> (string \<Rightarrow> pyval) option \<Rightarrow> proc \<Rightarrow> proc \<times> pyfloat \<times> string" where
  "open_invocation env stage headers p =
     (case read_perf env p of (p, start_time) \<Rightarrow> case read_now env p of (p, start_timestamp) \<Rightarrow>
        let p = (case headers of Some get \<Rightarrow> extract_headers (en_fresh env) get p | None \<Rightarrow> p);
            p = (if pr_trace p = None then fst (start_trace (en_fresh env) PyNone PyNone (PyStr stage) p)
                 else fst (child_trace (en_fresh env) (PyStr stage) p))
        in (p, start_time, start_timestamp))"

definition headers_of :: "pyval \<Rightarrow> (string \<Rightarrow> pyval) option" where
  "headers_of v = (case v of PyDict d \<Rightarrow> Some (dict_item d) | _ \<Rightarrow> None)"

definition elapsed_ms :: "log_env \<Rightarrow> pyfloat \<Rightarrow> proc \<Rightarrow> proc \<times> pyval" where
  "elapsed_ms env start_time p = (case read_perf env p of (p, t) \<Rightarrow> (p, PyFloat (duration_ms start_time t)))"

subsection \<open>Workers\<close>

text \<open>\<^verbatim>\<open>int(v)\<close>, \<open>None\<close> standing for its \<^verbatim>\<open>ValueError\<close> and \<^verbatim>\<open>TypeError\<close>.\<close>

definition int_of_value :: "pyval \<Rightarrow> int option" where
  "int_of_value v = (case v of
     PyInt i \<Rightarrow> Some i | PyBool b \<Rightarrow> Some (if b then 1 else 0) | PyFloat x \<Rightarrow> Some (trunc x) | PyStr s \<Rightarrow> py_int s
   | PyUUID u \<Rightarrow> Some (uint u) | _ \<Rightarrow> None)"

definition extract_retry_count :: "pyval \<Rightarrow> int" where
  "extract_retry_count message =
     (case message of
        PyDict d \<Rightarrow>
          (case dict_get_default d ''attributes'' (PyDict []) of
             PyDict attributes \<Rightarrow>
               (case dict_item attributes ''ApproximateReceiveCount'' of
                  PyNone \<Rightarrow> 0
                | retry_value \<Rightarrow> (case int_of_value retry_value of Some n \<Rightarrow> n | None \<Rightarrow> 0))
           | _ \<Rightarrow> 0)
      | _ \<Rightarrow> 0)"

definition worker_started :: "log_env \<Rightarrow> string \<Rightarrow> string \<Rightarrow> string \<Rightarrow> proc \<Rightarrow> proc" where
  "worker_started env lg queue_name start_timestamp =
     log_info env lg ''Worker execution started'' ''worker.execution.started''
       (Some [(''queue_name'', PyStr queue_name), (''start_time'', PyStr start_timestamp)]) PyNone"

definition worker_cancelled :: "log_env \<Rightarrow> string \<Rightarrow> string \<Rightarrow> pyfloat \<Rightarrow> proc \<Rightarrow> proc" where
  "worker_cancelled env lg queue_name start_time p =
     (case elapsed_ms env start_time p of (p, ms) \<Rightarrow>
        log_info env lg ''Worker execution cancelled'' ''worker.execution.cancelled''
          (Some [(''queue_name'', PyStr queue_name), (''duration_ms'', ms)]) PyNone p)"

definition worker_failed :: "log_env \<Rightarrow> string \<Rightarrow> string \<Rightarrow> pyval \<Rightarrow> pyfloat \<Rightarrow> exn \<Rightarrow> proc \<Rightarrow> proc" where
  "worker_failed env lg queue_name message start_time e p =
     (case elapsed_ms env start_time p of (p, ms) \<Rightarrow>
        emit_error env lg ''WORKER_EXECUTION_FAILED'' (exn_msg e) ''worker.execution.failure''
          (Some [(''queue_name'', PyStr queue_name), (''duration_ms'', ms), (''retry_count'', PyInt (extract_retry_count message)),
                 (''exception_type'', PyStr (exn_type e))]) PyNone PyNone PyNone PyNone PyNone PyNone p)"

definition worker_completed :: "log_env \<Rightarrow> string \<Rightarrow> string \<Rightarrow> pyfloat \<Rightarrow> proc \<Rightarrow> proc" where
  "worker_completed env lg queue_name start_time p =
     (case elapsed_ms env start_time p of (p, ms) \<Rightarrow>
        log_info env lg ''Worker execution completed'' ''worker.execution.completed''
          (Some [(''queue_name'', PyStr queue_name), (''duration_ms'', ms)]) PyNone p)"

definition sync_wrapper :: "log_env \<Rightarrow> string \<Rightarrow> string \<Rightarrow> (pyval \<Rightarrow> proc \<Rightarrow> proc \<times> 'a res) \<Rightarrow> pyval \<Rightarrow> proc \<Rightarrow> proc \<times> 'a res" where
  "sync_wrapper env lg queue_name handler message p =
     (case open_invocation env ''worker_execution'' (headers_of message) p of (p, start_time, start_timestamp) \<Rightarrow>
      case handler message (worker_started env lg queue_name start_timestamp p) of
        (p, Inl e) \<Rightarrow> (end_trace (if is_exception e then worker_failed env lg queue_name message start_time e p else p), Inl e)
      | (p, Inr result) \<Rightarrow> (end_trace (worker_completed env lg queue_name start_time p), Inr result))"

definition async_wrapper :: "log_env \<Rightarrow> string \<Rightarrow> string \<Rightarrow> (pyval \<Rightarrow> proc \<Rightarrow> proc \<times> 'a res) \<Rightarrow> pyval \<Rightarrow> proc \<Rightarrow> proc \<times> 'a res" where
  "async_wrapper env lg queue_name handler message p =
     (case open_invocation env ''worker_execution'' (headers_of message) p of (p, start_time, start_timestamp) \<Rightarrow>
      case handler message (worker_started env lg queue_name start_timestamp p) of
        (p, Inl e) \<Rightarrow>
          (end_trace
             (if exn_type e = ''CancelledError'' then worker_cancelled env lg queue_name start_time p
              else if is_exception e then worker_failed env lg queue_name message start_time e p else p), Inl e)
      | (p, Inr result) \<Rightarrow> (end_trace (worker_completed env lg queue_name start_time p), Inr result))"

definition worker_logging_handler ::
  "log_env \<Rightarrow> string \<Rightarrow> string option \<Rightarrow> bool \<Rightarrow> (pyval \<Rightarrow> proc \<Rightarrow> proc \<times> 'a res) \<Rightarrow> proc \<Rightarrow> proc \<times> (pyval \<Rightarrow> proc \<Rightarrow> proc \<times> 'a res) res" where
  "worker_logging_handler env queue_name logger is_coroutine handler p =
     (case resolve_logger env ''worker-service'' logger p of
        (p, Inl e) \<Rightarrow> (p, Inl e)
      | (p, Inr lg) \<Rightarrow> (p, Inr ((if is_coroutine then async_wrapper else sync_wrapper) env lg queue_name handler)))"

definition log_dead_letter_event :: "log_env \<Rightarrow> (string, pyval) dict \<Rightarrow> string \<Rightarrow> string option \<Rightarrow> proc \<Rightarrow> proc \<times> unit res" where
  "log_dead_letter_event env message queue_name logger p =
     (case resolve_logger env ''worker-service'' logger p of
        (p, Inl e) \<Rightarrow> (p, Inl e)
      | (p, Inr lg) \<Rightarrow>
          (emit_error env lg ''MESSAGE_SENT_TO_DLQ'' ''Message routed to dead-letter queue'' ''worker.dead_letter''
             (Some [(''queue_name'', PyStr queue_name), (''message_id'', dict_item message ''id'')]) PyNone PyNone PyNone PyNone PyNone PyNone
             (extract_headers (en_fresh env) (dict_item message) p), Inr ()))"

definition log_retry_event :: "log_env \<Rightarrow> (string, pyval) dict \<Rightarrow> string \<Rightarrow> string option \<Rightarrow> proc \<Rightarrow> proc \<times> unit res" where
  "log_retry_event env message queue_name logger p =
     (case resolve_logger env ''worker-service'' logger p of
        (p, Inl e) \<Rightarrow> (p, Inl e)
      | (p, Inr lg) \<Rightarrow>
          (log_info env lg ''Worker retry scheduled'' ''worker.retry''
             (Some [(''queue_name'', PyStr queue_name), (''retry_count'', PyInt (extract_retry_count (PyDict message))),
                    (''message_id'', dict_item message ''id'')]) PyNone p, Inr ()))"

subsection \<open>Lambda functions\<close>

definition function_name :: "pyval \<Rightarrow> pyval" where
  "function_name context = (case get_attr context ''function_name'' of Some v \<Rightarrow> v | None \<Rightarrow> PyNone)"

definition safe_keys :: "string list" where
  "safe_keys = [''source'', ''detail-type'', ''id'', ''time'', ''region'', ''account'']"

definition safe_event_metadata :: "(string, pyval) dict \<Rightarrow> (string, pyval) dict" where
  "safe_event_metadata event = map (\<lambda>key. (key, the (dict_get event key))) (filter (\<lambda>key. dict_get event key \<noteq> None) safe_keys)"

definition cold_start :: "log_env \<Rightarrow> string \<Rightarrow> pyval \<Rightarrow> proc \<Rightarrow> proc" where
  "cold_start env lg context p =
     (if lo_cold_start (pr_rest p)
      then let p = log_info env lg ''Lambda cold start detected'' ''lambda.cold_start'' (Some [(''function_name'', function_name context)]) PyNone p
           in p\<lparr>pr_rest := (pr_rest p)\<lparr>lo_cold_start := False\<rparr>\<rparr>
      else p)"

definition invocation_started :: "log_env \<Rightarrow> string \<Rightarrow> bool \<Rightarrow> pyval \<Rightarrow> proc \<Rightarrow> proc" where
  "invocation_started env lg log_event_metadata event p =
     (case event of
        PyDict d \<Rightarrow> if log_event_metadata
          then log_info env lg ''Lambda invocation started'' ''lambda.invocation.started'' (Some (safe_event_metadata d)) PyNone p else p
      | _ \<Rightarrow> p)"

definition invocation_failed :: "log_env \<Rightarrow> string \<Rightarrow> pyval \<Rightarrow> pyfloat \<Rightarrow> exn \<Rightarrow> proc \<Rightarrow> proc" where
  "invocation_failed env lg context start_time e p =
     (case elapsed_ms env start_time p of (p, ms) \<Rightarrow>
        emit_error env lg ''LAMBDA_UNHANDLED_EXCEPTION'' (exn_msg e) ''lambda.invocation.failure''
          (Some [(''duration_ms'', ms), (''function_name'', function_name context), (''exception_type'', PyStr (exn_type e))])
          PyNone PyNone PyNone PyNone PyNone PyNone p)"

definition invocation_completed :: "log_env \<Rightarrow> string \<Rightarrow> pyval \<Rightarrow> pyfloat \<Rightarrow> string \<Rightarrow> proc \<Rightarrow> proc" where
  "invocation_completed env lg context start_time start_timestamp p =
     (case elapsed_ms env start_time p of (p, ms) \<Rightarrow>
        log_info env lg ''Lambda invocation completed'' ''lambda.invocation.completed''
          (Some [(''duration_ms'', ms), (''function_name'', function_name context), (''start_time'', PyStr start_timestamp)]) PyNone p)"

definition lambda_wrapper ::
  "log_env \<Rightarrow> string \<Rightarrow> bool \<Rightarrow> (pyval \<Rightarrow> pyval \<Rightarrow> proc \<Rightarrow> proc \<times> 'a res) \<Rightarrow> pyval \<Rightarrow> pyval \<Rightarrow> proc \<Rightarrow> proc \<times> 'a res" where
  "lambda_wrapper env lg log_event_metadata handler event context p =
     (case open_invocation env ''lambda_invocation'' (headers_of event) p of (p, start_time, start_timestamp) \<Rightarrow>
      case handler event context (invocation_started env lg log_event_metadata event (cold_start env lg context p)) of
        (p, Inl e) \<Rightarrow> (if is_exception e then invocation_failed env lg context start_time e p else p, Inl e)
      | (p, Inr result) \<Rightarrow> (invocation_completed env lg context start_time start_timestamp p, Inr result))"

definition lambda_logging_handler ::
  "log_env \<Rightarrow> string option \<Rightarrow> bool \<Rightarrow> (pyval \<Rightarrow> pyval \<Rightarrow> proc \<Rightarrow> proc \<times> 'a res) \<Rightarrow> proc \<Rightarrow>
     proc \<times> (pyval \<Rightarrow> pyval \<Rightarrow> proc \<Rightarrow> proc \<times> 'a res) res" where
  "lambda_logging_handler env logger log_event_metadata handler p =
     (case resolve_logger env ''lambda-service'' logger p of
        (p, Inl e) \<Rightarrow> (p, Inl e)
      | (p, Inr lg) \<Rightarrow> (p, Inr (lambda_wrapper env lg log_event_metadata handler)))"

subsection \<open>Web applications\<close>

text \<open>
  The request is its method, its path and its headers, the response its status; the rest of
  the framework is the argument \<open>call_next\<close>.
\<close>

record request =
  rq_method :: string
  rq_path :: string
  rq_headers :: "string \<Rightarrow> pyval"

definition request_failed :: "log_env \<Rightarrow> string \<Rightarrow> request \<Rightarrow> pyfloat \<Rightarrow> string \<Rightarrow> exn \<Rightarrow> proc \<Rightarrow> proc" where
  "request_failed env lg rq start_time start_timestamp e p =
     (case elapsed_ms env start_time p of (p, ms) \<Rightarrow>
        emit_error env lg ''FASTAPI_UNHANDLED_EXCEPTION'' (exn_msg e) ''api.request.failure''
          (Some [(''method'', PyStr (rq_method rq)), (''path'', PyStr (rq_path rq)), (''duration_ms'', ms), (''start_time'', PyStr start_timestamp)])
          PyNone PyNone PyNone PyNone PyNone PyNone p)"

definition request_completed :: "log_env \<Rightarrow> string \<Rightarrow> request \<Rightarrow> int \<Rightarrow> pyfloat \<Rightarrow> string \<Rightarrow> proc \<Rightarrow> proc" where
  "request_completed env lg rq status start_time start_timestamp p =
     (case elapsed_ms env start_time p of (p, ms) \<Rightarrow>
        log_info env lg ''API request completed'' ''api.response''
          (Some [(''method'', PyStr (rq_method rq)), (''path'', PyStr (rq_path rq)), (''status_code'', PyInt status), (''duration_ms'', ms),
                 (''start_time'', PyStr start_timestamp)]) PyNone p)"

definition dispatch_request ::
  "log_env \<Rightarrow> string \<Rightarrow> ('a \<Rightarrow> int) \<Rightarrow> (request \<Rightarrow> proc \<Rightarrow> proc \<times> 'a res) \<Rightarrow> request \<Rightarrow> proc \<Rightarrow> proc \<times> 'a res" where
  "dispatch_request env lg status_code call_next rq p =
     (case open_invocation env ''api_request'' (Some (rq_headers rq)) p of (p, start_time, start_timestamp) \<Rightarrow>
      case call_next rq p of
        (p, Inl e) \<Rightarrow> (end_trace (if is_exception e then request_failed env lg rq start_time start_timestamp e p else p), Inl e)
      | (p, Inr response) \<Rightarrow> (end_trace (request_completed env lg rq (status_code response) start_time start_timestamp p), Inr response))"

definition fastapi_logging_middleware ::
  "log_env \<Rightarrow> string option \<Rightarrow> ('a \<Rightarrow> int) \<Rightarrow> proc \<Rightarrow> proc \<times> ((request \<Rightarrow> proc \<Rightarrow> proc \<times> 'a res) \<Rightarrow> request \<Rightarrow> proc \<Rightarrow> proc \<times> 'a res) res" where
  "fastapi_logging_middleware env logger status_code p =
     (case resolve_logger env ''fastapi-service'' logger p of
        (p, Inl e) \<Rightarrow> (p, Inl e) | (p, Inr lg) \<Rightarrow> (p, Inr (dispatch_request env lg status_code)))"

subsection \<open>Lines that are written\<close>

definition jsonable :: "pyval \<Rightarrow> bool" where "jsonable v \<longleftrightarrow> (\<exists>s. dumps v = Inr s)"

lemma dumps_fields_total: "\<forall>(k, v) \<in> set kvs. jsonable v \<Longrightarrow> \<exists>ss. dumps_fields kvs = Inr ss"
  by (induction kvs) (auto simp: jsonable_def)

lemma jsonable_simps [simp]:
  "jsonable PyNone" "jsonable (PyStr s)" "jsonable (PyInt i)" "jsonable (PyFloat x)" "jsonable (PyBool b)"
  by (simp_all add: jsonable_def)

lemma jsonable_dict: "\<forall>(k, v) \<in> set kvs. jsonable v \<Longrightarrow> jsonable (PyDict kvs)"
  using dumps_fields_total [of kvs] by (auto simp: jsonable_def)

definition jsonable_trace :: "trace_state \<Rightarrow> bool" where
  "jsonable_trace st \<longleftrightarrow> jsonable (ts_trace_id st) \<and> jsonable (ts_span_id st) \<and> jsonable (ts_parent_span_id st) \<and>
     jsonable (ts_correlation_id st) \<and> jsonable (ts_pipeline_stage st)"

text \<open>The entry is the line of an event of the given trace, stage and type.\<close>

definition line_reports :: "pyval \<Rightarrow> pyval \<Rightarrow> string \<Rightarrow> log_output \<Rightarrow> bool" where
  "line_reports tid stage et x \<longleftrightarrow> (\<exists>s v. x = Line s \<and> dumps (PyDict (serialise_event v)) = Inr s \<and>
     lv_trace_id v = tid \<and> lv_pipeline_stage v = stage \<and> lv_event_type v = et)"

definition able :: "string \<Rightarrow> proc \<Rightarrow> bool" where
  "able lg p \<longleftrightarrow> configured lg p \<and> lr_level (logger_of lg p) \<le> 20 \<and> initialised (lo_service (pr_rest p))"

lemma able_cong: "lo_loggers (pr_rest p) = lo_loggers (pr_rest q) \<Longrightarrow> lo_service (pr_rest p) = lo_service (pr_rest q) \<Longrightarrow> able lg p = able lg q"
  using configured_cong [of p q lg] by (simp add: able_def logger_of_def)

text \<open>Whatever context a process is in, a value that has a JSON form is written.\<close>

definition writable :: "proc \<Rightarrow> bool" where
  "writable p \<longleftrightarrow> (\<forall>st. pr_trace p = Some st \<longrightarrow> jsonable_trace st)"

lemma log_call_line:
  assumes able: "able lg p" and level: "20 \<le> level" and ctx: "writable p" and tid: "jsonable tid"
    and md: "\<forall>(k, v) \<in> set md. jsonable v" and err: "\<forall>e. err = Some e \<longrightarrow> jsonable (error_dict e)"
  obtains s v where "lo_output (pr_rest (log_call env lg level m et (Some md) tid err p)) = lo_output (pr_rest p) @ [Line s]"
    "dumps (PyDict (serialise_event v)) = Inr s"
    "build_log_event (lo_service (pr_rest p)) (pr_trace p) (call_record env level m et (Some md) tid err p) = Inr v"
proof -
  let ?r = "call_record env level m et (Some md) tid err p"
  obtain v where v: "build_log_event (lo_service (pr_rest p)) (pr_trace p) ?r = Inr v"
    using able build_log_event_Inr [of "lo_service (pr_rest p)" "pr_trace p" ?r] by (auto simp: able_def)
  have "jsonable (case err of None \<Rightarrow> PyNone | Some e \<Rightarrow> error_dict e)" using err by (simp split: option.split)
  moreover have "jsonable (lv_trace_id v) \<and> jsonable (lv_parent_trace_id v) \<and> jsonable (lv_correlation_id v) \<and> jsonable (lv_pipeline_stage v) \<and>
      lv_error v = err \<and> lv_metadata v = md"
    using v ctx tid by (auto simp: build_log_event_def call_record_def writable_def jsonable_trace_def bind_res_def split: sum.splits option.split)
  ultimately have "jsonable (PyDict (serialise_event v))" using jsonable_dict [OF md] by (intro jsonable_dict) (simp add: serialise_event_def)
  then obtain s where s: "dumps (PyDict (serialise_event v)) = Inr s" by (auto simp: jsonable_def)
  have "run_handler ?r p StructuredHandler = Line s" using v s by (simp add: run_handler_def format_record_def del: dumps.simps)
  moreover have "\<not> level < lr_level (logger_of lg p)" using able level by (simp add: able_def)
  ultimately show thesis using log_call_output [of lg p env level m et "Some md" tid err] able v s by (intro that) (simp_all add: able_def del: dumps.simps)
qed

lemma log_call_reports:
  assumes able: "able lg p" and level: "20 \<le> level" and st: "pr_trace p = Some st" "jsonable_trace st"
    and md: "\<forall>(k, v) \<in> set md. jsonable v" and err: "\<forall>e. err = Some e \<longrightarrow> jsonable (error_dict e)"
  shows "\<exists>x. lo_output (pr_rest (log_call env lg level m et (Some md) PyNone err p)) = lo_output (pr_rest p) @ [x] \<and>
     line_reports (ts_trace_id st) (ts_pipeline_stage st) et x"
proof -
  have "writable p" using st by (simp add: writable_def)
  with able level obtain s v where "lo_output (pr_rest (log_call env lg level m et (Some md) PyNone err p)) = lo_output (pr_rest p) @ [Line s]"
    "dumps (PyDict (serialise_event v)) = Inr s"
    "build_log_event (lo_service (pr_rest p)) (pr_trace p) (call_record env level m et (Some md) PyNone err p) = Inr v"
    using md err by (rule log_call_line [OF _ _ _ jsonable_simps(1)])
  then show ?thesis using st(1) by (auto simp: line_reports_def build_log_event_def call_record_def bind_res_def split: sum.splits simp del: dumps.simps)
qed

subsection \<open>Entering an invocation\<close>

text \<open>The trace an invocation joins: that of its headers, else the one in place, else a new one.\<close>

definition joined_trace :: "ids \<Rightarrow> (string \<Rightarrow> pyval) option \<Rightarrow> proc \<Rightarrow> pyval" where
  "joined_trace fresh headers p =
     (if \<exists>get. headers = Some get \<and> truthy (get TRACE_HEADER_TRACE_ID) then the headers TRACE_HEADER_TRACE_ID
      else case pr_trace p of Some st \<Rightarrow> ts_trace_id st | None \<Rightarrow> PyStr (fresh (pr_ids p)))"

definition jsonable_headers :: "(string \<Rightarrow> pyval) option \<Rightarrow> bool" where
  "jsonable_headers headers \<longleftrightarrow> (\<forall>get. headers = Some get \<longrightarrow> (\<forall>k \<in> header_names. jsonable (get k)))"

lemma open_invocation_joins:
  assumes "jsonable_headers headers" and "\<forall>st. pr_trace p = Some st \<longrightarrow> jsonable_trace st"
  obtains q t s st where "open_invocation env stage headers p = (q, t, s)" "pr_rest q = pr_rest p" "pr_trace q = Some st"
    "ts_trace_id st = joined_trace (en_fresh env) headers p" "stage = [] \<or> ts_pipeline_stage st = PyStr stage" "jsonable_trace st"
proof -
  let ?p = "tick (tick p)"
  define e where "e = (case headers of Some get \<Rightarrow> extract_headers (en_fresh env) get ?p | None \<Rightarrow> ?p)"
  have e: "pr_rest e = pr_rest p" "\<forall>st. pr_trace e = Some st \<longrightarrow> jsonable_trace st"
    using assms by (auto simp: e_def extract_headers_def start_trace_simps Let_def jsonable_trace_def jsonable_headers_def header_names_def split: option.split)
  have tid: "case pr_trace e of Some st \<Rightarrow> ts_trace_id st = joined_trace (en_fresh env) headers p
      | None \<Rightarrow> joined_trace (en_fresh env) headers p = PyStr (en_fresh env (pr_ids e))"
    by (auto simp: e_def extract_headers_def start_trace_simps Let_def joined_trace_def split: option.split)
  define q where "q = (if pr_trace e = None then fst (start_trace (en_fresh env) PyNone PyNone (PyStr stage) e) else fst (child_trace (en_fresh env) (PyStr stage) e))"
  have o: "open_invocation env stage headers p = (q, en_perf env (pr_ticks p), isoformat (en_now env (pr_ticks (tick p))))"
    unfolding open_invocation_def read_perf_def read_now_def by (simp add: Let_def e_def q_def)
  show thesis
  proof (cases "pr_trace e")
    case None
    then show thesis using that [OF o] e(1) tid by (auto simp: q_def start_trace_simps Let_def jsonable_trace_def)
  next
    case (Some cur)
    then show thesis using that [OF o] e tid by (auto simp: q_def child_trace_Some Let_def jsonable_trace_def)
  qed
qed

subsection \<open>One invocation of a worker\<close>

text \<open>
  A handler that leaves the context and the configuration of logging as it found them, and
  whose own entries are the list \<open>out\<close>.
\<close>

definition behaves :: "proc \<Rightarrow> proc \<Rightarrow> log_output list \<Rightarrow> bool" where
  "behaves q q' out \<longleftrightarrow> pr_trace q' = pr_trace q \<and> lo_loggers (pr_rest q') = lo_loggers (pr_rest q) \<and>
     lo_service (pr_rest q') = lo_service (pr_rest q) \<and> lo_output (pr_rest q') = lo_output (pr_rest q) @ out"

text \<open>The event of the last line of a worker, where it has one.\<close>

definition closing_event :: "'a res \<Rightarrow> string option" where
  "closing_event r = (case r of
     Inr _ \<Rightarrow> Some ''worker.execution.completed''
   | Inl e \<Rightarrow> if exn_type e = ''CancelledError'' then Some ''worker.execution.cancelled''
             else if is_exception e then Some ''worker.execution.failure'' else None)"

definition worker_close :: "log_env \<Rightarrow> string \<Rightarrow> string \<Rightarrow> pyval \<Rightarrow> pyfloat \<Rightarrow> 'a res \<Rightarrow> proc \<Rightarrow> proc" where
  "worker_close env lg queue message start_time r p = (case r of
     Inr _ \<Rightarrow> worker_completed env lg queue start_time p
   | Inl e \<Rightarrow> if exn_type e = ''CancelledError'' then worker_cancelled env lg queue start_time p
             else if is_exception e then worker_failed env lg queue message start_time e p else p)"

lemma worker_close_reports:
  assumes able: "able lg p" and st: "pr_trace p = Some st" "jsonable_trace st"
  shows "\<exists>ys. lo_output (pr_rest (worker_close env lg queue message t r p)) = lo_output (pr_rest p) @ ys \<and>
     (case closing_event r of None \<Rightarrow> ys = [] | Some et \<Rightarrow> \<exists>y. ys = [y] \<and> line_reports (ts_trace_id st) (ts_pipeline_stage st) et y)"
proof -
  have able': "able lg (tick p)" using able able_cong [of "tick p" p lg] by simp
  note call = log_call_reports [OF able' _ _ st(2), unfolded put_out_simps(7), OF _ st(1)]
  have md: "\<forall>(k, v) \<in> set [(''queue_name'', PyStr queue), (''duration_ms'', PyFloat d), (''retry_count'', PyInt n), (''exception_type'', PyStr et)]. jsonable v"
    "\<forall>(k, v) \<in> set [(''queue_name'', PyStr queue), (''duration_ms'', PyFloat d)]. jsonable v" for d n et by simp_all
  have err: "jsonable (error_dict \<lparr>se_error_code = c, se_message = m, se_exception_type = PyNone, se_stack_trace = PyNone, se_severity = PyNone,
      se_retryable = PyNone, se_origin = PyNone, se_metadata = PyDict d\<rparr>)" if "\<forall>(k, v) \<in> set d. jsonable v" for c m d
    unfolding error_dict_def by (rule jsonable_dict) (use jsonable_dict [OF that] in simp)
  have completed: "\<exists>x. lo_output (pr_rest (worker_completed env lg queue t p)) = lo_output (pr_rest p) @ [x] \<and>
      line_reports (ts_trace_id st) (ts_pipeline_stage st) ''worker.execution.completed'' x"
    using call [of 20 _ None, OF _ md(2)] by (simp add: worker_completed_def elapsed_ms_def read_perf_def log_info_def)
  have cancelled: "\<exists>x. lo_output (pr_rest (worker_cancelled env lg queue t p)) = lo_output (pr_rest p) @ [x] \<and>
      line_reports (ts_trace_id st) (ts_pipeline_stage st) ''worker.execution.cancelled'' x"
    using call [of 20 _ None, OF _ md(2)] by (simp add: worker_cancelled_def elapsed_ms_def read_perf_def log_info_def)
  have failed: "\<exists>x. lo_output (pr_rest (worker_failed env lg queue message t e p)) = lo_output (pr_rest p) @ [x] \<and>
      line_reports (ts_trace_id st) (ts_pipeline_stage st) ''worker.execution.failure'' x" for e
    using call [of 40, OF _ md(1)] err [OF md(1)] by (simp add: worker_failed_def elapsed_ms_def read_perf_def emit_error_def)
  show ?thesis using completed cancelled failed [of "projl r"]
    by (cases r) (auto simp: worker_close_def closing_event_def)
qed

lemma async_wrapper_unfold:
  "async_wrapper env lg queue handler message p =
     (case open_invocation env ''worker_execution'' (headers_of message) p of (q, t, s) \<Rightarrow>
      case handler message (worker_started env lg queue s q) of (q', r) \<Rightarrow> (end_trace (worker_close env lg queue message t r q'), r))"
  by (simp add: async_wrapper_def worker_close_def split: prod.split sum.split)

lemma sync_wrapper_unfold:
  "sync_wrapper env lg queue handler message p =
     (case open_invocation env ''worker_execution'' (headers_of message) p of (q, t, s) \<Rightarrow>
      case handler message (worker_started env lg queue s q) of
        (q', r) \<Rightarrow> (end_trace (if \<exists>e. r = Inl e \<and> exn_type e = ''CancelledError'' then q' else worker_close env lg queue message t r q'), r))"
  by (auto simp: sync_wrapper_def worker_close_def is_exception_def split: prod.split sum.split)

text \<open>
  C39: one invocation of a coroutine worker. Whatever the handler returns or raises is what
  the wrapper returns or raises. The worker writes a line when it starts and, around the
  handler's own lines, one when it completes, fails or is cancelled, none for an
  interrupt; both belong to the trace the message carries, or to the one in place, or to a
  new one. Afterwards no trace is in place.
\<close>

theorem worker_invocation:
  assumes able: "able lg p" and hd: "jsonable_headers (headers_of message)" "\<forall>st. pr_trace p = Some st \<longrightarrow> jsonable_trace st"
    and h: "\<And>q. \<exists>q' r out. handler message q = (q', r) \<and> behaves q q' out"
  shows "\<exists>q q' r out first ys. handler message q = (q', r) \<and> behaves q q' out \<and> snd (async_wrapper env lg queue handler message p) = r \<and>
     pr_trace (fst (async_wrapper env lg queue handler message p)) = None \<and>
     lo_output (pr_rest (fst (async_wrapper env lg queue handler message p))) = lo_output (pr_rest p) @ first # out @ ys \<and>
     line_reports (joined_trace (en_fresh env) (headers_of message) p) (PyStr ''worker_execution'') ''worker.execution.started'' first \<and>
     (case closing_event r of
        None \<Rightarrow> ys = []
      | Some et \<Rightarrow> \<exists>y. ys = [y] \<and> line_reports (joined_trace (en_fresh env) (headers_of message) p) (PyStr ''worker_execution'') et y)"
proof -
  obtain q t s st where o: "open_invocation env ''worker_execution'' (headers_of message) p = (q, t, s)" "pr_rest q = pr_rest p" "pr_trace q = Some st"
      "ts_trace_id st = joined_trace (en_fresh env) (headers_of message) p" "ts_pipeline_stage st = PyStr ''worker_execution''" "jsonable_trace st"
    using open_invocation_joins [OF hd, of env "''worker_execution''"] by (metis list.distinct(1))
  let ?q1 = "worker_started env lg queue s q"
  have able_q: "able lg q" using able able_cong [of p q lg] o(2) by simp
  have "\<exists>x. lo_output (pr_rest ?q1) = lo_output (pr_rest q) @ [x] \<and> line_reports (ts_trace_id st) (ts_pipeline_stage st) ''worker.execution.started'' x"
    unfolding worker_started_def log_info_def by (rule log_call_reports [OF able_q _ o(3,6)]) simp_all
  then obtain first where first: "lo_output (pr_rest ?q1) = lo_output (pr_rest q) @ [first]" "line_reports (ts_trace_id st) (ts_pipeline_stage st) ''worker.execution.started'' first" by blast
  have q1: "pr_trace ?q1 = Some st" "able lg ?q1"
    using o(3) able_q able_cong [of ?q1 q lg] by (simp_all add: worker_started_def log_info_def)
  obtain q' r out where b: "handler message ?q1 = (q', r)" "behaves ?q1 q' out" using h by blast
  then have q': "pr_trace q' = Some st" "able lg q'" using q1 able_cong [of q' ?q1 lg] by (simp_all add: behaves_def)
  obtain ys where ys: "lo_output (pr_rest (worker_close env lg queue message t r q')) = lo_output (pr_rest q') @ ys"
      "case closing_event r of None \<Rightarrow> ys = [] | Some et \<Rightarrow> \<exists>y. ys = [y] \<and> line_reports (ts_trace_id st) (ts_pipeline_stage st) et y"
    using worker_close_reports [OF q'(2,1) o(6)] by blast
  have w: "async_wrapper env lg queue handler message p = (end_trace (worker_close env lg queue message t r q'), r)"
    using o(1) b(1) by (simp add: async_wrapper_unfold)
  show ?thesis
    by (rule exI [of _ ?q1], rule exI [of _ q'], rule exI [of _ r], rule exI [of _ out], rule exI [of _ first], rule exI [of _ ys])
      (use b first [unfolded o(4,5)] ys(1) ys(2) [unfolded o(4,5)] o(2) in \<open>simp add: w end_trace_def clear_trace_def behaves_def\<close>)
qed

text \<open>
  The other wrapper differs on a cancellation only, which is no \<^verbatim>\<open>Exception\<close>: it logs nothing.
\<close>

lemma sync_async_agree:
  assumes "\<And>q e. snd (handler message q) = Inl e \<Longrightarrow> exn_type e \<noteq> ''CancelledError''"
  shows "sync_wrapper env lg queue handler message p = async_wrapper env lg queue handler message p"
proof -
  obtain q t s where o: "open_invocation env ''worker_execution'' (headers_of message) p = (q, t, s)" by (metis prod_cases3)
  obtain q' r where b: "handler message (worker_started env lg queue s q) = (q', r)" by fastforce
  then have "\<nexists>e. r = Inl e \<and> exn_type e = ''CancelledError''" using assms [of "worker_started env lg queue s q"] by auto
  then show ?thesis using o b by (auto simp: sync_wrapper_unfold async_wrapper_unfold)
qed

subsection \<open>Invocations of a Lambda function\<close>

lemma log_call_trace: "pr_trace (emit_error env lg c m et md tid a b d f g p) = pr_trace p" "pr_trace (log_info env lg m et md tid p) = pr_trace p"
  by (simp_all add: emit_error_def log_info_def)

lemma lambda_trace:
  assumes h: "\<And>q. pr_trace (fst (handler event context q)) = pr_trace q"
  shows "pr_trace (fst (lambda_wrapper env lg flag handler event context p)) = pr_trace (fst (open_invocation env ''lambda_invocation'' (headers_of event) p))"
proof -
  obtain q t s where o: "open_invocation env ''lambda_invocation'' (headers_of event) p = (q, t, s)" by (metis prod_cases3)
  let ?q1 = "invocation_started env lg flag event (cold_start env lg context q)"
  have "pr_trace ?q1 = pr_trace q"
    by (auto simp: invocation_started_def cold_start_def Let_def log_call_trace split: pyval.split)
  then show ?thesis using h [of ?q1] o
    by (auto simp: lambda_wrapper_def invocation_failed_def invocation_completed_def elapsed_ms_def read_perf_def log_call_trace split: prod.split sum.split)
qed

lemma open_invocation_trace:
  "\<exists>st. pr_trace (fst (open_invocation env stage headers p)) = Some st \<and> ts_trace_id st = joined_trace (en_fresh env) headers p"
  "\<forall>get. headers = Some get \<longrightarrow> \<not> truthy (get TRACE_HEADER_TRACE_ID) \<Longrightarrow> pr_trace p = Some cur \<Longrightarrow>
     \<exists>st. pr_trace (fst (open_invocation env stage headers p)) = Some st \<and> ts_trace_id st = ts_trace_id cur \<and> ts_parent_span_id st = ts_span_id cur"
  by (auto simp: open_invocation_def read_perf_def read_now_def Let_def extract_headers_def start_trace_simps child_trace_def generate_id_def joined_trace_def
      split: option.split)

text \<open>
  A Lambda function never leaves its trace. After an invocation the context stays in
  place, so that the next invocation of a warm process, when its event carries no trace of
  its own, continues the trace of the previous one, as a child of its span.
\<close>

theorem warm_invocations_share_trace:
  assumes "\<And>q. pr_trace (fst (handler1 event1 context1 q)) = pr_trace q" "\<And>q. pr_trace (fst (handler2 event2 context2 q)) = pr_trace q"
    and "event2 = PyDict d" "\<not> truthy (dict_item d TRACE_HEADER_TRACE_ID)"
  shows "\<exists>st1 st2. pr_trace (fst (lambda_wrapper env lg flag handler1 event1 context1 p)) = Some st1 \<and>
     ts_trace_id st1 = joined_trace (en_fresh env) (headers_of event1) p \<and>
     pr_trace (fst (lambda_wrapper env lg flag handler2 event2 context2 (fst (lambda_wrapper env lg flag handler1 event1 context1 p)))) = Some st2 \<and>
     ts_trace_id st2 = ts_trace_id st1 \<and> ts_parent_span_id st2 = ts_span_id st1"
proof -
  let ?p1 = "fst (lambda_wrapper env lg flag handler1 event1 context1 p)"
  obtain st1 where st1: "pr_trace ?p1 = Some st1" "ts_trace_id st1 = joined_trace (en_fresh env) (headers_of event1) p"
    using lambda_trace [of handler1, OF assms(1)] open_invocation_trace(1) by metis
  have "\<forall>get. headers_of event2 = Some get \<longrightarrow> \<not> truthy (get TRACE_HEADER_TRACE_ID)" using assms(3,4) by (auto simp: headers_of_def)
  from open_invocation_trace(2) [OF this st1(1), of env "''lambda_invocation''"] lambda_trace [of handler2, OF assms(2)] st1
  show ?thesis by metis
qed

text \<open>A dead-lettered message leaves its trace in place as well.\<close>

lemma dead_letter_leaves_trace:
  assumes "truthy (dict_item message TRACE_HEADER_TRACE_ID)" and "logger = Some lg"
  shows "\<exists>st. pr_trace (fst (log_dead_letter_event env message queue logger p)) = Some st \<and> ts_trace_id st = dict_item message TRACE_HEADER_TRACE_ID"
  using assms by (simp add: log_dead_letter_event_def resolve_logger_def log_call_trace extract_headers_def start_trace_simps Let_def)

definition demo_message :: pyval where
  "demo_message = PyDict [(TRACE_HEADER_TRACE_ID, PyStr ''t1''), (''attributes'', PyDict [(''ApproximateReceiveCount'', PyStr ''3'')])]"

lemma demo_message_ok: "jsonable_headers (headers_of demo_message)" "joined_trace fresh (headers_of demo_message) p = PyStr ''t1''"
proof -
  have "k \<noteq> ''attributes''" if "k \<in> header_names" for k using that by (auto simp: header_names_def trace_header_defs)
  then show "jsonable_headers (headers_of demo_message)"
    by (auto simp: demo_message_def headers_of_def jsonable_headers_def dict_item_def dict_get_default_def)
  show "joined_trace fresh (headers_of demo_message) p = PyStr ''t1''"
    by (simp add: demo_message_def headers_of_def joined_trace_def dict_item_def dict_get_default_def)
qed

lemma demo_able: "able ''app'' demo_process" "pr_trace demo_process = Some st \<Longrightarrow> jsonable_trace st"
  using demo_process_ok by (simp_all add: able_def) (auto simp: demo_state_def jsonable_trace_def)

theorem worker_invocation_witness:
  "\<exists>first y. lo_output (pr_rest (fst (async_wrapper demo_log_env ''app'' ''jobs'' (\<lambda>m q. (q, Inl (ValueError ''boom'') :: unit res)) demo_message demo_process))) = [first, y] \<and>
     line_reports (PyStr ''t1'') (PyStr ''worker_execution'') ''worker.execution.failure'' y \<and>
     snd (async_wrapper demo_log_env ''app'' ''jobs'' (\<lambda>m q. (q, Inl (ValueError ''boom'') :: unit res)) demo_message demo_process) = Inl (ValueError ''boom'')"
proof -
  let ?h = "\<lambda>(m :: pyval) (q :: proc). (q, Inl (ValueError ''boom'') :: unit res)"
  have h: "\<exists>q' r out. ?h demo_message q = (q', r) \<and> behaves q q' out" for q
    by (intro exI [of _ q] exI [of _ "Inl (ValueError ''boom'')"] exI [of _ "[]"]) (simp add: behaves_def)
  have c: "closing_event (Inl (ValueError ''boom'') :: unit res) = Some ''worker.execution.failure''" by (simp add: closing_event_def is_exception_def)
  have d: "\<forall>st. pr_trace demo_process = Some st \<longrightarrow> jsonable_trace st" using demo_able(2) by blast
  obtain q q' r out first ys where w: "?h demo_message q = (q', r)" "behaves q q' out"
      "snd (async_wrapper demo_log_env ''app'' ''jobs'' ?h demo_message demo_process) = r"
      "lo_output (pr_rest (fst (async_wrapper demo_log_env ''app'' ''jobs'' ?h demo_message demo_process))) = lo_output (pr_rest demo_process) @ first # out @ ys"
      "case closing_event r of None \<Rightarrow> ys = [] | Some et \<Rightarrow> \<exists>y. ys = [y] \<and>
        line_reports (joined_trace (en_fresh demo_log_env) (headers_of demo_message) demo_process) (PyStr ''worker_execution'') et y"
    using worker_invocation [OF demo_able(1) demo_message_ok(1) d h, of demo_log_env "''jobs''"] by (elim exE conjE)
  have "out = []" "r = Inl (ValueError ''boom'')" using w(1,2) by (auto simp: behaves_def)
  then show ?thesis using w(3-5) c by (auto simp: demo_message_ok(2) demo_process_ok(3))
qed

theorem warm_invocations_share_trace_witness:
  "\<exists>st1 st2. pr_trace (fst (lambda_wrapper demo_log_env ''app'' True (\<lambda>e c q. (q, Inr ())) demo_message PyNone demo_process)) = Some st1 \<and>
     ts_trace_id st1 = PyStr ''t1'' \<and>
     pr_trace (fst (lambda_wrapper demo_log_env ''app'' True (\<lambda>e c q. (q, Inr ())) (PyDict []) PyNone
       (fst (lambda_wrapper demo_log_env ''app'' True (\<lambda>e c q. (q, Inr ())) demo_message PyNone demo_process)))) = Some st2 \<and>
     ts_trace_id st2 = PyStr ''t1''"
  using warm_invocations_share_trace [of "\<lambda>e c q. (q, Inr ())" demo_message PyNone "\<lambda>e c q. (q, Inr ())" "PyDict []" PyNone "[]" demo_log_env "''app''" True demo_process]
  by (auto simp: demo_message_ok(2) dict_item_def dict_get_default_def)

end
