(* ===== verification/Observability.thy ===== *)
theory Observability
  imports Pipeline LogAdapters
begin

text \<open>
  \<^verbatim>\<open>stream_pipeline/streaming/observability.py\<close>: the facade through which the pipeline logs.
  With \<^verbatim>\<open>structured_logging\<close> installed its loggers are those of \<open>StructuredLog\<close>, otherwise
  they hand their records to the standard library. The protocol both keep is a locale; the
  lines a batch produces are written under its laws.
\<close>

subsection \<open>The facade\<close>

datatype facade = StructuredFacade string | StdlibFallback string

definition fallback_emit :: "log_env \<Rightarrow> string \<Rightarrow> int \<Rightarrow> string \<Rightarrow> string \<Rightarrow> (string, pyval) dict option \<Rightarrow> pyval \<Rightarrow> proc \<Rightarrow> proc" where
  "fallback_emit env name level message event_type metadata trace_id p =
     (let md = (case metadata of None \<Rightarrow> [] | Some m \<Rightarrow> m) in log_call env name level message event_type (Some md) trace_id None p)"

definition fallback_info where
  "fallback_info env name message event_type metadata trace_id = fallback_emit env name 20 message event_type metadata trace_id"

definition fallback_warning where
  "fallback_warning env name message event_type metadata trace_id = fallback_emit env name 30 message event_type metadata trace_id"

definition fallback_error where
  "fallback_error env name message event_type metadata trace_id = fallback_emit env name 40 message event_type metadata trace_id"

text \<open>Whether the package can be imported is an argument.\<close>

definition get_logger :: "log_env \<Rightarrow> bool \<Rightarrow> string \<Rightarrow> proc \<Rightarrow> proc \<times> facade res" where
  "get_logger env installed name p =
     (if installed
      then case structured_logger env name p of (p, Inl e) \<Rightarrow> (p, Inl e) | (p, Inr n) \<Rightarrow> (p, Inr (StructuredFacade n))
      else (set_logger name (logger_of name p) p, Inr (StdlibFallback name)))"

text \<open>A line of the pipeline is one call of the method its level names.\<close>

definition trace_argument :: "log_line \<Rightarrow> pyval" where
  "trace_argument l = (case lg_trace_id l of None \<Rightarrow> PyNone | Some t \<Rightarrow> PyStr t)"

definition structured_line :: "log_env \<Rightarrow> string \<Rightarrow> log_line \<Rightarrow> proc \<Rightarrow> proc" where
  "structured_line env name l =
     (let m = lg_message l; et = lg_event_type l; md = Some (lg_metadata l); t = trace_argument l in
      if lg_level l = ''INFO'' then log_info env name m et md t
      else if lg_level l = ''WARNING'' then log_warning env name m et md t
      else log_error env name m et md t None)"

definition fallback_line :: "log_env \<Rightarrow> string \<Rightarrow> log_line \<Rightarrow> proc \<Rightarrow> proc" where
  "fallback_line env name l =
     (let m = lg_message l; et = lg_event_type l; md = Some (lg_metadata l); t = trace_argument l in
      if lg_level l = ''INFO'' then fallback_info env name m et md t
      else if lg_level l = ''WARNING'' then fallback_warning env name m et md t
      else fallback_error env name m et md t)"

definition facade_line :: "log_env \<Rightarrow> facade \<Rightarrow> log_line \<Rightarrow> proc \<Rightarrow> proc" where
  "facade_line env f = (case f of StructuredFacade n \<Rightarrow> structured_line env n | StdlibFallback n \<Rightarrow> fallback_line env n)"

text \<open>The router and the pipeline each log through their own logger.\<close>

definition ROUTER_LOGGER :: string where "ROUTER_LOGGER = ''stream_pipeline.streaming.event_router''"
definition PIPELINE_LOGGER :: string where "PIPELINE_LOGGER = ''stream_pipeline.streaming.realtime_pipeline''"

definition facade_of :: "facade \<Rightarrow> facade \<Rightarrow> log_line \<Rightarrow> facade" where
  "facade_of router pipeline l = (if take 7 (lg_event_type l) = ''router.'' then router else pipeline)"

fun write_lines :: "(log_line \<Rightarrow> proc \<Rightarrow> proc) \<Rightarrow> log_line list \<Rightarrow> proc \<Rightarrow> proc" where
  "write_lines put [] p = p"
| "write_lines put (l # ls) p = write_lines put ls (put l p)"

subsection \<open>Lines fit to be written\<close>

definition loggable :: "log_line \<Rightarrow> bool" where
  "loggable l \<longleftrightarrow> lg_level l \<in> {''INFO'', ''WARNING'', ''ERROR''} \<and> lg_trace_id l \<noteq> Some [] \<and> readable (PyDict (lg_metadata l))"

lemma loggable_log [simp]:
  "loggable (log lv m et t md) \<longleftrightarrow> lv \<in> {''INFO'', ''WARNING'', ''ERROR''} \<and> t \<noteq> [] \<and> readable (PyDict md)"
  by (simp add: loggable_def log_def)

lemma trace_id_of_ne [simp]: "trace_id_of ev \<noteq> []"
  by (simp add: trace_id_of_def str_uuid_def Let_def)

lemma exn_fields_readable [simp]: "map fst (exn_fields e) = [''exception_type'', ''exception_message'']" "\<forall>kv \<in> set (exn_fields e). readable (snd kv)"
  by (simp_all add: exn_fields_def)

lemma run_handlers_loggable:
  assumes "run_handlers strict key ev hs w logs i f = ((w', logs'), r)" and "list_all loggable logs"
  shows "list_all loggable logs'"
  using assms
  by (induction hs arbitrary: w logs i f) (auto simp: Let_def split: prod.splits sum.splits if_splits)

lemma dispatch_loggable:
  assumes "dispatch r w ev = ((w', logs), res)"
  shows "list_all loggable logs"
proof (cases "find_handlers r ev")
  case (Inl e)
  then show ?thesis using assms by (auto simp: dispatch_def Let_def)
next
  case (Inr x)
  obtain hs key fb ls where x: "x = (hs, key, fb, ls)" by (metis prod_cases4)
  have ls: "list_all loggable ls" using Inr x
    by (auto simp: find_handlers_def bind_res_def Let_def split: option.splits sum.splits)
  obtain w2 logs2 res2 where run: "run_handlers (er_strict r) (requested_key ev) ev hs w ls 0 0 = ((w2, logs2), res2)" by (metis prod_cases3 surj_pair)
  have "list_all loggable logs2" using run ls by (rule run_handlers_loggable)
  then show ?thesis using assms ls run Inr x by (auto simp: dispatch_def Let_def split: if_splits sum.splits)
qed

lemma bulkhead_loggable:
  assumes "bulkhead strict call line xs w logs acc = ((w', logs'), r)" and "list_all loggable logs" and "\<And>x e. loggable (line x e)"
  shows "list_all loggable logs'"
  using assms(1,2)
  by (induction xs arbitrary: w logs acc) (auto simp: Let_def assms(3) split: prod.splits sum.splits if_splits)

lemma downstream_loggable:
  assumes "downstream now fresh p ev k ob ems w logs = ((w', logs'), r)" and "list_all loggable logs"
  shows "list_all loggable logs'"
proof -
  obtain w2 ls dr where d: "dispatch (pl_router p) w ev = ((w2, ls), dr)" by (metis prod_cases3 surj_pair)
  have l2: "list_all loggable (logs @ ls)" using dispatch_loggable [OF d] assms(2) by simp
  obtain w3 l3 ds where e: "event_detection_stage p ev w2 (logs @ ls) = ((w3, l3), ds)" by (metis prod_cases3 surj_pair)
  have l3: "list_all loggable l3"
    using e l2 unfolding event_detection_stage_def by (rule bulkhead_loggable) (auto simp: case_prod_beta)
  have l4: "list_all loggable l4" if "emission_detection_stage p ev ems acc w3 l3 = ((w4, l4), ds')" for acc w4 l4 ds'
    using that l3 unfolding emission_detection_stage_def by (rule bulkhead_loggable) (auto simp: case_prod_beta)
  have l5: "list_all loggable l5" if "alert_stage p ev det w4 l = ((w5, l5), as)" "list_all loggable l" for det w4 l w5 l5 as
    using that by (auto simp: alert_stage_def Let_def split: option.splits prod.splits sum.splits)
  have l6: "list_all loggable l6" if "writer_stage p ev k res w5 l = ((w6, l6), as)" "list_all loggable l" for res w5 l w6 l6 as
    using that by (auto simp: writer_stage_def Let_def split: option.splits prod.splits sum.splits)
  have pl: "loggable (processed_log ev k ob dr' n m)" for dr' n m by (auto simp: processed_log_def)
  show ?thesis using assms(1) d e l2 l3
    unfolding downstream_def
    by (auto split: prod.splits sum.splits dest!: l4 l5 l6 simp: pl)
qed

lemma process_loggable:
  assumes "process now fresh p w ev = ((p', w', logs), r)"
  shows "list_all loggable logs"
proof (cases "extract_key p ev")
  case (Inl e)
  then show ?thesis using assms by (auto simp: process_def extraction_log_def)
next
  case (Inr k)
  obtain m ob where m: "wm_observe (pl_watermarks p) k (ev_event_timestamp ev) = (m, ob)" by (rule prod.exhaust)
  show ?thesis
  proof (cases ob)
    case (Inr obs)
    let ?p = "p\<lparr>pl_watermarks := m\<rparr>"
    obtain w1 l1 ems where a: "aggregation_stage ?p ev k obs w = ((w1, l1), ems)" by (metis prod_cases3 surj_pair)
    have l1: "list_all loggable l1"
      using a unfolding aggregation_stage_def by (rule bulkhead_loggable) (auto simp: case_prod_beta)
    show ?thesis using assms \<open>extract_key p ev = Inr k\<close> m Inr a l1 downstream_loggable
      by (auto simp: process_def Let_def split: sum.splits prod.splits)
  qed (use assms \<open>extract_key p ev = Inr k\<close> m in \<open>auto simp: process_def\<close>)
qed

lemma batch_loop_loggable:
  assumes "batch_loop now fresh p w logs evs rs c = ((p', w', logs'), r)" and "list_all loggable logs"
  shows "list_all loggable logs'"
  using assms
proof (induction evs arbitrary: p w logs rs c)
  case (Cons ev evs)
  obtain p1 w1 ls x where q: "process now fresh p w ev = ((p1, w1, ls), x)" by (metis prod_cases4 surj_pair)
  have "list_all loggable (logs @ ls)" using process_loggable [OF q] Cons.prems(2) by simp
  then show ?case using Cons q by (auto split: sum.splits)
qed simp

lemma process_batch_loggable:
  assumes "process_batch now fresh p w evs = ((p', w', logs), r)"
  shows "list_all loggable logs"
proof -
  obtain s x where b: "batch_loop now fresh p w [] evs [] no_counts = (s, x)" by (rule prod.exhaust)
  obtain p1 w1 ls where s: "s = (p1, w1, ls)" by (metis prod_cases3)
  have "list_all loggable ls" using batch_loop_loggable [OF b [unfolded s]] by simp
  then show ?thesis using assms b s by (auto simp: process_batch_def summary_log_def loggable_def split: sum.splits)
qed

subsection \<open>The protocol of a logger\<close>

text \<open>
  The entry is a line of JSON that reads back as the event of a pipeline line, in the given
  trace context.
\<close>

definition says :: "trace_state option \<Rightarrow> log_line \<Rightarrow> log_output \<Rightarrow> bool" where
  "says tr l x \<longleftrightarrow> (\<exists>s v. x = Line s \<and> (\<forall>foreign. loads foreign s = Inr (PyDict (serialise_event v))) \<and> lv_level v = lg_level l \<and>
     lv_message v = lg_message l \<and> lv_event_type v = lg_event_type l \<and> lv_metadata v = lg_metadata l \<and>
     lv_trace_id v = (case lg_trace_id l of Some t \<Rightarrow> PyStr t | None \<Rightarrow> (case tr of Some st \<Rightarrow> ts_trace_id st | None \<Rightarrow> PyNone)))"

text \<open>A process whose trace context has a JSON form that reads back.\<close>

definition legible :: "proc \<Rightarrow> bool" where
  "legible p \<longleftrightarrow> (\<forall>st. pr_trace p = Some st \<longrightarrow> (\<forall>v \<in> {ts_trace_id st, ts_span_id st, ts_parent_span_id st, ts_correlation_id st, ts_pipeline_stage st}. readable v))"

lemma legible_writable: "legible p \<Longrightarrow> writable p"
  using readable_dumps(1) by (auto simp: legible_def writable_def jsonable_trace_def jsonable_def)

text \<open>
  A logger leaves the context and the configuration alone and, where the handler of its
  name is installed, turns a line into one entry.
\<close>

locale logger_like =
  fixes put :: "log_env \<Rightarrow> string \<Rightarrow> log_line \<Rightarrow> proc \<Rightarrow> proc"
  assumes keeps: "pr_trace (put env n l p) = pr_trace p" "lo_service (pr_rest (put env n l p)) = lo_service (pr_rest p)"
      "lo_loggers (pr_rest (put env n l p)) = lo_loggers (pr_rest p)"
    and delivers: "able n p \<Longrightarrow> legible p \<Longrightarrow> loggable l \<Longrightarrow>
      \<exists>x. lo_output (pr_rest (put env n l p)) = lo_output (pr_rest p) @ [x] \<and> says (pr_trace p) l x"
begin

lemma lines_written:
  assumes "legible p" and "list_all (\<lambda>l. loggable l \<and> able (name l) p) ls"
  shows "\<exists>xs. lo_output (pr_rest (write_lines (\<lambda>l. put env (name l) l) ls p)) = lo_output (pr_rest p) @ xs \<and>
     list_all2 (says (pr_trace p)) ls xs \<and> pr_trace (write_lines (\<lambda>l. put env (name l) l) ls p) = pr_trace p"
  using assms
proof (induction ls arbitrary: p)
  case (Cons l ls)
  let ?q = "put env (name l) l p"
  obtain x where x: "lo_output (pr_rest ?q) = lo_output (pr_rest p) @ [x]" "says (pr_trace p) l x"
    using delivers [of "name l" p l env] Cons.prems by auto
  have "able n ?q = able n p" for n using keeps by (intro able_cong) simp_all
  moreover have "legible ?q" using Cons.prems(1) keeps(1) by (simp add: legible_def)
  ultimately obtain xs where "lo_output (pr_rest (write_lines (\<lambda>l. put env (name l) l) ls ?q)) = lo_output (pr_rest ?q) @ xs"
    "list_all2 (says (pr_trace ?q)) ls xs" "pr_trace (write_lines (\<lambda>l. put env (name l) l) ls ?q) = pr_trace ?q"
    using Cons.IH [of ?q] Cons.prems(2) by auto
  then show ?case using x keeps(1) by (intro exI [of _ "x # xs"]) simp
qed simp

end

definition level_number :: "string \<Rightarrow> int" where
  "level_number s = (if s = ''INFO'' then 20 else if s = ''WARNING'' then 30 else 40)"

lemma structured_line_call:
  "structured_line env n l p =
     log_call env n (level_number (lg_level l)) (lg_message l) (lg_event_type l) (Some (lg_metadata l)) (trace_argument l) None p"
  by (simp add: structured_line_def log_info_def log_warning_def log_error_def level_number_def Let_def)

text \<open>The two facades hand the same record to the logging backend.\<close>

lemma fallback_line_same: "fallback_line = structured_line"
  by (intro ext) (simp add: structured_line_def fallback_line_def log_info_def log_warning_def log_error_def fallback_info_def
      fallback_warning_def fallback_error_def fallback_emit_def Let_def)

lemma narrow_level_number: "s \<in> {''INFO'', ''WARNING'', ''ERROR''} \<Longrightarrow> narrow_level (level_number s) = s"
  by (auto simp: narrow_level_def level_number_def STANDARD_LEVELS_def)

lemma line_delivered:
  assumes "able n p" "legible p" "loggable l"
  shows "\<exists>x. lo_output (pr_rest (structured_line env n l p)) = lo_output (pr_rest p) @ [x] \<and> says (pr_trace p) l x"
proof -
  have lv: "20 \<le> level_number (lg_level l)" "narrow_level (level_number (lg_level l)) = lg_level l" and t: "jsonable (trace_argument l)"
      and md: "\<forall>(k, v) \<in> set (lg_metadata l). jsonable v"
    using assms(3) narrow_level_number readable_dumps(1) by (auto simp: loggable_def jsonable_def level_number_def trace_argument_def split: option.split)
  have tr: "truthy (trace_argument l) \<longleftrightarrow> lg_trace_id l \<noteq> None"
    using assms(3) by (auto simp: trace_argument_def loggable_def split: option.split)
  obtain s v where o: "lo_output (pr_rest (structured_line env n l p)) = lo_output (pr_rest p) @ [Line s]"
    and s: "dumps (PyDict (serialise_event v)) = Inr s"
    and v: "build_log_event (lo_service (pr_rest p)) (pr_trace p)
        (call_record env (level_number (lg_level l)) (lg_message l) (lg_event_type l) (Some (lg_metadata l)) (trace_argument l) None p) = Inr v"
    unfolding structured_line_call by (rule log_call_line [OF assms(1) lv(1) legible_writable [OF assms(2)] t md, of None env "lg_message l" "lg_event_type l"]) simp_all
  from v have r: "readable (PyDict (serialise_event v))"
    using assms(2,3) t by (auto simp: build_log_event_def call_record_def serialise_event_def legible_def loggable_def trace_argument_def
        split: sum.splits option.splits)
  from v have "lv_level v = lg_level l \<and> lv_message v = lg_message l \<and> lv_event_type v = lg_event_type l \<and> lv_metadata v = lg_metadata l \<and>
      lv_trace_id v = (case lg_trace_id l of Some t \<Rightarrow> PyStr t | None \<Rightarrow> (case pr_trace p of Some st \<Rightarrow> ts_trace_id st | None \<Rightarrow> PyNone))"
    using lv(2) tr by (auto simp: build_log_event_def call_record_def bind_res_def trace_argument_def split: sum.splits option.splits)
  then show ?thesis using o loads_dumps [OF s r] by (intro exI [of _ "Line s"]) (auto simp: says_def)
qed

interpretation structured: logger_like structured_line
  by unfold_locales (auto simp: structured_line_call line_delivered [unfolded structured_line_call])

interpretation fallback: logger_like fallback_line
  unfolding fallback_line_same by unfold_locales (auto simp: structured_line_call line_delivered [unfolded structured_line_call])

lemma get_logger_installs:
  assumes "level_named (map upper (dict_get_default (en_vars env) ''LOG_LEVEL'' ''INFO'')) = Inr lv"
  shows "get_logger env True name p = (fst (structured_logger env name p), Inr (StructuredFacade name))"
    "pr_trace (fst (structured_logger env name p)) = pr_trace p" "lo_service (pr_rest (fst (structured_logger env name p))) = lo_service (pr_rest p)"
    "lo_output (pr_rest (fst (structured_logger env name p))) = lo_output (pr_rest p)"
  using assms by (auto simp: get_logger_def structured_logger_def configure_logger_def set_logger_def Let_def split: prod.split)



end
