(* ===== verification/TestGuard.thy ===== *)
theory TestGuard
  imports Json IsoTime
begin

text \<open>
  \<^verbatim>\<open>check_test_count.py\<close>, the guard of the build against silently lost tests: it compares the
  number of collected tests with a recorded baseline. The state is the content of the
  baseline file, if there is one, and the lines written to the two output streams.
\<close>

subsection \<open>The script\<close>

record guard =
  gd_baseline :: "string option"
  gd_stdout :: "string list"
  gd_stderr :: "string list"

definition print_out :: "string \<Rightarrow> guard \<Rightarrow> guard" where "print_out s g = g\<lparr>gd_stdout := gd_stdout g @ [s]\<rparr>"
definition print_err :: "string \<Rightarrow> guard \<Rightarrow> guard" where "print_err s g = g\<lparr>gd_stderr := gd_stderr g @ [s]\<rparr>"

definition usage :: "guard \<Rightarrow> guard \<times> nat res" where
  "usage g = (print_err ''Usage: check_test_count.py <current_count>'' g, Inr 2)"

text \<open>\<^verbatim>\<open>json.dumps({"tests": current}, indent=2) + "\n"\<close>\<close>

definition baseline_text :: "int \<Rightarrow> string" where
  "baseline_text current = ''{'' @ [CHR 10] @ ''  '' @ json_string ''tests'' @ '': '' @ show_int current @ [CHR 10] @ ''}'' @ [CHR 10]"

text \<open>\<^verbatim>\<open>data["tests"]\<close> and \<^verbatim>\<open>int(v)\<close> for the values a JSON text can hold.\<close>

definition tests_item :: "pyval \<Rightarrow> pyval res" where
  "tests_item data =
     (case data of
        PyDict d \<Rightarrow> (case dict_get d ''tests'' of None \<Rightarrow> Inl (KeyError ''tests'') | Some v \<Rightarrow> Inr v)
      | PyList _ \<Rightarrow> Inl (TypeError ''list indices must be integers or slices, not str'')
      | PyStr _ \<Rightarrow> Inl (TypeError ''string indices must be integers, not str'')
      | v \<Rightarrow> Inl (TypeError (repr_str (type_name v) @ '' object is not subscriptable'')))"

definition int_value :: "pyval \<Rightarrow> int res" where
  "int_value v =
     (case v of
        PyInt i \<Rightarrow> Inr i
      | PyBool b \<Rightarrow> Inr (if b then 1 else 0)
      | PyFloat x \<Rightarrow> Inr (trunc x)
      | PyStr s \<Rightarrow> (case py_int s of Some i \<Rightarrow> Inr i | None \<Rightarrow> Inl (ValueError (''invalid literal for int() with base 10: '' @ repr_str s)))
      | PyObj _ _ \<Rightarrow> Inl (if v = special_float ''nan'' then ValueError ''cannot convert float NaN to integer''
                          else Exn ''OverflowError'' ''cannot convert float infinity to integer'')
      | _ \<Rightarrow> Inl (TypeError (''int() argument must be a string, a bytes-like object or a real number, not '' @ repr_str (type_name v))))"

definition read_baseline :: "(string \<Rightarrow> pyval res) \<Rightarrow> string \<Rightarrow> int res" where
  "read_baseline foreign content = bind_res (loads foreign content) (\<lambda>data. bind_res (tests_item data) int_value)"

definition check :: "(string \<Rightarrow> pyval res) \<Rightarrow> string \<Rightarrow> int \<Rightarrow> guard \<Rightarrow> guard \<times> nat res" where
  "check foreign path current g =
     (if current < 0 then (print_err (''current count '' @ show_int current @ '' is negative; aborting'') g, Inr 2)
      else case gd_baseline g of
          None \<Rightarrow>
            (print_out (''recorded initial baseline: '' @ show_int current @ '' tests'') (g\<lparr>gd_baseline := Some (baseline_text current)\<rparr>), Inr 0)
        | Some content \<Rightarrow>
            (case read_baseline foreign content of
               Inl e \<Rightarrow> (g, Inl e)
             | Inr baseline \<Rightarrow>
                 if current < baseline then
                   (print_err (''FAIL: collected '' @ show_int current @ '' tests, baseline is '' @ show_int baseline @ ''.'' @ [CHR 10] @
                      ''The test count has decreased. If this is intentional, update'' @ [CHR 10] @ path @ '' in this PR.'') g, Inr 1)
                 else if current > baseline then
                   (print_out (''NOTE: collected '' @ show_int current @ '' tests vs baseline '' @ show_int baseline @ ''.'' @ [CHR 10] @
                      ''Test count has grown - please update .test_count.json'' @ [CHR 10] @
                      ''in this PR so the baseline reflects current state.'') g, Inr 0)
                 else (print_out (''OK: '' @ show_int current @ '' tests, matches baseline.'') g, Inr 0)))"

definition guard_main :: "(string \<Rightarrow> pyval res) \<Rightarrow> string \<Rightarrow> string list \<Rightarrow> guard \<Rightarrow> guard \<times> nat res" where
  "guard_main foreign path argv g =
     (case argv of
        [_, arg] \<Rightarrow> (case py_int arg of None \<Rightarrow> usage g | Some current \<Rightarrow> check foreign path current g)
      | _ \<Rightarrow> usage g)"

subsection \<open>The recorded count is a floor\<close>

lemma baseline_reads: "read_baseline foreign (baseline_text n) = Inr n"
proof -
  have num: "scan_once (skip_blank (show_int n @ CHR 10 # r)) = Inr (PyInt n, CHR 10 # r)" for r
  proof -
    have "ends_number (CHR 10 # r)" by (simp add: ends_number_def is_digit_def less_eq_char_def)
    from scan_once_number [OF scan_number_int this] have "scan_once (show_int n @ CHR 10 # r) = Inr (PyInt n, CHR 10 # r)" "opens (show_int n)" by auto
    then show ?thesis by (cases "show_int n") (auto simp: opens_def skip_blank_Cons)
  qed
  have key: "scanstring (''tests'' @ CHR 0x22 # r) = Inr (''tests'', r)" for r by (simp add: prefixed_def)
  have blank: "skip_blank (CHR 10 # r) = skip_blank r" "skip_blank (CHR '' '' # r) = skip_blank r" for r by (simp_all add: skip_blank_def)
  have bt: "baseline_text n = CHR ''{'' # CHR 10 # CHR '' '' # CHR '' '' # CHR 0x22 # ''tests'' @ CHR 0x22 # CHR '':'' # CHR '' '' # show_int n @ CHR 10 # CHR ''}'' # [CHR 10]"
    by (simp add: baseline_text_def json_string_def json_char_def)
  have "raw_loads (baseline_text n) = Inr (PyDict [(''tests'', PyInt n)])"
    unfolding raw_loads_def bt using key num blank by (simp add: scan_once.simps [of "CHR ''{'' # _"] scan_pairs.simps)
  then show ?thesis by (simp add: read_baseline_def loads_def tests_item_def int_value_def)
qed

text \<open>The exit codes of a sequence of runs, each given its count on the command line.\<close>

fun guard_runs :: "(string \<Rightarrow> pyval res) \<Rightarrow> string \<Rightarrow> string list \<Rightarrow> guard \<Rightarrow> guard \<times> nat res list" where
  "guard_runs foreign path [] g = (g, [])"
| "guard_runs foreign path (c # cs) g =
     (case guard_main foreign path [''check_test_count.py'', c] g of (g, r) \<Rightarrow> case guard_runs foreign path cs g of (g, rs) \<Rightarrow> (g, r # rs))"

definition floor_code :: "int \<Rightarrow> string \<Rightarrow> nat" where
  "floor_code n c = (case py_int c of None \<Rightarrow> 2 | Some i \<Rightarrow> if i < 0 then 2 else if i < n then 1 else 0)"

lemma recorded_run:
  assumes "gd_baseline g = Some (baseline_text n)"
  shows "\<exists>g'. guard_main foreign path [x, c] g = (g', Inr (floor_code n c)) \<and> gd_baseline g' = Some (baseline_text n)"
  using assms by (auto simp: guard_main_def usage_def check_def floor_code_def baseline_reads print_err_def print_out_def split: option.split)

lemma recorded_runs:
  assumes "gd_baseline g = Some (baseline_text n)"
  shows "\<exists>g'. guard_runs foreign path cs g = (g', map (Inr \<circ> floor_code n) cs) \<and> gd_baseline g' = Some (baseline_text n)"
  using assms
proof (induction cs arbitrary: g)
  case (Cons c cs)
  obtain g1 where "guard_main foreign path [''check_test_count.py'', c] g = (g1, Inr (floor_code n c))" "gd_baseline g1 = Some (baseline_text n)"
    using recorded_run [OF Cons.prems] by blast
  with Cons.IH [of g1] show ?case by auto
qed simp

lemma unrecorded_runs:
  assumes "gd_baseline g = None" and "\<forall>c \<in> set cs. \<forall>i. py_int c = Some i \<longrightarrow> i < 0"
  shows "\<exists>g'. guard_runs foreign path cs g = (g', map (\<lambda>_. Inr 2) cs) \<and> gd_baseline g' = None"
  using assms
proof (induction cs arbitrary: g)
  case (Cons c cs)
  obtain g1 where "guard_main foreign path [''check_test_count.py'', c] g = (g1, Inr 2)" "gd_baseline g1 = None"
    using Cons.prems by (cases "py_int c") (auto simp: guard_main_def usage_def check_def print_err_def)
  with Cons.IH [of g1] Cons.prems(2) show ?case by auto
qed simp

lemma guard_runs_append:
  "guard_runs foreign path (cs @ ds) g =
     (case guard_runs foreign path cs g of (g, rs) \<Rightarrow> case guard_runs foreign path ds g of (g, rs') \<Rightarrow> (g, rs @ rs'))"
  by (induction cs arbitrary: g) (simp_all split: prod.split)

text \<open>
  C40: the recorded count of tests is a floor. Without a baseline, runs on arguments that are no
  count exit with 2 and record nothing; the first count is recorded and accepted; from then
  on the baseline file is never changed, and a run exits with 1 exactly when its count is
  below the recorded one, with 2 when its argument is no count, and with 0 otherwise.
\<close>

theorem recorded_count_is_floor:
  assumes "gd_baseline g = None" and "\<forall>c \<in> set pre. \<forall>i. py_int c = Some i \<longrightarrow> i < 0" and "py_int first = Some n" "0 \<le> n"
  shows "\<exists>g'. guard_runs foreign path (pre @ first # later) g = (g', map (\<lambda>_. Inr 2) pre @ Inr 0 # map (Inr \<circ> floor_code n) later) \<and>
     gd_baseline g' = Some (baseline_text n) \<and> read_baseline foreign (baseline_text n) = Inr n"
proof -
  obtain g1 where g1: "guard_runs foreign path pre g = (g1, map (\<lambda>_. Inr 2) pre)" "gd_baseline g1 = None"
    using unrecorded_runs [OF assms(1,2)] by blast
  then obtain g2 where g2: "guard_main foreign path [''check_test_count.py'', first] g1 = (g2, Inr 0)" "gd_baseline g2 = Some (baseline_text n)"
    using assms(3,4) by (auto simp: guard_main_def check_def print_out_def)
  with recorded_runs [OF g2(2), of foreign path later] show ?thesis using g1(1) by (auto simp: guard_runs_append baseline_reads)
qed

theorem recorded_count_is_floor_witness:
  "\<exists>g. guard_runs (\<lambda>_. Inl foreign_text) ''p'' [''many'', ''5'', ''4'', ''7''] \<lparr>gd_baseline = None, gd_stdout = [], gd_stderr = []\<rparr> =
     (g, [Inr 2, Inr 0, Inr 1, Inr 0])"
proof -
  let ?g = "\<lparr>gd_baseline = None, gd_stdout = [], gd_stderr = []\<rparr>"
  have c: "py_int ''many'' = None" "py_int ''5'' = Some 5" "floor_code 5 ''4'' = 1" "floor_code 5 ''7'' = 0" by code_simp+
  from recorded_count_is_floor [of ?g "[''many'']" "''5''" 5 "\<lambda>_. Inl foreign_text" "''p''" "[''4'', ''7'']"] c show ?thesis
    by (auto simp del: guard_runs.simps)
qed

end
