(* ===== verification/Spec2Isabelle.thy ===== *)
theory Spec2Isabelle
  imports Deployment Replay StoreClients DeviceRegistry ParserPipeline Observability TestGuard
begin

text \<open>
  A model of the SignalForge telemetry platform: four Python packages that turn captured SIP
  traffic into validated events, aggregate them in event time, detect offline devices,
  outages and anomalies, and deliver alerts, dashboard views and datasets. Every theory
  opens with a note on the files it models; paths below are relative to \<^verbatim>\<open>src/packages\<close>.

  \<^bold>\<open>How the parts interact.\<close> The parser (\<^verbatim>\<open>telemetry-parser\<close>) reassembles TCP segments, frames
  and parses SIP messages and normalises REGISTER requests into events. An event is an
  envelope with a payload that the contracts (\<^verbatim>\<open>event-schema-contracts\<close>) define and check;
  its class is registered under an event type and version. The pipeline
  (\<^verbatim>\<open>stream-pipeline\<close>) takes events one by one: the watermark manager classifies an event as
  on time, tolerated or dropped; the aggregators fold accepted events into windows and
  report windows the watermark has passed; the router calls the handlers of the event type;
  the detectors see events and window reports; alert router, dashboards and the dataset writer
  consume the results. The builder of the replay package composes the production pipeline
  from the settings, and a replay runs it on archived events with isolated targets.
  Logging and tracing (\<^verbatim>\<open>structured-logging-python\<close>) serve the processes around them.

  \<^bold>\<open>Python.\<close> \<open>Prelude\<close>, \<open>Floats\<close>, \<open>FloatText\<close>, \<open>PyTime\<close>, \<open>IsoTime\<close>, \<open>Text\<close>, \<open>Values\<close> and \<open>Json\<close>
  hold what the sources use of the language and its library.
  \<^item> Fallible code returns \<open>exn + 'a\<close>; code that mutates and may raise returns the state it has
    reached together with such a result, so no effect before an exception is lost.
  \<^item> A \<^verbatim>\<open>dict\<close> is an association list in insertion order, a \<^verbatim>\<open>float\<close> the rational it denotes with
    every operation rounded to 53 bits, a \<^verbatim>\<open>datetime\<close> its wall clock in microseconds and its
    offset if it has one, an \<^verbatim>\<open>int\<close> an \<open>int\<close>.
  \<^item> A generator is a function of the loop that consumes it; a log line is a value of the
    result; reading a clock, an environment or a fresh id is an argument.
  \<^item> \<^verbatim>\<open>uuid5\<close> is computed, with SHA-1 on words of 32 bits.
  \<^item> \<^verbatim>\<open>json.loads\<close> is the scanner of the library, and reads back what \<^verbatim>\<open>json.dumps\<close> writes;
    the shortest decimal of a normal double reads back as that double (\<open>FloatText\<close>).

  \<^bold>\<open>Theories and sources.\<close>
  \<^item> \<open>Identity\<close>: \<^verbatim>\<open>base/identity.py\<close>. \<open>Versioning\<close>: \<^verbatim>\<open>versioning/\<close>. \<open>Contracts\<close>: the envelope, the
    payload contracts and the validators (\<^verbatim>\<open>base/\<close>, \<^verbatim>\<open>telemetry/\<close>, \<^verbatim>\<open>detection/\<close>, \<^verbatim>\<open>alerts/\<close>, \<^verbatim>\<open>features/\<close>,
    \<^verbatim>\<open>validation/\<close>). Shown: what a constructed envelope satisfies and when construction fails,
    which versions parse, which schema validates an event, and that an identity is
    registered once.
  \<^item> \<open>Watermark\<close>, \<open>WindowAggregator\<close>, \<open>WindowRuns\<close>: \<^verbatim>\<open>streaming/watermark_manager.py\<close> and
    \<^verbatim>\<open>streaming/window_aggregator.py\<close>. The specification of a window is the list of accepted
    events that fall into it. Shown: the mutable state refines it for every sequence of
    events, a window closes once, the last report is complete, every accepted event is
    reported in the end, and the order of arrival is irrelevant.
  \<^item> \<open>EventRouter\<close>: \<^verbatim>\<open>streaming/event_router.py\<close>. Resolution of a version and dispatch with a
    handler that raises.
  \<^item> \<open>DeviceRegistry\<close>, \<open>Detectors\<close>: \<^verbatim>\<open>detection/\<close>. The two threshold detectors are instances of
    one contract, a detector of edges; the offline detector has a closed form.
  \<^item> \<open>Alerts\<close>, \<open>Dashboards\<close>, \<open>DynamoStore\<close>, \<open>StoreClients\<close>: \<^verbatim>\<open>alerts/\<close> and \<^verbatim>\<open>dashboards/\<close>. The views
    refine the history of detections over any store with the laws of the protocol; listing a
    DynamoDB view returns however results are paged, and anomaly buckets expire as
    configured. A client of the store is a tree of calls and replies, run against either
    backend: no client can tell them apart, so the dashboards on DynamoDB hold the
    history as well.
  \<^item> \<open>Pipeline\<close>, \<open>Datasets\<close>, \<open>Serialisation\<close>: \<^verbatim>\<open>streaming/realtime_pipeline.py\<close> and \<^verbatim>\<open>datasets/\<close>. One
    definition per stage, composed as \<^verbatim>\<open>process\<close> does. Shown: observers that raise are isolated,
    no record is lost or stored twice, tables are canonical, object keys are distinct.
  \<^item> \<open>Settings\<close>, \<open>Replay\<close>, \<open>Deployment\<close>: \<^verbatim>\<open>config/\<close>, \<^verbatim>\<open>replay/\<close>, and the composition of a whole
    deployment. Shown: what valid settings build, that a replay reproduces the live
    results on its own targets, what the replay command does from its file to its exit
    code, and the end-to-end statements on windows and silence.
  \<^item> \<open>TcpStream\<close>, \<open>SipDecoder\<close>, \<open>SipParser\<close>, \<open>ParserPipeline\<close>: \<^verbatim>\<open>telemetry_parser/\<close>. Reassembly
    delivers the stream whatever the order and the repeats, framing equals the cut of the
    whole byte string at its terminators, parsing inverts printing, and together packets
    become exactly the events of the requests they carry. The last theorem below joins this
    to the production pipeline.
  \<^item> \<open>Tracing\<close>, \<open>StructuredLog\<close>, \<open>LogAdapters\<close>: \<^verbatim>\<open>structured_logging/\<close>. Log calls never raise,
    spans and timers restore the context, headers carry a trace to the next service, and
    what the worker, Lambda and FastAPI wrappers do with it.
  \<^item> \<open>Observability\<close>: \<^verbatim>\<open>streaming/observability.py\<close>, the facade through which the pipeline logs. The
    protocol of its loggers is a locale with two interpretations; every line a batch
    produces becomes one line of JSON that reads back as it was.
  \<^item> \<open>TestGuard\<close>: \<^verbatim>\<open>check_test_count.py\<close>, the guard of the build against lost tests. The first
    recorded count is a floor for every later run.

  \<^bold>\<open>Termination and bounds.\<close> Loops over data are structural recursions; the flush of buffered
  segments, framing, the split and the decoding of text, the JSON scanner and the count
  over buckets are total by a measure on what is left. Fuel occurs once, in printing a
  float (\<open>show_float\<close>: 400 steps, which \<open>dec_exp_bounds\<close> shows enough, and at most 17 digits). The
  paginated query may run forever on a client that repeats a page, so it is a partial
  function into \<open>option\<close>, and its theorem states that it returns on every client that
  advances. Timestamps and sizes are unbounded integers as in Python; statements that need
  exact float conversions bound the moment (\<open>bucket_expiry\<close>: below 2^51 microseconds, the
  years 1899 to 2041).

  \<^bold>\<open>Parameters.\<close> Code outside the repository is an argument: the clients of the event bus, the
  object store and DynamoDB, the Parquet encoder, pydantic's messages, the archive reader of a
  replay, the parsing of IPv6 addresses, text beyond the first 256 code points, the clocks.
  Laws used of them are named (\<open>lawful_client\<close> and \<open>serves\<close> for a DynamoDB table, \<open>registers\<close>
  for the acceptance of an address), and each is met by a concrete instance in a witness.

  \<^bold>\<open>Not modelled.\<close>
  \<^item> Coercion by pydantic of values of other types than declared: a constructor takes values
    of the declared types.
  \<^item> Overflow of a float to infinity and subnormal floats; the settings, which read floats from
    text, do treat infinity and not-a-number.
  \<^item> The limits of \<^verbatim>\<open>datetime\<close> to the years 1 to 9999 in arithmetic on timestamps, and memory.
  \<^item> Concurrency inside one process: the sources hold no locks and are written for one thread;
    a context variable is a field of the process.
  \<^item> Package \<^verbatim>\<open>__init__\<close> files that only re-export, type-only protocols, and the default
    client factories, which only call the cloud library.
  \<^item> The recursion limit of the JSON scanner, and the limit on the digits of an \<^verbatim>\<open>int\<close>.
\<close>

subsection \<open>From the wire to a detection\<close>

text \<open>
  The pipeline reads the events of the parser through their attributes: the same object,
  with its payload seen as a value that has the attributes the pipeline looks up.
\<close>

definition payload_object :: "sip_registration_payload \<Rightarrow> pyval" where
  "payload_object p = PyObj ''SipRegistrationPayload''
     [(''device_id'', PyUUID (sr_device_id p)), (''device_label'', PyStr (sr_device_label p)), (''store_id'', PyStr (sr_store_id p)),
      (''observed_at'', PyDT (sr_observed_at p))]"

definition as_event :: "sip_event \<Rightarrow> event" where
  "as_event ev = \<lparr>ev_event_id = ev_event_id ev, ev_metadata = ev_metadata ev, ev_trace = ev_trace ev,
     ev_event_timestamp = ev_event_timestamp ev, ev_ingest_timestamp = ev_ingest_timestamp ev, ev_payload = payload_object (ev_payload ev)\<rparr>"

lemma parsed_event_registers:
  assumes "registers env store_id r x" "aware now" "instant t \<le> instant now + MAX_CLOCK_SKEW"
  shows "registration now (as_event (expected_event env store_id trace_id i t x))"
    "device_of (as_event (expected_event env store_id trace_id i t x)) = Some (derive_device_id store_id (ef_device_label (fst x)))"
proof -
  obtain ex tp ip where x: "x = (ex, tp, ip)" by (metis prod_cases3)
  then have "store_id \<noteq> []" using assms(1) by (auto simp: registers_def acceptable_def Let_def)
  then show "registration now (as_event (expected_event env store_id trace_id i t x))"
    using assms(2,3) by (simp add: registration_def as_event_def expected_event_def x event_of_def payload_of_def payload_object_def event_fits_def
        stamp_fits_def device_of_def requested_key_def derive_event_id_def)
  show "device_of (as_event (expected_event env store_id trace_id i t x)) = Some (derive_device_id store_id (ef_device_label (fst x)))"
    by (simp add: device_of_def as_event_def expected_event_def x event_of_def payload_of_def payload_object_def)
qed



end
